(* ===== verification/Prelude.thy ===== *)
theory Prelude
  imports Complex_Main "HOL-Library.Char_ord" "HOL-Library.List_Lexorder"
    "HOL-Library.Product_Lexorder" "HOL-Library.Multiset"
begin

text \<open>
  Shared vocabulary of the development: results of operations that may throw, the
  ECMAScript string and \<open>bigint\<close> primitives the domain lanes use, the injected clock and
  the event envelope, and the generic lemmas on lists and results the lane theories rely on.
\<close>

named_theorems result_simps \<open>inversion of operations that may throw\<close>

section \<open>Throwing operations\<close>

text \<open>
  Every failure of the domain core is a \<open>DomainError\<close> with a stable machine code
  (\<open>src/src/domain/shared/errors.ts\<close>); the message and the details record carry no
  control flow and are left out. \<open>RangeError\<close> is what the language raises on a \<open>bigint\<close>
  division by zero, on \<open>BigInt\<close> of a non-integer and on \<open>toISOString\<close> of an invalid date;
  \<open>TypeError\<close> is what it raises on a member of \<open>undefined\<close>; \<open>PlainError\<close> is \<open>new Error(...)\<close>.
\<close>

datatype js_error = DomainError string | RangeError | TypeError | PlainError

type_synonym 'a result = "js_error + 'a"

abbreviation throw :: "string \<Rightarrow> 'a result" where
  "throw code \<equiv> Inl (DomainError code)"

text \<open>Sequencing: a statement after a call that may throw.\<close>

fun and_then :: "'e + 'a \<Rightarrow> ('a \<Rightarrow> 'e + 'b) \<Rightarrow> 'e + 'b" where
  "and_then (Inl e) k = Inl e"
| "and_then (Inr x) k = k x"

text \<open>\<open>xs.map(f)\<close> for an \<open>f\<close> that may throw: the first failure wins.\<close>

fun traverse :: "('a \<Rightarrow> 'e + 'b) \<Rightarrow> 'a list \<Rightarrow> 'e + 'b list" where
  "traverse f [] = Inr []"
| "traverse f (x # xs) = and_then (f x) (\<lambda>y. and_then (traverse f xs) (\<lambda>ys. Inr (y # ys)))"

text \<open>\<open>xs.reduce(f, acc)\<close> for an \<open>f\<close> that may throw.\<close>

fun reduce :: "('b \<Rightarrow> 'a \<Rightarrow> 'e + 'b) \<Rightarrow> 'b \<Rightarrow> 'a list \<Rightarrow> 'e + 'b" where
  "reduce f acc [] = Inr acc"
| "reduce f acc (x # xs) = and_then (f acc x) (\<lambda>acc'. reduce f acc' xs)"

lemma and_then_Inr_iff [result_simps]:
  "and_then m k = Inr y \<longleftrightarrow> (\<exists>x. m = Inr x \<and> k x = Inr y)"
  by (cases m) auto

lemma and_then_Inl_iff [result_simps]:
  "and_then m k = Inl e \<longleftrightarrow> m = Inl e \<or> (\<exists>x. m = Inr x \<and> k x = Inl e)"
  by (cases m) auto

lemma guard_Inr_iff [result_simps]: "(if b then Inl e else m) = Inr y \<longleftrightarrow> \<not> b \<and> m = Inr y"
  by auto

lemma guard_neg_Inr_iff [result_simps]: "(if b then m else Inl e) = Inr y \<longleftrightarrow> b \<and> m = Inr y"
  by auto

lemma and_then_cong [fundef_cong]:
  "m = m' \<Longrightarrow> (\<And>x. m' = Inr x \<Longrightarrow> k x = k' x) \<Longrightarrow> and_then m k = and_then m' k'"
  by (cases m') auto

lemma traverse_Inr_iff:
  "traverse f xs = Inr ys \<longleftrightarrow> list_all2 (\<lambda>x y. f x = Inr y) xs ys"
  by (induction xs arbitrary: ys) (auto simp: and_then_Inr_iff list_all2_Cons1)

lemma traverse_length: "traverse f xs = Inr ys \<Longrightarrow> length ys = length xs"
  by (auto simp: traverse_Inr_iff dest: list_all2_lengthD)

lemma traverse_total: "(\<And>x. x \<in> set xs \<Longrightarrow> f x = Inr (g x)) \<Longrightarrow> traverse f xs = Inr (map g xs)"
  by (induction xs) auto

lemma traverse_nth: "traverse f xs = Inr ys \<Longrightarrow> i < length xs \<Longrightarrow> f (xs ! i) = Inr (ys ! i)"
  by (auto simp: traverse_Inr_iff dest: list_all2_nthD)

lemma traverse_Inr_ex: "(\<exists>ys. traverse f xs = Inr ys) \<longleftrightarrow> (\<forall>x \<in> set xs. \<exists>y. f x = Inr y)"
proof (induction xs)
  case (Cons x xs)
  then show ?case by (cases "f x") (auto simp: and_then_Inr_iff)
qed simp

lemma reduce_append:
  "reduce f acc (xs @ ys) = and_then (reduce f acc xs) (\<lambda>acc'. reduce f acc' ys)"
proof (induction xs arbitrary: acc)
  case (Cons x xs)
  then show ?case by (cases "f acc x") auto
qed simp

section \<open>Integers\<close>

text \<open>\<open>bigint\<close> division and remainder truncate towards zero; a zero divisor raises.\<close>

definition bdiv :: "int \<Rightarrow> int \<Rightarrow> int" where
  "bdiv a b = sgn a * sgn b * (\<bar>a\<bar> div \<bar>b\<bar>)"

definition bmod :: "int \<Rightarrow> int \<Rightarrow> int" where
  "bmod a b = a - bdiv a b * b"

lemma bdiv_nonneg [simp]: "0 \<le> a \<Longrightarrow> 0 \<le> b \<Longrightarrow> bdiv a b = a div b"
  by (cases "a = 0"; cases "b = 0") (auto simp: bdiv_def)

lemma bmod_nonneg [simp]: "0 \<le> a \<Longrightarrow> 0 \<le> b \<Longrightarrow> bmod a b = a mod b"
  by (simp add: bmod_def minus_div_mult_eq_mod)

lemma int_div_less:
  fixes a b c :: int
  assumes "0 < b" and "a < c * b"
  shows "a div b < c"
proof (rule ccontr)
  assume "\<not> a div b < c"
  with assms(1) have "c * b \<le> (a div b) * b" by (intro mult_right_mono) simp_all
  also have "\<dots> \<le> a" using assms(1) by (simp add: minus_mod_eq_div_mult[symmetric])
  finally show False using assms(2) by simp
qed

lemma div_le_iff: "a div b \<le> c \<longleftrightarrow> a < (c + 1) * b" if "0 < b" for a b c :: int
proof
  assume "a div b \<le> c"
  have "a < (a div b + 1) * b"
    using pos_mod_bound[OF that, of a] div_mult_mod_eq[of a b] unfolding distrib_right mult_1 by linarith
  also have "\<dots> \<le> (c + 1) * b" using \<open>a div b \<le> c\<close> that by (intro mult_right_mono) simp_all
  finally show "a < (c + 1) * b" .
next
  assume "a < (c + 1) * b"
  from int_div_less[OF that this] show "a div b \<le> c" by simp
qed

section \<open>Strings\<close>

text \<open>
  Strings are lists of code units; the code units of the model are those up to 255. The
  characters \<open>String.prototype.trim\<close> strips are the white space and line terminators of
  ECMAScript in that range.
\<close>

definition is_js_space :: "char \<Rightarrow> bool" where
  "is_js_space c \<longleftrightarrow> (let n = (of_char c :: nat) in (9 \<le> n \<and> n \<le> 13) \<or> n = 32 \<or> n = 160)"

definition trim :: "string \<Rightarrow> string" where
  "trim s = rev (dropWhile is_js_space (rev (dropWhile is_js_space s)))"

definition digit_char :: "nat \<Rightarrow> char" where
  "digit_char d = char_of (48 + d)"

definition is_digit :: "char \<Rightarrow> bool" where
  "is_digit c \<longleftrightarrow> (let n = (of_char c :: nat) in 48 \<le> n \<and> n \<le> 57)"

definition digit_val :: "char \<Rightarrow> nat" where
  "digit_val c = of_char c - 48"

fun nat_to_string :: "nat \<Rightarrow> string" where
  "nat_to_string n =
     (if n < 10 then [digit_char n] else nat_to_string (n div 10) @ [digit_char (n mod 10)])"

declare nat_to_string.simps [simp del]

definition int_to_string :: "int \<Rightarrow> string" where
  "int_to_string n = (if n < 0 then ''-'' @ nat_to_string (nat (- n)) else nat_to_string (nat n))"

text \<open>\<open>BigInt(text)\<close> on a text of decimal digits.\<close>

definition nat_of_digits :: "string \<Rightarrow> nat" where
  "nat_of_digits s = foldl (\<lambda>acc c. acc * 10 + digit_val c) 0 s"

definition pad_start :: "nat \<Rightarrow> char \<Rightarrow> string \<Rightarrow> string" where
  "pad_start w c s = replicate (w - length s) c @ s"

definition pad_end :: "nat \<Rightarrow> char \<Rightarrow> string \<Rightarrow> string" where
  "pad_end w c s = s @ replicate (w - length s) c"

lemma digit_char_simps [simp]:
  assumes "d < 10"
  shows "is_digit (digit_char d)" and "digit_val (digit_char d) = d"
    and "\<not> is_js_space (digit_char d)"
proof -
  have "(of_char (char_of (48 + d) :: char) :: nat) = 48 + d"
    using assms by (simp add: take_bit_nat_eq_self)
  then show "is_digit (digit_char d)" "digit_val (digit_char d) = d"
    "\<not> is_js_space (digit_char d)"
    using assms by (auto simp: is_digit_def digit_val_def digit_char_def is_js_space_def Let_def)
qed

lemma digit_char_inject: "d < 10 \<Longrightarrow> e < 10 \<Longrightarrow> digit_char d = digit_char e \<longleftrightarrow> d = e"
  by (metis digit_char_simps(2))

lemma nat_of_digits_append_digit:
  "nat_of_digits (s @ [c]) = nat_of_digits s * 10 + digit_val c"
  by (simp add: nat_of_digits_def)

lemma nat_to_string_digits: "\<forall>c \<in> set (nat_to_string n). is_digit c"
proof (induction n rule: nat_to_string.induct)
  case (1 n)
  then show ?case by (subst nat_to_string.simps) auto
qed

lemma nat_to_string_nonempty [simp]: "nat_to_string n \<noteq> []"
  by (subst nat_to_string.simps) simp

lemma nat_of_digits_to_string [simp]: "nat_of_digits (nat_to_string n) = n"
proof (induction n rule: nat_to_string.induct)
  case (1 n)
  show ?case
  proof (cases "n < 10")
    case True
    then show ?thesis by (subst nat_to_string.simps) (simp add: nat_of_digits_def)
  next
    case False
    with "1.IH" show ?thesis
      by (subst nat_to_string.simps) (simp add: nat_of_digits_append_digit)
  qed
qed

lemma digit_char_numerals:
  "digit_char 0 = CHR ''0''" "digit_char 1 = CHR ''1''" "digit_char 2 = CHR ''2''"
  "digit_char 3 = CHR ''3''" "digit_char 4 = CHR ''4''" "digit_char 5 = CHR ''5''"
  "digit_char 6 = CHR ''6''" "digit_char 7 = CHR ''7''" "digit_char 8 = CHR ''8''"
  "digit_char 9 = CHR ''9''"
  "digit_char (Suc 0) = CHR ''1''"
  by code_simp+

lemma nat_to_string_hd: "0 < n \<Longrightarrow> hd (nat_to_string n) \<noteq> CHR ''0''"
proof (induction n rule: nat_to_string.induct)
  case (1 n)
  have zero: "CHR ''0'' = digit_char 0" by (simp add: digit_char_numerals)
  show ?case
  proof (cases "n < 10")
    case True
    with "1.prems" show ?thesis
      by (subst nat_to_string.simps) (simp add: zero digit_char_inject)
  next
    case False
    with 1 show ?thesis by (subst nat_to_string.simps) simp
  qed
qed

lemma is_digit_not_space: "is_digit c \<Longrightarrow> \<not> is_js_space c"
  by (auto simp: is_digit_def is_js_space_def Let_def)

lemma trim_no_space:
  assumes "\<forall>c \<in> set s. \<not> is_js_space c"
  shows "trim s = s"
proof -
  have drop_id: "dropWhile is_js_space t = t" if "\<forall>c \<in> set t. \<not> is_js_space c" for t
    using that by (cases t) auto
  show ?thesis using assms by (simp add: trim_def drop_id)
qed

section \<open>The clock and the event envelope\<close>

text \<open>
  A \<open>Date\<close> is a valid time value in milliseconds since the epoch. The injected \<open>Clock\<close>
  may return a new value at every call: \<open>clock i\<close> is what its call number \<open>i\<close>
  (from 0) within one operation returns.
\<close>

type_synonym date = int
type_synonym uuid = string
type_synonym clock = "nat \<Rightarrow> date"

definition clock_after :: "nat \<Rightarrow> clock \<Rightarrow> clock" where
  "clock_after k clk = (\<lambda>i. clk (k + i))"

text \<open>The envelope the lanes share: \<open>{ name, version: 1, aggregateId, payload, occurredAt }\<close>.\<close>

record ('p, 't) domain_event =
  ev_name :: string
  ev_version :: nat
  ev_aggregateId :: uuid
  ev_payload :: 'p
  ev_occurredAt :: 't

section \<open>Lists\<close>

lemma find_SomeD: "find P xs = Some x \<Longrightarrow> x \<in> set xs \<and> P x"
  by (auto simp: find_Some_iff)

lemma sum_list_filter_split:
  fixes f :: "'a \<Rightarrow> int"
  shows "sum_list (map f xs) = sum_list (map f (filter P xs)) + sum_list (map f (filter (\<lambda>x. \<not> P x) xs))"
  by (induction xs) auto

lemma sum_list_nonneg_int:
  fixes f :: "'a \<Rightarrow> int"
  shows "(\<And>x. x \<in> set xs \<Longrightarrow> 0 \<le> f x) \<Longrightarrow> 0 \<le> sum_list (map f xs)"
  by (induction xs) auto

lemma member_le_sum_list_int:
  fixes f :: "'a \<Rightarrow> int"
  shows "x \<in> set xs \<Longrightarrow> (\<And>y. y \<in> set xs \<Longrightarrow> 0 \<le> f y) \<Longrightarrow> f x \<le> sum_list (map f xs)"
proof (induction xs)
  case (Cons y ys)
  then have "0 \<le> f y" and "0 \<le> sum_list (map f ys)"
    by (auto intro: sum_list_nonneg_int)
  with Cons show ?case by fastforce
qed simp

lemma foldl_plus_sum_list: "foldl (\<lambda>acc x. acc + f x) (a::int) xs = a + sum_list (map f xs)"
  by (induction xs arbitrary: a) auto

lemma sum_list_mset_eq:
  fixes f :: "'a \<Rightarrow> int"
  shows "mset xs = mset ys \<Longrightarrow> sum_list (map f xs) = sum_list (map f ys)"
  by (metis mset_map sum_mset_sum_list)

lemma sum_list_map_update:
  fixes f :: "'a \<Rightarrow> int"
  shows "k < length xs \<Longrightarrow> sum_list (map f (xs[k := x])) = sum_list (map f xs) + f x - f (xs ! k)"
  by (induction xs arbitrary: k) (auto split: nat.split)

lemma distinct_map_sorted_wrt: "sorted_wrt (\<lambda>x y. f x \<noteq> f y) xs \<Longrightarrow> distinct (map f xs)"
  by (induction xs) auto

end
