(* ===== verification/Js_Number.thy ===== *)
theory Js_Number
  imports Prelude "HOL-Library.Log_Nat"
begin

text \<open>
  ECMAScript's \<open>number\<close>, as far as the domain core uses it: IEEE 754 binary64 values as
  exact rationals, rounding to nearest with ties to even, the special values, and the
  conversions between \<open>number\<close> and \<open>bigint\<close>. The sign of zero is not represented, because
  no operation of the core can tell the two zeros apart.
\<close>

named_theorems number_simps \<open>exact evaluation of number operations\<close>

section \<open>Rounding\<close>

text \<open>Nearest integer, ties to the even neighbour.\<close>

definition rne :: "rat \<Rightarrow> int" where
  "rne x = (let f = \<lfloor>x\<rfloor>; d = x - of_int f in
     if d < 1 / 2 then f else if d > 1 / 2 then f + 1 else if even f then f else f + 1)"

text \<open>
  A non-negative value in units of the smallest subnormal, \<open>2 ^ -1074\<close>: with at most 53
  significant bits the unit in the last place is 1, above that it grows with the bit length.
\<close>

definition ulp_exp :: "rat \<Rightarrow> nat" where
  "ulp_exp y = floorlog 2 (nat \<lfloor>y\<rfloor>) - 53"

definition round_units :: "rat \<Rightarrow> rat" where
  "round_units y = of_int (rne (y / 2 ^ ulp_exp y)) * 2 ^ ulp_exp y"

text \<open>Rounding a rational to binary64 (overflow is handled by the operations below).\<close>

definition fl :: "rat \<Rightarrow> rat" where
  "fl x = (if x < 0 then - round_units (- x * 2 ^ 1074) / 2 ^ 1074
           else round_units (x * 2 ^ 1074) / 2 ^ 1074)"

lemma rne_of_int [simp]: "rne (of_int n) = n"
  by (simp add: rne_def)

lemma rne_nearest: "\<bar>of_int (rne x) - x\<bar> \<le> 1 / 2"
proof -
  have "of_int \<lfloor>x\<rfloor> \<le> x" and "x < of_int \<lfloor>x\<rfloor> + 1" by linarith+
  then show ?thesis by (simp add: rne_def Let_def abs_le_iff)
qed

lemma rne_nonneg: "0 \<le> x \<Longrightarrow> 0 \<le> rne x"
  by (auto simp: rne_def Let_def)

lemma ulp_exp_lower:
  assumes "0 < ulp_exp y"
  shows "2 ^ (52 + ulp_exp y) \<le> y"
proof -
  let ?n = "nat \<lfloor>y\<rfloor>"
  have b: "53 < floorlog 2 ?n" using assms by (simp add: ulp_exp_def)
  then have "0 < ?n" by (cases "?n = 0") (simp_all add: floorlog_def)
  then have "2 ^ (floorlog 2 ?n - 1) \<le> ?n" using floorlog_bounds[of ?n 2] by simp
  moreover have "floorlog 2 ?n - 1 = 52 + ulp_exp y" using b by (simp add: ulp_exp_def)
  ultimately have "2 ^ (52 + ulp_exp y) \<le> int ?n" by (metis of_nat_le_iff of_nat_numeral of_nat_power)
  then have "2 ^ (52 + ulp_exp y) \<le> \<lfloor>y\<rfloor>" using \<open>0 < ?n\<close> by simp
  then show ?thesis by (metis le_floor_iff of_int_numeral of_int_power)
qed

lemma ulp_exp_zero:
  assumes "y < 2 ^ 53"
  shows "ulp_exp y = 0"
proof (rule ccontr)
  assume "ulp_exp y \<noteq> 0"
  then have "2 ^ (52 + ulp_exp y) \<le> y" by (intro ulp_exp_lower) simp
  moreover have "(2::rat) ^ 53 \<le> 2 ^ (52 + ulp_exp y)"
    using \<open>ulp_exp y \<noteq> 0\<close> by (intro power_increasing) simp_all
  ultimately show False using assms by (meson not_le order_trans)
qed

text \<open>Relative error of one rounding: at most \<open>2 ^ -53\<close> from \<open>2 ^ 52\<close> units on.\<close>

lemma round_units_error:
  assumes "2 ^ 52 \<le> y"
  shows "\<bar>round_units y - y\<bar> \<le> y / 2 ^ 53"
proof -
  let ?e = "ulp_exp y"
  have "round_units y - y = (of_int (rne (y / 2 ^ ?e)) - y / 2 ^ ?e) * 2 ^ ?e"
    by (simp add: round_units_def algebra_simps)
  then have "\<bar>round_units y - y\<bar> \<le> 1 / 2 * 2 ^ ?e"
    using rne_nearest[of "y / 2 ^ ?e"] by (simp add: abs_mult mult_right_mono)
  also have "\<dots> \<le> y / 2 ^ 53"
  proof (cases "?e = 0")
    case True
    with assms show ?thesis by simp
  next
    case False
    then have "2 ^ (52 + ?e) \<le> y" by (intro ulp_exp_lower) simp
    then show ?thesis by (simp add: power_add)
  qed
  finally show ?thesis .
qed

text \<open>Up to \<open>2 ^ 53\<close> units every integer number of units is exact.\<close>

lemma round_units_exact: "0 \<le> m \<Longrightarrow> m \<le> 2 ^ 53 \<Longrightarrow> round_units (of_int m * 2 ^ k) = of_int m * 2 ^ k"
proof -
  assume m: "0 \<le> m" "m \<le> 2 ^ 53"
  let ?y = "of_int m * 2 ^ k :: rat"
  have le: "?y \<le> 2 ^ (53 + k)"
    using m of_int_le_iff[of m "2 ^ 53", where 'a = rat]
    by (simp add: power_add mult_right_mono)
  have "ulp_exp ?y \<le> k \<or> ?y = 2 ^ (53 + k) \<and> ulp_exp ?y = Suc k"
  proof (cases "ulp_exp ?y \<le> k")
    case False
    then have "2 ^ (52 + ulp_exp ?y) \<le> ?y" by (intro ulp_exp_lower) simp
    from this le have "(2::rat) ^ (52 + ulp_exp ?y) \<le> 2 ^ (53 + k)" by (rule order_trans)
    then have "ulp_exp ?y \<le> Suc k" by (simp add: power_increasing_iff)
    with False have e: "ulp_exp ?y = Suc k" by simp
    with \<open>2 ^ (52 + ulp_exp ?y) \<le> ?y\<close> le show ?thesis by simp
  qed simp
  then show ?thesis
  proof
    assume "ulp_exp ?y \<le> k"
    define e where "e = ulp_exp ?y"
    from \<open>ulp_exp ?y \<le> k\<close> obtain d where "k = e + d" by (auto simp: le_iff_add e_def)
    then have pow: "(2::rat) ^ k = 2 ^ e * 2 ^ d" by (simp add: power_add)
    then have "?y / 2 ^ e = of_int (m * 2 ^ d)" by simp
    then have "round_units ?y = of_int (m * 2 ^ d) * 2 ^ e"
      by (simp only: round_units_def rne_of_int flip: e_def)
    also have "\<dots> = ?y" using pow by simp
    finally show ?thesis .
  next
    assume *: "?y = 2 ^ (53 + k) \<and> ulp_exp ?y = Suc k"
    define e where "e = ulp_exp ?y"
    from * have e: "e = Suc k" and y: "?y = 2 ^ (53 + k)" by (auto simp only: e_def)
    then have "?y / 2 ^ e = of_int (2 ^ 52)" by (simp only: y e) (simp add: power_add)
    then have "round_units ?y = of_int (2 ^ 52) * 2 ^ e"
      by (simp only: round_units_def rne_of_int flip: e_def)
    also have "\<dots> = ?y" unfolding y e by (simp add: power_add)
    finally show ?thesis .
  qed
qed

lemma fl_nonneg: "0 \<le> x \<Longrightarrow> 0 \<le> fl x"
  by (simp add: fl_def round_units_def rne_nonneg)

lemma fl_minus: "fl (- x) = - fl x"
  using rne_of_int[of 0] by (auto simp: fl_def round_units_def)

lemma fl_error_normal:
  assumes "2 ^ 52 \<le> x * 2 ^ 1074"
  shows "\<bar>fl x - x\<bar> \<le> x / 2 ^ 53"
proof -
  have "\<bar>round_units (x * 2 ^ 1074) - x * 2 ^ 1074\<bar> \<le> x * 2 ^ 1074 / 2 ^ 53"
    by (rule round_units_error[OF assms])
  moreover have "0 < x * 2 ^ 1074"
    using assms by (rule less_le_trans[rotated]) simp
  then have "0 < x" by (simp add: zero_less_mult_iff del: power_numeral)
  then have "fl x - x = (round_units (x * 2 ^ 1074) - x * 2 ^ 1074) / 2 ^ 1074"
    by (simp add: fl_def diff_divide_distrib del: power_numeral)
  then have "\<bar>fl x - x\<bar> = \<bar>round_units (x * 2 ^ 1074) - x * 2 ^ 1074\<bar> / 2 ^ 1074"
    by (simp only: abs_divide power_abs abs_numeral)
  ultimately show ?thesis by (simp add: pos_divide_le_eq del: power_numeral)
qed

lemma fl_error:
  assumes "1 \<le> x"
  shows "\<bar>fl x - x\<bar> \<le> x / 2 ^ 53"
proof (rule fl_error_normal)
  have "(2::rat) ^ 52 \<le> 2 ^ 1074" by (rule power_increasing) simp_all
  also have "\<dots> \<le> x * 2 ^ 1074" using assms by simp
  finally show "2 ^ 52 \<le> x * 2 ^ 1074" .
qed

text \<open>Dyadic rationals with a short significand are exact; so are integers up to \<open>2 ^ 53\<close>.\<close>

lemma fl_dyadic:
  assumes "\<bar>m\<bar> \<le> 2 ^ 53" and "k \<le> 1074"
  shows "fl (of_int m / 2 ^ k) = of_int m / 2 ^ k"
proof -
  have pos: "fl (of_int n / 2 ^ k) = of_int n / 2 ^ k" if n: "0 \<le> n" "n \<le> 2 ^ 53" for n
  proof -
    have pow: "(2::rat) ^ 1074 = 2 ^ k * 2 ^ (1074 - k)"
      using assms(2) by (simp flip: power_add del: power_numeral)
    then have "of_int n / 2 ^ k * 2 ^ 1074 = (of_int n * 2 ^ (1074 - k) :: rat)"
      by (simp del: power_numeral)
    moreover have "0 \<le> (of_int n :: rat) / 2 ^ k" using n by simp
    ultimately have "fl (of_int n / 2 ^ k) = of_int n * 2 ^ (1074 - k) / 2 ^ 1074"
      using round_units_exact[OF n, of "1074 - k"] by (simp add: fl_def not_less del: power_numeral)
    then show ?thesis using pow by (simp del: power_numeral)
  qed
  show ?thesis
  proof (cases "0 \<le> m")
    case True
    with assms(1) pos show ?thesis by simp
  next
    case False
    then have "fl (of_int (- m) / 2 ^ k) = of_int (- m) / 2 ^ k" using assms(1) by (intro pos) simp_all
    then show ?thesis using fl_minus[of "of_int m / 2 ^ k"] by simp
  qed
qed

lemma fl_int [number_simps]: "\<bar>m\<bar> \<le> 2 ^ 53 \<Longrightarrow> fl (of_int m) = of_int m"
  using fl_dyadic[of m 0] by simp

text \<open>The rounding of an integer is an integer.\<close>

lemma fl_of_int_integer: "\<exists>n. fl (of_int m) = of_int n"
proof -
  have pos: "\<exists>n. fl (of_int m) = of_int n" if "0 \<le> m" for m
  proof (cases "m \<le> 2 ^ 53")
    case True
    with that fl_int[of m] show ?thesis by auto
  next
    case False
    let ?y = "of_int m * 2 ^ 1074 :: rat"
    have "\<not> ulp_exp ?y < 1074"
    proof
      assume "ulp_exp ?y < 1074"
      moreover have "nat \<lfloor>?y\<rfloor> = nat (m * 2 ^ 1074)"
        by (metis floor_of_int of_int_mult of_int_numeral of_int_power)
      ultimately have "floorlog 2 (nat (m * 2 ^ 1074)) < 53 + 1074" by (simp add: ulp_exp_def)
      moreover have "0 < nat (m * 2 ^ 1074)" using False by simp
      ultimately have "nat (m * 2 ^ 1074) < 2 ^ floorlog 2 (nat (m * 2 ^ 1074))"
        and "(2::nat) ^ floorlog 2 (nat (m * 2 ^ 1074)) \<le> 2 ^ (53 + 1074)"
        using floorlog_bounds[of "nat (m * 2 ^ 1074)" 2] power_increasing_iff[of "2::nat"]
        by (simp_all del: power_numeral)
      then have "nat (m * 2 ^ 1074) < 2 ^ (53 + 1074)" by (rule less_le_trans)
      then have "m * 2 ^ 1074 < 2 ^ (53 + 1074)" using that by (simp add: nat_less_iff del: power_numeral)
      also have "\<dots> = (2::int) ^ 53 * 2 ^ 1074" by (rule power_add)
      finally have "m < 2 ^ 53" by (rule mult_right_less_imp_less) simp
      then show False using False by simp
    qed
    then have "(2::rat) ^ ulp_exp ?y = 2 ^ (ulp_exp ?y - 1074) * 2 ^ 1074"
      by (simp flip: power_add del: power_numeral)
    then have "fl (of_int m) = of_int (rne (?y / 2 ^ ulp_exp ?y) * 2 ^ (ulp_exp ?y - 1074))"
      using that by (simp add: fl_def round_units_def del: power_numeral)
    then show ?thesis ..
  qed
  show ?thesis
  proof (cases "0 \<le> m")
    case False
    then obtain n where "fl (of_int (- m)) = of_int n" using pos[of "- m"] by auto
    then have "fl (of_int m) = of_int (- n)" using fl_minus[of "of_int m"] by simp
    then show ?thesis ..
  qed (rule pos)
qed

section \<open>The number type\<close>

datatype js_num = NaN | PosInf | NegInf | Fin rat

text \<open>Rounding with overflow: magnitudes that round to \<open>2 ^ 1024\<close> or more are infinite.\<close>

definition js_round :: "rat \<Rightarrow> js_num" where
  "js_round x = (let r = fl x in if 2 ^ 1024 \<le> r then PosInf else if r \<le> - (2 ^ 1024) then NegInf
     else Fin r)"

fun js_add :: "js_num \<Rightarrow> js_num \<Rightarrow> js_num" where
  "js_add (Fin a) (Fin b) = js_round (a + b)"
| "js_add NaN _ = NaN"
| "js_add _ NaN = NaN"
| "js_add PosInf NegInf = NaN"
| "js_add NegInf PosInf = NaN"
| "js_add PosInf _ = PosInf"
| "js_add _ PosInf = PosInf"
| "js_add NegInf _ = NegInf"
| "js_add _ NegInf = NegInf"

text \<open>Multiplication by a positive finite constant, the only product the core forms.\<close>

fun js_scale :: "js_num \<Rightarrow> rat \<Rightarrow> js_num" where
  "js_scale (Fin a) c = js_round (a * c)"
| "js_scale NaN _ = NaN"
| "js_scale PosInf _ = PosInf"
| "js_scale NegInf _ = NegInf"

fun is_finite_num :: "js_num \<Rightarrow> bool" where
  "is_finite_num (Fin _) = True"
| "is_finite_num _ = False"

text \<open>\<open>x < 0\<close> and \<open>x <= 0\<close>; comparisons with \<open>NaN\<close> are false.\<close>

fun js_neg :: "js_num \<Rightarrow> bool" where
  "js_neg (Fin a) = (a < 0)"
| "js_neg NegInf = True"
| "js_neg _ = False"

fun js_nonpos :: "js_num \<Rightarrow> bool" where
  "js_nonpos (Fin a) = (a \<le> 0)"
| "js_nonpos NegInf = True"
| "js_nonpos _ = False"

text \<open>\<open>Math.round\<close>: the nearest integer, halves upwards.\<close>

fun math_round :: "js_num \<Rightarrow> js_num" where
  "math_round (Fin a) = Fin (of_int \<lfloor>a + 1 / 2\<rfloor>)"
| "math_round x = x"

fun is_integer_num :: "js_num \<Rightarrow> bool" where
  "is_integer_num (Fin a) = (of_int \<lfloor>a\<rfloor> = a)"
| "is_integer_num _ = False"

definition max_safe_integer :: int where
  "max_safe_integer = 2 ^ 53 - 1"

text \<open>\<open>Number.isSafeInteger\<close>\<close>

fun is_safe_integer :: "js_num \<Rightarrow> bool" where
  "is_safe_integer (Fin a) = (of_int \<lfloor>a\<rfloor> = a \<and> \<bar>\<lfloor>a\<rfloor>\<bar> \<le> max_safe_integer)"
| "is_safe_integer _ = False"

text \<open>\<open>BigInt(x)\<close> raises a \<open>RangeError\<close> unless \<open>x\<close> is an integer.\<close>

fun bigint_of :: "js_num \<Rightarrow> int result" where
  "bigint_of (Fin a) = (if of_int \<lfloor>a\<rfloor> = a then Inr \<lfloor>a\<rfloor> else Inl RangeError)"
| "bigint_of _ = Inl RangeError"

text \<open>\<open>Number(b)\<close> for a \<open>bigint\<close>.\<close>

definition number_of :: "int \<Rightarrow> js_num" where
  "number_of b = js_round (of_int b)"

lemma js_round_exact [number_simps]:
  assumes "fl x = x" and "\<bar>x\<bar> < 2 ^ 1024"
  shows "js_round x = Fin x"
  using assms by (auto simp: js_round_def Let_def abs_less_iff)

lemma js_round_int [number_simps]: "\<bar>m\<bar> \<le> 2 ^ 53 \<Longrightarrow> js_round (of_int m) = Fin (of_int m)"
proof (rule js_round_exact)
  assume m: "\<bar>m\<bar> \<le> 2 ^ 53"
  then show "fl (of_int m) = of_int m" by (rule fl_int)
  have "\<bar>of_int m :: rat\<bar> \<le> 2 ^ 53" using m by (metis of_int_abs of_int_le_iff of_int_numeral of_int_power)
  also have "(2::rat) ^ 53 < 2 ^ 1024" by (rule power_strict_increasing) simp_all
  finally show "\<bar>of_int m :: rat\<bar> < 2 ^ 1024" .
qed

lemma js_round_dyadic:
  assumes "\<bar>m\<bar> \<le> 2 ^ 53" and "k \<le> 1074"
  shows "js_round (of_int m / 2 ^ k) = Fin (of_int m / 2 ^ k)"
proof (rule js_round_exact[OF fl_dyadic[OF assms]])
  have "\<bar>of_int m / 2 ^ k :: rat\<bar> \<le> of_int \<bar>m\<bar>" by (simp add: abs_divide divide_le_eq mult_le_cancel_left1)
  also have "\<dots> \<le> 2 ^ 53" using assms(1) by (metis of_int_le_iff of_int_numeral of_int_power)
  also have "\<dots> < (2::rat) ^ 1024" by (rule power_strict_increasing) simp_all
  finally show "\<bar>of_int m / 2 ^ k :: rat\<bar> < 2 ^ 1024" .
qed

lemma number_of_int [number_simps]: "\<bar>m\<bar> \<le> 2 ^ 53 \<Longrightarrow> number_of m = Fin (of_int m)"
  by (simp add: number_of_def js_round_int)

lemma js_add_int [number_simps]:
  "\<bar>m + n\<bar> \<le> 2 ^ 53 \<Longrightarrow> js_add (Fin (of_int m)) (Fin (of_int n)) = Fin (of_int (m + n))"
  using js_round_int[of "m + n"] by simp

text \<open>
  An integer scaled by an integer, as \<open>Math.round(w * 1e9)\<close>: the rounded product is an
  integer within one part in \<open>2 ^ 53\<close> of the exact one.
\<close>

lemma fl_nat_error:
  assumes "0 \<le> k" and "fl (of_int k) = of_int n"
  shows "\<bar>n - k\<bar> * 2 ^ 53 \<le> k"
proof (cases "k = 0")
  case True
  with assms(2) fl_int[of 0] show ?thesis by simp
next
  case False
  with assms(1) have "1 \<le> k" by linarith
  then have "\<bar>fl (of_int k) - of_int k\<bar> \<le> of_int k / 2 ^ 53"
    by (intro fl_error) (metis of_int_1 of_int_le_iff)
  then have "of_int \<bar>n - k\<bar> * (2::rat) ^ 53 \<le> of_int k"
    by (simp add: assms(2) field_simps)
  then show ?thesis
    by (metis of_int_le_iff of_int_mult of_int_numeral of_int_power)
qed

lemma js_round_nat_error:
  assumes "0 \<le> k" and "k \<le> 2 ^ 1000"
  obtains n where "js_round (of_int k) = Fin (of_int n)" and "0 \<le> n" and "\<bar>n - k\<bar> * 2 ^ 53 \<le> k"
proof -
  obtain n where n: "fl (of_int k) = of_int n" using fl_of_int_integer by blast
  have e: "\<bar>n - k\<bar> * 2 ^ 53 \<le> k" by (rule fl_nat_error[OF assms(1) n])
  have n0: "0 \<le> n" using fl_nonneg[of "of_int k"] n assms(1) by simp
  have "d \<le> k" if "0 \<le> d" "d * 2 ^ 53 \<le> k" for d :: int using that by simp
  from this[OF abs_ge_zero e] have "\<bar>n - k\<bar> \<le> k" .
  then have "n \<le> 2 * k" by linarith
  with assms(2) have "n \<le> 2 ^ 1001" by simp
  also have "\<dots> < (2::int) ^ 1024" by (rule power_strict_increasing) simp_all
  finally have "(of_int n :: rat) < 2 ^ 1024"
    by (metis of_int_less_iff of_int_numeral of_int_power)
  then have "js_round (of_int k) = Fin (of_int n)"
    using n n0 by (simp add: js_round_def)
  then show ?thesis using that n0 e by blast
qed

lemma js_scale_int_error:
  assumes "0 \<le> m" and "0 \<le> c" and "m * c \<le> 2 ^ 1000"
  obtains n where "math_round (js_scale (Fin (of_int m)) (of_int c)) = Fin (of_int n)"
    and "bigint_of (Fin (of_int n)) = Inr n" and "0 \<le> n" and "\<bar>n - m * c\<bar> * 2 ^ 53 \<le> m * c"
proof -
  have "0 \<le> m * c" using assms(1,2) by simp
  from js_round_nat_error[OF this assms(3)] obtain n
    where n: "js_round (of_int (m * c)) = Fin (of_int n)" "0 \<le> n" "\<bar>n - m * c\<bar> * 2 ^ 53 \<le> m * c" .
  show ?thesis by (rule that[of n]) (use n in \<open>simp_all add: floor_eq_iff\<close>)
qed

lemma is_safe_integer_int [simp]: "is_safe_integer (Fin (of_int n)) \<longleftrightarrow> \<bar>n\<bar> \<le> max_safe_integer"
  by simp

text \<open>The integer a number stands for, read only behind a \<open>Number.isSafeInteger\<close> guard.\<close>

fun int_of_num :: "js_num \<Rightarrow> int" where
  "int_of_num (Fin a) = \<lfloor>a\<rfloor>"
| "int_of_num _ = 0"

text \<open>\<open>x < b\<close> against a literal.\<close>

fun js_less :: "js_num \<Rightarrow> rat \<Rightarrow> bool" where
  "js_less (Fin a) b = (a < b)"
| "js_less NegInf _ = True"
| "js_less _ _ = False"

text \<open>
  \<open>Math.floor(e / d)\<close> for an integer \<open>e\<close> (a difference of time values) and a positive
  integer literal \<open>d\<close>; both the difference and the quotient are rounded.
\<close>

definition floor_quotient :: "int \<Rightarrow> int \<Rightarrow> int" where
  "floor_quotient e d = \<lfloor>fl (fl (of_int e) / of_int d)\<rfloor>"

lemma fl_quotient_error:
  assumes "0 < e" and "e < 2 ^ 53" and "0 < d" and "d \<le> 2 ^ 53"
  shows "\<bar>fl (of_int e / of_int d) - of_int e / of_int d\<bar> < 1 / of_int d"
proof -
  let ?x = "of_int e / of_int d :: rat"
  have d: "(of_int d :: rat) \<le> 2 ^ 53" "(0::rat) < of_int d"
    using assms(3,4) by (metis of_int_le_iff of_int_numeral of_int_power, simp)
  have e: "(1::rat) \<le> of_int e" "(of_int e :: rat) < 2 ^ 53"
    using assms(1,2) by (simp, metis of_int_less_iff of_int_numeral of_int_power)
  have "(2::rat) ^ 52 * of_int d \<le> 2 ^ 52 * 2 ^ 53" using d(1) by (intro mult_left_mono) simp_all
  also have "\<dots> = 2 ^ 105" by (simp flip: power_add)
  also have "\<dots> \<le> (2::rat) ^ 1074" by (rule power_increasing) simp_all
  also have "\<dots> \<le> of_int e * 2 ^ 1074" using e(1) by simp
  finally have "2 ^ 52 \<le> ?x * 2 ^ 1074"
    using d(2) by (simp add: pos_le_divide_eq del: power_numeral)
  then have "\<bar>fl ?x - ?x\<bar> \<le> ?x / 2 ^ 53" by (rule fl_error_normal)
  also have "\<dots> < 1 / of_int d"
    using d(2) e(2) by (simp add: divide_less_eq field_simps)
  finally show ?thesis .
qed

lemma floor_quotient_div:
  assumes "0 \<le> e" and "e < 2 ^ 53" and "0 < d" and "d \<le> 2 ^ 53"
  shows "floor_quotient e d = e div d"
proof -
  have ex: "fl (of_int e) = of_int e" using assms(1,2) by (intro fl_int) simp
  define n r where "n = e div d" and "r = e mod d"
  have e: "e = n * d + r" "0 \<le> r" "r < d" using assms(3) by (simp_all add: n_def r_def)
  have dpos: "(0::rat) < of_int d" using assms(3) by simp
  have x: "of_int e / of_int d = (of_int n + of_int r / of_int d :: rat)"
    using dpos by (simp add: e(1) add_divide_distrib)
  show ?thesis
  proof (cases "r = 0")
    case True
    have n0: "0 \<le> n" using assms(1,3) by (simp add: n_def pos_imp_zdiv_nonneg_iff)
    then have "n * 1 \<le> n * d" using assms(3) by (intro mult_left_mono) simp_all
    then have "n \<le> e" using e by simp
    with n0 have "fl (of_int n) = of_int n" using assms(2) by (intro fl_int) simp
    then show ?thesis using True x by (simp add: floor_quotient_def ex flip: n_def)
  next
    case False
    with e(2) have r1: "1 \<le> r" by simp
    have "0 < e"
    proof (rule ccontr)
      assume "\<not> 0 < e"
      with assms(1) have "e = 0" by simp
      then show False using False by (simp add: r_def)
    qed
    from fl_quotient_error[OF this assms(2-4)]
    have err: "\<bar>fl (of_int e / of_int d) - of_int e / of_int d\<bar> < 1 / of_int d" .
    have "1 / of_int d \<le> (of_int r / of_int d :: rat)" using r1 dpos by (simp add: divide_right_mono)
    moreover have "of_int r / of_int d + 1 / of_int d \<le> (1::rat)"
      using e(3) dpos by (simp add: add_divide_distrib[symmetric] divide_le_eq)
    ultimately have "of_int n < fl (of_int e / of_int d)" "fl (of_int e / of_int d) < of_int n + 1"
      using err x by (simp_all add: abs_less_iff)
    then show ?thesis by (simp add: floor_quotient_def ex floor_eq_iff flip: n_def)
  qed
qed

lemma floor_quotient_nonpos:
  assumes "e \<le> 0" and "0 < d"
  shows "floor_quotient e d \<le> 0"
proof -
  have "0 \<le> fl (of_int (- e))" using assms(1) by (intro fl_nonneg) simp
  then have "fl (of_int e) \<le> 0" using fl_minus[of "of_int e"] by simp
  then have "0 \<le> - (fl (of_int e) / of_int d)" using assms(2) by (simp add: divide_nonpos_pos)
  then have "0 \<le> fl (- (fl (of_int e) / of_int d))" by (rule fl_nonneg)
  then have "fl (fl (of_int e) / of_int d) \<le> 0" by (simp add: fl_minus)
  then show ?thesis by (simp add: floor_quotient_def floor_le_iff)
qed

end
