(* ===== verification/Money.thy ===== *)
theory Money
  imports Js_Number
begin

text \<open>
  The \<open>Money\<close> value object of \<open>src/src/domain/shared/money.ts\<close>: integer minor units with
  a currency, non-negative, single-currency arithmetic, decimal parsing and printing, and the
  largest-remainder split \<open>allocate\<close> that pro-rata allocation and payment plans rest on.
\<close>

named_theorems money_simps \<open>money arithmetic\<close>

section \<open>Currencies and money\<close>

text \<open>
  \<open>OtherCurrency\<close> stands for a value outside the declared union that reaches a runtime
  check (\<open>isCurrency\<close>, \<open>assertCurrency\<close>) from an untyped caller.
\<close>

datatype currency = KES | USD | GBP | EUR | TZS | UGX | OtherCurrency string

definition CURRENCIES :: "currency list" where
  "CURRENCIES = [KES, USD, GBP, EUR, TZS, UGX]"

fun currency_code :: "currency \<Rightarrow> string" where
  "currency_code KES = ''KES''"
| "currency_code USD = ''USD''"
| "currency_code GBP = ''GBP''"
| "currency_code EUR = ''EUR''"
| "currency_code TZS = ''TZS''"
| "currency_code UGX = ''UGX''"
| "currency_code (OtherCurrency s) = s"

datatype money_input = BigIntIn int | NumberIn js_num

fun toMinor :: "money_input \<Rightarrow> int result" where
  "toMinor (NumberIn x) =
     (if \<not> is_finite_num x \<or> \<not> is_integer_num x then throw ''MONEY_NOT_INTEGER'' else bigint_of x)"
| "toMinor (BigIntIn a) = Inr a"

record money =
  m_amount :: int
  m_currency :: currency

abbreviation mk_money :: "int \<Rightarrow> currency \<Rightarrow> money" where
  "mk_money a c \<equiv> \<lparr>m_amount = a, m_currency = c\<rparr>"

definition zero_money :: "currency \<Rightarrow> money" where
  "zero_money c = mk_money 0 c"

definition ofMinor :: "money_input \<Rightarrow> currency \<Rightarrow> money result" where
  "ofMinor amount c = and_then (toMinor amount) (\<lambda>minor.
     if minor < 0 then throw ''MONEY_NEGATIVE'' else Inr (mk_money minor c))"

abbreviation ofMinorB :: "int \<Rightarrow> currency \<Rightarrow> money result" where
  "ofMinorB a c \<equiv> ofMinor (BigIntIn a) c"

text \<open>
  \<open>parse\<close>: the regular expression \<open>^(0|[1-9]\d*)(?:\.(\d{1,2}))?$\<close> splits the trimmed
  text at its first dot; the whole part has no leading zero, the fraction one or two digits.
\<close>

definition whole_ok :: "string \<Rightarrow> bool" where
  "whole_ok w \<longleftrightarrow> w \<noteq> [] \<and> list_all is_digit w \<and> (w = ''0'' \<or> hd w \<noteq> CHR ''0'')"

definition match_money :: "string \<Rightarrow> (string \<times> string option) option" where
  "match_money t = (let w = takeWhile (\<lambda>c. c \<noteq> CHR ''.'') t; rest = dropWhile (\<lambda>c. c \<noteq> CHR ''.'') t in
     if \<not> whole_ok w then None
     else case rest of [] \<Rightarrow> Some (w, None)
       | _ # f \<Rightarrow> if list_all is_digit f \<and> (length f = 1 \<or> length f = 2) then Some (w, Some f) else None)"

definition parse_money :: "string \<Rightarrow> currency \<Rightarrow> money result" where
  "parse_money txt c = (case match_money (trim txt) of
       None \<Rightarrow> throw ''MONEY_UNPARSEABLE''
     | Some (w, f) \<Rightarrow>
         let whole = int (nat_of_digits w);
             frac = pad_end 2 (CHR ''0'') (case f of None \<Rightarrow> [] | Some d \<Rightarrow> d);
             cents = (if frac = [] then 0
                      else int (nat_of_digits (if frac = ''00'' then ''0'' else frac)))
         in Inr (mk_money (whole * 100 + cents) c))"

definition assertSame :: "money \<Rightarrow> money \<Rightarrow> unit result" where
  "assertSame a b = (if m_currency a \<noteq> m_currency b then throw ''CURRENCY_MISMATCH'' else Inr ())"

definition add_money :: "money \<Rightarrow> money \<Rightarrow> money result" where
  "add_money a b = and_then (assertSame a b) (\<lambda>_. Inr (mk_money (m_amount a + m_amount b) (m_currency a)))"

definition subtract_money :: "money \<Rightarrow> money \<Rightarrow> money result" where
  "subtract_money a b = and_then (assertSame a b) (\<lambda>_.
     if m_amount b > m_amount a then throw ''UNDERFLOW''
     else Inr (mk_money (m_amount a - m_amount b) (m_currency a)))"

definition isZero :: "money \<Rightarrow> bool" where
  "isZero m \<longleftrightarrow> m_amount m = 0"

definition isPositive :: "money \<Rightarrow> bool" where
  "isPositive m \<longleftrightarrow> 0 < m_amount m"

definition compareTo :: "money \<Rightarrow> money \<Rightarrow> int result" where
  "compareTo a b = and_then (assertSame a b) (\<lambda>_.
     Inr (if m_amount a = m_amount b then 0 else if m_amount a > m_amount b then 1 else - 1))"

definition equals_money :: "money \<Rightarrow> money \<Rightarrow> bool result" where
  "equals_money a b = and_then (compareTo a b) (\<lambda>c. Inr (c = 0))"

definition money_toString :: "money \<Rightarrow> string" where
  "money_toString m =
     int_to_string (bdiv (m_amount m) 100) @ ''.'' @
     pad_start 2 (CHR ''0'') (int_to_string (bmod (m_amount m) 100)) @ '' '' @ currency_code (m_currency m)"

section \<open>The largest-remainder split\<close>

text \<open>
  One entry of the working array of \<open>allocate\<close>: \<open>{ index, base, rem }\<close>. The integer part
  of the method, from the scaled weights on, is \<open>split_scaled\<close>: floor shares, then one
  unit more for the \<open>leftover\<close> entries with the largest remainders, ties by index.
\<close>

record slot =
  s_index :: nat
  s_base :: int
  s_rem :: int

definition raw_slots :: "int \<Rightarrow> int \<Rightarrow> int list \<Rightarrow> slot list" where
  "raw_slots amount sumW scaled = map (\<lambda>(i, s).
     \<lparr>s_index = i, s_base = bdiv (amount * s) sumW, s_rem = bmod (amount * s) sumW\<rparr>)
     (enumerate 0 scaled)"

definition slot_order :: "slot list \<Rightarrow> slot list" where
  "slot_order raw = sort_key (\<lambda>r. (- s_rem r, s_index r)) raw"

definition bumped_slots :: "int \<Rightarrow> slot list \<Rightarrow> nat set" where
  "bumped_slots amount raw =
     (let leftover = amount - sum_list (map s_base raw)
      in set (map s_index (take (nat leftover) (slot_order raw))))"

definition split_scaled :: "int \<Rightarrow> int \<Rightarrow> int list \<Rightarrow> int list" where
  "split_scaled amount sumW scaled =
     (let raw = raw_slots amount sumW scaled; bumped = bumped_slots amount raw
      in map (\<lambda>r. if s_index r \<in> bumped then s_base r + 1 else s_base r) raw)"

definition scale_factor :: rat where
  "scale_factor = 1000000000"

definition scaled_weight :: "js_num \<Rightarrow> int result" where
  "scaled_weight w = bigint_of (math_round (js_scale w scale_factor))"

definition allocate :: "money \<Rightarrow> js_num list \<Rightarrow> money list result" where
  "allocate m weights =
     (if weights = [] then throw ''ALLOCATION_EMPTY''
      else if \<exists>w \<in> set weights. \<not> is_finite_num w \<or> js_neg w then throw ''ALLOCATION_WEIGHT_INVALID''
      else let total = foldl js_add (Fin 0) weights in
        if js_nonpos total then throw ''ALLOCATION_WEIGHTS_SUM_ZERO''
        else and_then (scaled_weight total) (\<lambda>sumW.
             and_then (traverse scaled_weight weights) (\<lambda>scaled.
               if sumW = 0 then Inl RangeError
               else Inr (map (\<lambda>a. mk_money a (m_currency m)) (split_scaled (m_amount m) sumW scaled)))))"

section \<open>Money arithmetic\<close>

text \<open>The class invariant: the constructor is private and no operation builds a negative amount.\<close>

definition money_ok :: "money \<Rightarrow> bool" where
  "money_ok m \<longleftrightarrow> 0 \<le> m_amount m"

lemma money_ok_mk [simp]: "money_ok (mk_money a c) \<longleftrightarrow> 0 \<le> a"
  by (simp add: money_ok_def)

lemma isPositive_mk [simp]: "isPositive (mk_money a c) \<longleftrightarrow> 0 < a"
  by (simp add: isPositive_def)

lemma isZero_mk [simp]: "isZero (mk_money a c) \<longleftrightarrow> a = 0"
  by (simp add: isZero_def)

lemma zero_money_simps [simp]: "m_amount (zero_money c) = 0" "m_currency (zero_money c) = c"
  by (simp_all add: zero_money_def)

lemma money_eq_iff: "(a::money) = b \<longleftrightarrow> m_amount a = m_amount b \<and> m_currency a = m_currency b"
  by (cases a; cases b) auto

lemma assertSame_Inr [money_simps]: "assertSame a b = Inr u \<longleftrightarrow> m_currency a = m_currency b"
  by (simp add: assertSame_def)

lemma assertSame_same [money_simps]: "m_currency a = m_currency b \<Longrightarrow> assertSame a b = Inr ()"
  by (simp add: assertSame_def)

lemma add_money_Inr [money_simps]:
  "add_money a b = Inr c \<longleftrightarrow>
     m_currency a = m_currency b \<and> c = mk_money (m_amount a + m_amount b) (m_currency a)"
  by (auto simp: add_money_def result_simps money_simps)

lemma add_money_same [money_simps]:
  "m_currency a = m_currency b \<Longrightarrow> add_money a b = Inr (mk_money (m_amount a + m_amount b) (m_currency a))"
  by (simp add: add_money_Inr)

lemma subtract_money_Inr [money_simps]:
  "subtract_money a b = Inr c \<longleftrightarrow>
     m_currency a = m_currency b \<and> m_amount b \<le> m_amount a \<and>
     c = mk_money (m_amount a - m_amount b) (m_currency a)"
  by (auto simp: subtract_money_def result_simps money_simps)

lemma subtract_money_same [money_simps]:
  "m_currency a = m_currency b \<Longrightarrow> m_amount b \<le> m_amount a \<Longrightarrow>
     subtract_money a b = Inr (mk_money (m_amount a - m_amount b) (m_currency a))"
  by (simp add: subtract_money_Inr)

lemma compareTo_Inr [money_simps]:
  "compareTo a b = Inr c \<longleftrightarrow> m_currency a = m_currency b \<and>
     c = (if m_amount a = m_amount b then 0 else if m_amount a > m_amount b then 1 else - 1)"
  by (auto simp: compareTo_def result_simps money_simps)

lemma compareTo_same [money_simps]:
  "m_currency a = m_currency b \<Longrightarrow> compareTo a b =
     Inr (if m_amount a = m_amount b then 0 else if m_amount a > m_amount b then 1 else - 1)"
  by (simp add: compareTo_Inr)

lemma equals_money_Inr [money_simps]:
  "equals_money a b = Inr e \<longleftrightarrow> m_currency a = m_currency b \<and> e = (a = b)"
  by (auto simp: equals_money_def result_simps money_simps money_eq_iff)

lemma equals_money_same [money_simps]:
  "m_currency a = m_currency b \<Longrightarrow> equals_money a b = Inr (a = b)"
  by (simp add: equals_money_Inr)

lemma ofMinorB_Inr [money_simps]: "ofMinorB a c = Inr m \<longleftrightarrow> 0 \<le> a \<and> m = mk_money a c"
  by (auto simp: ofMinor_def result_simps)

lemma ofMinorB_nonneg [money_simps]: "0 \<le> a \<Longrightarrow> ofMinorB a c = Inr (mk_money a c)"
  by (simp add: ofMinor_def)

text \<open>Summing a list of same-currency amounts, as the lanes do with \<open>reduce\<close> and \<open>add\<close>.\<close>

lemma reduce_add_money:
  assumes "\<forall>x \<in> set xs. m_currency (f x) = m_currency acc"
  shows "reduce (\<lambda>a x. add_money a (f x)) acc xs =
    Inr (mk_money (m_amount acc + sum_list (map (\<lambda>x. m_amount (f x)) xs)) (m_currency acc))"
  using assms
proof (induction xs arbitrary: acc)
  case Nil
  then show ?case by simp
next
  case (Cons x xs)
  then have "add_money acc (f x) = Inr (mk_money (m_amount acc + m_amount (f x)) (m_currency acc))"
    by (simp add: add_money_same)
  with Cons show ?case by (simp add: add.assoc)
qed

section \<open>The split conserves the amount\<close>

lemma raw_slots_length [simp]: "length (raw_slots a s ws) = length ws"
  by (simp add: raw_slots_def)

lemma raw_slots_nth:
  "i < length ws \<Longrightarrow> raw_slots a s ws ! i =
     \<lparr>s_index = i, s_base = bdiv (a * ws ! i) s, s_rem = bmod (a * ws ! i) s\<rparr>"
  by (simp add: raw_slots_def nth_enumerate_eq)

lemma raw_slots_index [simp]: "map s_index (raw_slots a s ws) = [0..<length ws]"
  by (rule nth_equalityI) (simp_all add: raw_slots_nth)

lemma slot_order_index: "mset (map s_index (slot_order raw)) = mset (map s_index raw)"
  by (simp add: slot_order_def)

lemma bumped_card:
  assumes "distinct (map s_index raw)" and "0 \<le> amount - sum_list (map s_base raw)"
    and "amount - sum_list (map s_base raw) \<le> int (length raw)"
  shows "int (card (bumped_slots amount raw)) = amount - sum_list (map s_base raw)"
proof -
  let ?k = "nat (amount - sum_list (map s_base raw))"
  have d: "distinct (map s_index (slot_order raw))"
    using assms(1) mset_eq_imp_distinct_iff[OF slot_order_index] by blast
  have len: "length (slot_order raw) = length raw" by (simp add: slot_order_def)
  have "bumped_slots amount raw = set (take ?k (map s_index (slot_order raw)))"
    by (simp add: bumped_slots_def Let_def take_map)
  also have "card \<dots> = min (length raw) ?k"
    using d len by (simp add: distinct_card)
  finally show ?thesis using assms(2,3) by simp
qed

lemma bumped_subset: "bumped_slots amount raw \<subseteq> set (map s_index raw)"
proof -
  have "bumped_slots amount raw \<subseteq> set (map s_index (slot_order raw))"
    by (auto simp: bumped_slots_def Let_def dest: in_set_takeD)
  then show ?thesis by (simp only: mset_eq_setD[OF slot_order_index])
qed

lemma sum_bumped:
  assumes "distinct (map s_index raw)"
  shows "sum_list (map (\<lambda>r. if s_index r \<in> B then s_base r + 1 else s_base r) raw) =
    sum_list (map s_base raw) + int (card (B \<inter> set (map s_index raw)))"
  using assms
proof (induction raw)
  case (Cons r raw)
  then have "card (B \<inter> insert (s_index r) (s_index ` set raw)) =
    (if s_index r \<in> B then 1 else 0) + card (B \<inter> s_index ` set raw)"
    by (auto simp: Int_insert_right)
  with Cons show ?case by simp
qed simp

lemma split_scaled_sum:
  assumes "0 \<le> leftover" and "leftover \<le> int (length scaled)"
    and "leftover = amount - sum_list (map s_base (raw_slots amount sumW scaled))"
  shows "sum_list (split_scaled amount sumW scaled) = amount"
proof -
  let ?raw = "raw_slots amount sumW scaled"
  have d: "distinct (map s_index ?raw)" by simp
  have "sum_list (split_scaled amount sumW scaled) =
    sum_list (map s_base ?raw) + int (card (bumped_slots amount ?raw))"
    using sum_bumped[OF d, of "bumped_slots amount ?raw"] bumped_subset[of amount ?raw]
    by (simp add: split_scaled_def Let_def Int_absorb2)
  also have "int (card (bumped_slots amount ?raw)) = leftover"
    using bumped_card[OF d, of amount] assms by simp
  finally show ?thesis using assms(3) by simp
qed

text \<open>
  The floor shares of weights \<open>scaled\<close> out of \<open>sumW\<close> add up to the amount less at most
  one unit per entry, even when \<open>sumW\<close> is only close to the sum of the weights.
\<close>

lemma sum_floor_shares:
  fixes amount sumW :: int
  assumes "0 < sumW"
  shows "sum_list (map (\<lambda>s. amount * s div sumW) scaled) * sumW \<le> amount * sum_list scaled"
    and "amount * sum_list scaled \<le>
      sum_list (map (\<lambda>s. amount * s div sumW) scaled) * sumW + int (length scaled) * (sumW - 1)"
proof (induction scaled)
  case (Cons s scaled)
  define q r where "q = amount * s div sumW" and "r = amount * s mod sumW"
  have m: "amount * s = q * sumW + r" by (simp add: q_def r_def)
  have b: "0 \<le> r" "r \<le> sumW - 1"
    using assms pos_mod_bound[OF assms, of "amount * s"] by (simp_all add: r_def)
  case 1
  from Cons(1) m b show ?case by (simp add: distrib_left distrib_right flip: q_def)
  case 2
  from Cons(2) m b show ?case by (simp add: distrib_left distrib_right flip: q_def)
qed simp_all

lemma raw_slots_base_sum:
  assumes "0 \<le> amount" and "0 < sumW" and "\<forall>s \<in> set scaled. 0 \<le> s"
  shows "sum_list (map s_base (raw_slots amount sumW scaled)) =
    sum_list (map (\<lambda>s. amount * s div sumW) scaled)"
proof -
  have "map s_base (raw_slots amount sumW scaled) = map (\<lambda>s. amount * s div sumW) scaled"
    by (rule nth_equalityI) (use assms in \<open>auto simp: raw_slots_nth\<close>)
  then show ?thesis by simp
qed

lemma leftover_bounds:
  assumes "0 \<le> amount" and "0 < sumW" and "\<forall>s \<in> set scaled. 0 \<le> s"
    and drift: "amount * \<bar>sum_list scaled - sumW\<bar> < sumW"
  shows "0 \<le> amount - sum_list (map s_base (raw_slots amount sumW scaled))"
    and "amount - sum_list (map s_base (raw_slots amount sumW scaled)) \<le> int (length scaled)"
proof -
  let ?B = "sum_list (map (\<lambda>s. amount * s div sumW) scaled)"
  have d: "amount * (sum_list scaled - sumW) < sumW" "amount * (sumW - sum_list scaled) < sumW"
    using drift assms(1) mult_left_mono[OF abs_ge_self, of amount "sum_list scaled - sumW"]
      mult_left_mono[OF abs_ge_minus_self, of amount "sum_list scaled - sumW"] by simp_all
  have "?B * sumW < (amount + 1) * sumW"
    using sum_floor_shares(1)[OF assms(2), of amount scaled] d(1) by (simp add: algebra_simps)
  then have "?B < amount + 1" using assms(2) mult_less_cancel_right_pos by blast
  then show "0 \<le> amount - sum_list (map s_base (raw_slots amount sumW scaled))"
    using raw_slots_base_sum[OF assms(1-3)] by simp
  have "amount * sumW < (?B + int (length scaled) + 1) * sumW"
    using sum_floor_shares(2)[OF assms(2), of amount scaled] d(2) by (simp add: algebra_simps)
  then have "amount < ?B + int (length scaled) + 1"
    using assms(2) mult_less_cancel_right_pos by blast
  then show "amount - sum_list (map s_base (raw_slots amount sumW scaled)) \<le> int (length scaled)"
    using raw_slots_base_sum[OF assms(1-3)] by simp
qed

lemma split_scaled_length [simp]: "length (split_scaled a s ws) = length ws"
  by (simp add: split_scaled_def Let_def)

lemma split_scaled_nth:
  assumes "0 \<le> amount" and "0 < sumW" and "\<forall>s \<in> set scaled. 0 \<le> s" and "i < length scaled"
  shows "split_scaled amount sumW scaled ! i = amount * scaled ! i div sumW \<or>
    split_scaled amount sumW scaled ! i = amount * scaled ! i div sumW + 1"
  using assms by (auto simp: split_scaled_def Let_def raw_slots_nth)

lemma split_scaled_nonneg:
  assumes "0 \<le> amount" and "0 < sumW" and "\<forall>s \<in> set scaled. 0 \<le> s" and "a \<in> set (split_scaled amount sumW scaled)"
  shows "0 \<le> a"
proof -
  from assms(4) obtain i where i: "i < length scaled" "a = split_scaled amount sumW scaled ! i"
    by (auto simp: in_set_conv_nth)
  have "0 \<le> amount * scaled ! i div sumW"
    using assms i by (simp add: pos_imp_zdiv_nonneg_iff)
  then show ?thesis using split_scaled_nth[OF assms(1-3) i(1)] i(2) by linarith
qed

section \<open>Splitting by integer weights\<close>

text \<open>
  Every caller in the domain core passes integer weights (balances in minor units, or ones).
  Scaling by \<open>1e9\<close> rounds in binary64; the relative error of each product is at most
  \<open>2 ^ -53\<close>, which is too small to disturb the split of an amount below \<open>2 ^ 52\<close>.
\<close>

abbreviation int_weights :: "int list \<Rightarrow> js_num list" where
  "int_weights ws \<equiv> map (\<lambda>w. Fin (of_int w)) ws"

lemma scaled_weight_int:
  assumes "0 \<le> w" and "w \<le> 2 ^ 53"
  obtains n where "scaled_weight (Fin (of_int w)) = Inr n" and "0 \<le> n"
    and "\<bar>n - w * 1000000000\<bar> * 2 ^ 53 \<le> w * 1000000000"
proof -
  have "w * 1000000000 \<le> 2 ^ 53 * 2 ^ 947" using assms by (intro mult_mono) simp_all
  then have "w * 1000000000 \<le> 2 ^ 1000" by simp
  from js_scale_int_error[OF assms(1) _ this] obtain n where
    "math_round (js_scale (Fin (of_int w)) (of_int 1000000000)) = Fin (of_int n)"
    "bigint_of (Fin (of_int n)) = Inr n" "0 \<le> n" "\<bar>n - w * 1000000000\<bar> * 2 ^ 53 \<le> w * 1000000000"
    by auto
  then show ?thesis by (intro that[of n]) (simp_all add: scaled_weight_def scale_factor_def)
qed

lemma foldl_js_add_int:
  assumes "\<forall>w \<in> set ws. 0 \<le> w" and "0 \<le> a" and "a + sum_list ws \<le> 2 ^ 53"
  shows "foldl js_add (Fin (of_int a)) (int_weights ws) = Fin (of_int (a + sum_list ws))"
  using assms
proof (induction ws arbitrary: a)
  case (Cons w ws)
  have "0 \<le> sum_list ws" using Cons.prems(1) by (auto intro!: sum_list_nonneg)
  with Cons.prems have "js_add (Fin (of_int a)) (Fin (of_int w)) = Fin (of_int (a + w))"
    by (intro js_add_int) simp
  with Cons show ?case by (simp del: js_add.simps of_int_add add: add.assoc)
qed simp

lemma abs_error_add:
  fixes a b x y :: int
  assumes "\<bar>a - x\<bar> * 2 ^ 53 \<le> x" and "\<bar>b - y\<bar> * 2 ^ 53 \<le> y"
  shows "\<bar>(a + b) - (x + y)\<bar> * 2 ^ 53 \<le> x + y"
proof -
  have "\<bar>(a + b) - (x + y)\<bar> \<le> \<bar>a - x\<bar> + \<bar>b - y\<bar>" by linarith
  then have "\<bar>(a + b) - (x + y)\<bar> * 2 ^ 53 \<le> (\<bar>a - x\<bar> + \<bar>b - y\<bar>) * 2 ^ 53"
    by (rule mult_right_mono) simp
  with assms show ?thesis by (simp only: distrib_right)
qed

text \<open>The scaled weights, with the distance of their sum from the scaled total.\<close>

lemma scaled_weights_int:
  assumes "\<forall>w \<in> set ws. 0 \<le> w \<and> w \<le> 2 ^ 53"
  obtains scaled where "traverse scaled_weight (int_weights ws) = Inr scaled"
    and "length scaled = length ws" and "\<forall>s \<in> set scaled. 0 \<le> s"
    and "\<forall>i < length ws. \<bar>scaled ! i - ws ! i * 1000000000\<bar> * 2 ^ 53 \<le> ws ! i * 1000000000"
    and "\<bar>sum_list scaled - sum_list ws * 1000000000\<bar> * 2 ^ 53 \<le> sum_list ws * 1000000000"
proof -
  have "\<exists>scaled. traverse scaled_weight (int_weights ws) = Inr scaled \<and> length scaled = length ws \<and>
    (\<forall>s \<in> set scaled. 0 \<le> s) \<and>
    (\<forall>i < length ws. \<bar>scaled ! i - ws ! i * 1000000000\<bar> * 2 ^ 53 \<le> ws ! i * 1000000000) \<and>
    \<bar>sum_list scaled - sum_list ws * 1000000000\<bar> * 2 ^ 53 \<le> sum_list ws * 1000000000"
    using assms
  proof (induction ws)
    case (Cons w ws)
    then obtain sc where sc: "traverse scaled_weight (int_weights ws) = Inr sc" "length sc = length ws"
      "\<forall>s \<in> set sc. 0 \<le> s"
      "\<forall>i < length ws. \<bar>sc ! i - ws ! i * 1000000000\<bar> * 2 ^ 53 \<le> ws ! i * 1000000000"
      "\<bar>sum_list sc - sum_list ws * 1000000000\<bar> * 2 ^ 53 \<le> sum_list ws * 1000000000" by auto
    from Cons.prems scaled_weight_int[of w] obtain n where n: "scaled_weight (Fin (of_int w)) = Inr n"
      "0 \<le> n" "\<bar>n - w * 1000000000\<bar> * 2 ^ 53 \<le> w * 1000000000" by auto
    from abs_error_add[OF n(3) sc(5)]
    have "\<bar>(n + sum_list sc) - (w + sum_list ws) * 1000000000\<bar> * 2 ^ 53 \<le> (w + sum_list ws) * 1000000000"
      by (simp only: distrib_right)
    then show ?case using sc n
      by (intro exI[of _ "n # sc"]) (auto simp: nth_Cons split: nat.split)
  qed simp
  then show ?thesis using that by blast
qed

lemma drift_bound:
  fixes A S T X :: int
  assumes "\<bar>T - X\<bar> * 2 ^ 53 \<le> X" and "\<bar>S - X\<bar> * 2 ^ 53 \<le> X" and "0 < X" and "0 \<le> A" and "A < 2 ^ 52"
  shows "0 < S" and "A * \<bar>T - S\<bar> < S"
proof -
  have s: "X * (2 ^ 53 - 1) \<le> S * 2 ^ 53" using assms(2) by (auto simp: abs_if split: if_splits)
  moreover have "0 < X * (2 ^ 53 - 1)" using assms(3) by simp
  ultimately show "0 < S" by simp
  have "\<bar>T - S\<bar> * 2 ^ 53 \<le> 2 * X" using assms(1,2) by (auto simp: abs_if split: if_splits)
  then have "A * (\<bar>T - S\<bar> * 2 ^ 53) \<le> A * (2 * X)" using assms(4) by (rule mult_left_mono)
  also have "\<dots> = (2 * A) * X" by simp
  also have "\<dots> \<le> (2 ^ 53 - 2) * X" using assms(3,5) by (intro mult_right_mono) simp_all
  also have "\<dots> < X * (2 ^ 53 - 1)" using assms(3) by (simp add: algebra_simps)
  also note s
  finally have "(A * \<bar>T - S\<bar>) * 2 ^ 53 < S * 2 ^ 53" by (simp only: mult.assoc)
  then show "A * \<bar>T - S\<bar> < S" by (rule mult_right_less_imp_less) simp
qed

lemma allocate_int:
  assumes "\<forall>w \<in> set ws. 0 \<le> w" and "0 < sum_list ws" and "sum_list ws \<le> 2 ^ 53"
    and "0 \<le> m_amount m" and "m_amount m < 2 ^ 52"
  obtains S scaled where
    "allocate m (int_weights ws) =
       Inr (map (\<lambda>a. mk_money a (m_currency m)) (split_scaled (m_amount m) S scaled))"
    and "length scaled = length ws" and "\<forall>s \<in> set scaled. 0 \<le> s" and "0 < S"
    and "\<bar>S - sum_list ws * 1000000000\<bar> * 2 ^ 53 \<le> sum_list ws * 1000000000"
    and "\<forall>i < length ws. \<bar>scaled ! i - ws ! i * 1000000000\<bar> * 2 ^ 53 \<le> ws ! i * 1000000000"
    and "m_amount m * \<bar>sum_list scaled - S\<bar> < S"
proof -
  have le: "w \<le> sum_list ws" if "w \<in> set ws" for w
    using member_le_sum_list_int[of w ws "\<lambda>x. x"] that assms(1) by simp
  have "0 \<le> w \<and> w \<le> 2 ^ 53" if "w \<in> set ws" for w
    using assms(1) that order_trans[OF le[OF that] assms(3)] by simp
  then have "\<forall>w \<in> set ws. 0 \<le> w \<and> w \<le> 2 ^ 53" by (rule ballI)
  from scaled_weights_int[OF this] obtain scaled where
    sc: "traverse scaled_weight (int_weights ws) = Inr scaled" "length scaled = length ws"
      "\<forall>s \<in> set scaled. 0 \<le> s"
      "\<forall>i < length ws. \<bar>scaled ! i - ws ! i * 1000000000\<bar> * 2 ^ 53 \<le> ws ! i * 1000000000"
      "\<bar>sum_list scaled - sum_list ws * 1000000000\<bar> * 2 ^ 53 \<le> sum_list ws * 1000000000" .
  from scaled_weight_int[OF order.strict_implies_order[OF assms(2)] assms(3)] obtain S where
    S: "scaled_weight (Fin (of_int (sum_list ws))) = Inr S" and "0 \<le> S"
    and S': "\<bar>S - sum_list ws * 1000000000\<bar> * 2 ^ 53 \<le> sum_list ws * 1000000000" .
  have X: "0 < sum_list ws * 1000000000" using assms(2) by simp
  note drift = drift_bound[OF sc(5) S' X assms(4,5)]
  have tot: "foldl js_add (Fin 0) (int_weights ws) = Fin (of_int (sum_list ws))"
    using foldl_js_add_int[of ws 0] assms by simp
  have ne: "ws \<noteq> []" using assms(2) by auto
  have guard: "\<not> (\<exists>w \<in> set (int_weights ws). \<not> is_finite_num w \<or> js_neg w)"
    using assms(1) by (auto simp: not_less)
  have "\<not> js_nonpos (Fin (of_int (sum_list ws)))" using assms(2) by simp
  then have "allocate m (int_weights ws) =
    Inr (map (\<lambda>a. mk_money a (m_currency m)) (split_scaled (m_amount m) S scaled))"
    using ne guard drift(1) by (simp add: allocate_def Let_def tot S sc(1) del: js_nonpos.simps bex_simps)
  from that[OF this sc(2,3) drift(1) S' sc(4) drift(2)] show ?thesis .
qed

text \<open>
  C1. Money conservation: splitting an amount below \<open>2 ^ 52\<close> minor units by non-negative
  integer weights with a positive sum of at most \<open>2 ^ 53\<close> always succeeds, with one part
  per weight, every part a non-negative amount of the same currency, and the parts adding up
  to the amount exactly, although the weights are scaled in binary64 arithmetic.
\<close>

theorem allocate_conserves:
  assumes "0 \<le> m_amount m" and "m_amount m < 2 ^ 52"
    and "\<forall>w \<in> set ws. 0 \<le> w" and "0 < sum_list ws" and "sum_list ws \<le> 2 ^ 53"
  shows "\<exists>parts. allocate m (int_weights ws) = Inr parts \<and> length parts = length ws \<and>
    sum_list (map m_amount parts) = m_amount m \<and>
    (\<forall>p \<in> set parts. money_ok p \<and> m_currency p = m_currency m)"
proof -
  from allocate_int[OF assms(3-5,1,2)] obtain S scaled where
    al: "allocate m (int_weights ws) =
       Inr (map (\<lambda>a. mk_money a (m_currency m)) (split_scaled (m_amount m) S scaled))"
    and sc: "length scaled = length ws" "\<forall>s \<in> set scaled. 0 \<le> s" "0 < S"
    and d: "m_amount m * \<bar>sum_list scaled - S\<bar> < S" .
  note b = leftover_bounds[OF assms(1) sc(3,2) d]
  have "sum_list (split_scaled (m_amount m) S scaled) = m_amount m"
    by (rule split_scaled_sum[OF b refl])
  then show ?thesis
    using al sc split_scaled_nonneg[OF assms(1) sc(3,2)] by (auto simp: o_def)
qed

theorem allocate_conserves_witness:
  "\<exists>parts. allocate (mk_money 1000 KES) (int_weights [1, 1, 1]) = Inr parts \<and> length parts = length [1, 1, 1 :: int] \<and>
    sum_list (map m_amount parts) = 1000 \<and> (\<forall>p \<in> set parts. money_ok p \<and> m_currency p = KES)"
  using allocate_conserves[of "mk_money 1000 KES" "[1, 1, 1]"] by simp

text \<open>
  The cap pro-rata allocation relies on: an amount smaller than the sum of the (positive)
  weights gives every part at most its weight.
\<close>

lemma share_below_weight:
  fixes A S W s w :: int
  assumes "\<bar>S - W * 1000000000\<bar> * 2 ^ 53 \<le> W * 1000000000"
    and "\<bar>s - w * 1000000000\<bar> * 2 ^ 53 \<le> w * 1000000000"
    and "0 \<le> A" and "A < W" and "W \<le> 2 ^ 52" and "0 < w"
  shows "A * s < w * S"
proof -
  have ac: "a * (b * c * d) = b * c * (a * d)" for a b c d :: int by (simp add: mult_ac)
  have s: "s * 2 ^ 53 \<le> w * 1000000000 * (2 ^ 53 + 1)"
    using assms(2) by (auto simp: abs_if split: if_splits)
  have S: "W * 1000000000 * (2 ^ 53 - 1) \<le> S * 2 ^ 53"
    using assms(1) by (auto simp: abs_if split: if_splits)
  have AW: "A * (2 ^ 53 + 1) < W * (2 ^ 53 - 1)" using assms(4,5) by simp
  have "A * (s * 2 ^ 53) \<le> A * (w * 1000000000 * (2 ^ 53 + 1))" using s assms(3) by (rule mult_left_mono)
  also have "\<dots> = w * 1000000000 * (A * (2 ^ 53 + 1))" by (rule ac)
  also have "\<dots> < w * 1000000000 * (W * (2 ^ 53 - 1))"
    using AW assms(6) by (intro mult_strict_left_mono) simp_all
  also have "\<dots> = w * (W * 1000000000 * (2 ^ 53 - 1))" by simp
  also have "\<dots> \<le> w * (S * 2 ^ 53)" using S assms(6) by (intro mult_left_mono) simp_all
  finally have "(A * s) * 2 ^ 53 < (w * S) * 2 ^ 53" by (simp only: mult.assoc)
  then show ?thesis by (rule mult_right_less_imp_less) simp
qed

lemma allocate_capped:
  assumes "0 \<le> m_amount m" and "m_amount m < sum_list ws"
    and "\<forall>w \<in> set ws. 0 < w" and "sum_list ws \<le> 2 ^ 52"
  obtains parts where "allocate m (int_weights ws) = Inr (map (\<lambda>a. mk_money a (m_currency m)) parts)"
    and "length parts = length ws" and "sum_list parts = m_amount m"
    and "\<forall>a \<in> set parts. 0 \<le> a" and "\<forall>i < length ws. parts ! i \<le> ws ! i"
proof -
  have w0: "\<forall>w \<in> set ws. 0 \<le> w" using assms(3) by (simp add: order.strict_implies_order)
  have w1: "0 < sum_list ws" "sum_list ws \<le> 2 ^ 53" "m_amount m < 2 ^ 52"
    using assms(1,2,4) by simp_all
  from allocate_int[OF w0 w1(1,2) assms(1) w1(3)] obtain S scaled where
    al: "allocate m (int_weights ws) =
       Inr (map (\<lambda>a. mk_money a (m_currency m)) (split_scaled (m_amount m) S scaled))"
    and sc: "length scaled = length ws" "\<forall>s \<in> set scaled. 0 \<le> s" "0 < S"
    and S: "\<bar>S - sum_list ws * 1000000000\<bar> * 2 ^ 53 \<le> sum_list ws * 1000000000"
    and s: "\<forall>i < length ws. \<bar>scaled ! i - ws ! i * 1000000000\<bar> * 2 ^ 53 \<le> ws ! i * 1000000000"
    and d: "m_amount m * \<bar>sum_list scaled - S\<bar> < S" .
  note b = leftover_bounds[OF assms(1) sc(3,2) d]
  have cap: "split_scaled (m_amount m) S scaled ! i \<le> ws ! i" if i: "i < length ws" for i
  proof -
    have "\<bar>scaled ! i - ws ! i * 1000000000\<bar> * 2 ^ 53 \<le> ws ! i * 1000000000" "0 < ws ! i"
      using s i assms(3) by simp_all
    then have "m_amount m * scaled ! i < ws ! i * S"
      by (rule share_below_weight[OF S _ assms(1,2,4)])
    then have "m_amount m * scaled ! i div S < ws ! i"
      by (rule int_div_less[OF sc(3)])
    then show ?thesis
      using split_scaled_nth[OF assms(1) sc(3,2), of i] i sc(1) by auto
  qed
  show ?thesis
  proof (rule that[OF al])
    show "length (split_scaled (m_amount m) S scaled) = length ws" using sc(1) by simp
    show "sum_list (split_scaled (m_amount m) S scaled) = m_amount m"
      by (rule split_scaled_sum[OF b refl])
  qed (use cap split_scaled_nonneg[OF assms(1) sc(3,2)] in blast)+
qed

section \<open>Weights too small to scale\<close>

lemma tiny_weight_steps:
  "js_add (Fin 0) (Fin (1 / 2 ^ 31)) = Fin (1 / 2 ^ 31)"
  "js_add (Fin (1 / 2 ^ 31)) (Fin (1 / 2 ^ 31)) = Fin (1 / 2 ^ 30)"
  "scaled_weight (Fin (1 / 2 ^ 30)) = Inr 1"
  "scaled_weight (Fin (1 / 2 ^ 31)) = Inr 0"
  using js_round_dyadic[of 1 31] js_round_dyadic[of 1 30] js_round_dyadic[of 1000000000 30]
    js_round_dyadic[of 1000000000 31]
  by (simp_all add: scaled_weight_def scale_factor_def floor_eq_iff)

text \<open>
  The conservation guarantee needs weights that survive the scaling by \<open>1e9\<close>: with the
  finite, positive weights \<open>[2 ^ -31, 2 ^ -31]\<close> the split of 100 minor units returns two
  parts of 1, and 98 units are lost.
\<close>

lemma allocate_tiny_weights_lose_money:
  "allocate (mk_money 100 KES) [Fin (1 / 2 ^ 31), Fin (1 / 2 ^ 31)] = Inr [mk_money 1 KES, mk_money 1 KES]"
proof -
  have s: "split_scaled 100 1 [0, 0] = [1, 1]" by code_simp
  have t: "traverse scaled_weight [Fin (1 / 2 ^ 31), Fin (1 / 2 ^ 31)] = Inr [0, 0]"
    by (simp only: traverse.simps tiny_weight_steps and_then.simps)
  have g: "\<not> (\<exists>w \<in> set [Fin (1 / 2 ^ 31), Fin (1 / 2 ^ 31)]. \<not> is_finite_num w \<or> js_neg w)"
    "\<not> js_nonpos (Fin (1 / 2 ^ 30))" by simp_all
  show ?thesis
    by (simp only: allocate_def list.distinct if_False g foldl.simps tiny_weight_steps Let_def t and_then.simps)
      (simp add: s)
qed

section \<open>Printing and parsing\<close>

lemma whole_ok_nat_to_string: "whole_ok (nat_to_string n)"
proof (cases "n = 0")
  case True
  have "nat_to_string 0 = ''0''" by (subst nat_to_string.simps) (simp add: digit_char_numerals)
  with True show ?thesis by (simp add: whole_ok_def is_digit_def)
next
  case False
  then show ?thesis
    using nat_to_string_digits[of n] nat_to_string_hd[of n] by (simp add: whole_ok_def list_all_iff)
qed

lemma pad_cents:
  assumes "k < 100"
  shows "pad_start 2 (CHR ''0'') (nat_to_string k) = [digit_char (k div 10), digit_char (k mod 10)]"
proof (cases "k < 10")
  case True
  then show ?thesis
    by (subst nat_to_string.simps) (simp add: pad_start_def digit_char_numerals numeral_2_eq_2)
next
  case False
  then have "nat_to_string k = [digit_char (k div 10), digit_char (k mod 10)]"
    using assms by (subst nat_to_string.simps, subst nat_to_string.simps) simp
  then show ?thesis by (simp add: pad_start_def)
qed

lemma nat_of_two_digits:
  assumes "k < 100"
  shows "nat_of_digits [digit_char (k div 10), digit_char (k mod 10)] = k"
  using assms by (simp add: nat_of_digits_def)

lemma match_money_two:
  assumes "whole_ok w" and "is_digit a" and "is_digit b"
  shows "match_money (w @ ''.'' @ [a, b]) = Some (w, Some [a, b])"
proof -
  have nd: "\<forall>c \<in> set w. c \<noteq> CHR ''.''"
    using assms(1) by (auto simp: whole_ok_def list_all_iff is_digit_def)
  have "takeWhile (\<lambda>c. c \<noteq> CHR ''.'') (w @ ''.'' @ [a, b]) = w"
    "dropWhile (\<lambda>c. c \<noteq> CHR ''.'') (w @ ''.'' @ [a, b]) = ''.'' @ [a, b]"
    using nd by (simp_all add: takeWhile_append2 dropWhile_append2 takeWhile_eq_all_conv)
  then show ?thesis using assms by (simp add: match_money_def Let_def)
qed

lemma zero_cents: "nat_of_digits (if ds = ''00'' then ''0'' else ds) = nat_of_digits ds"
  by (simp add: nat_of_digits_def digit_val_def)

text \<open>The decimal part of \<open>toString\<close>, without the currency suffix.\<close>

lemma money_toString_decimal:
  assumes "money_ok m"
  shows "takeWhile (\<lambda>c. c \<noteq> CHR '' '') (money_toString m) =
    nat_to_string (nat (m_amount m) div 100) @ ''.'' @
      [digit_char (nat (m_amount m) mod 100 div 10), digit_char (nat (m_amount m) mod 100 mod 10)]"
proof -
  let ?n = "nat (m_amount m)"
  let ?d = "nat_to_string (?n div 100) @ ''.'' @ [digit_char (?n mod 100 div 10), digit_char (?n mod 100 mod 10)]"
  have nn: "0 \<le> m_amount m" using assms by (simp add: money_ok_def)
  have "\<not> m_amount m div 100 < 0" using nn by (simp add: neg_imp_zdiv_neg_iff pos_imp_zdiv_neg_iff)
  note nn = nn this
  have sp: "is_digit c \<Longrightarrow> c \<noteq> CHR '' ''" for c by (auto simp: is_digit_def)
  have "money_toString m = ?d @ '' '' @ currency_code (m_currency m)"
    using nn pad_cents[of "?n mod 100"] leD[OF pos_mod_sign[of 100 "m_amount m"]]
    by (simp add: money_toString_def int_to_string_def nat_div_distrib nat_mod_distrib)
  moreover have "\<forall>c \<in> set ?d. c \<noteq> CHR '' ''"
    using nat_to_string_digits[of "?n div 100"] by (auto intro!: sp simp del: digit_char_simps(2))
  ultimately show ?thesis by (simp add: takeWhile_append2 takeWhile_eq_all_conv)
qed

text \<open>
  C24. Round trip: for every amount the class can hold, the decimal part of \<open>toString\<close>
  parses back to the same money.
\<close>

theorem parse_toString:
  assumes "money_ok m"
  shows "parse_money (takeWhile (\<lambda>c. c \<noteq> CHR '' '') (money_toString m)) (m_currency m) = Inr m"
proof -
  let ?n = "nat (m_amount m)"
  let ?a = "digit_char (?n mod 100 div 10)" and ?b = "digit_char (?n mod 100 mod 10)"
  let ?d = "nat_to_string (?n div 100) @ ''.'' @ [?a, ?b]"
  have dig: "is_digit ?a" "is_digit ?b" by simp_all
  have "trim ?d = ?d"
    using nat_to_string_digits[of "?n div 100"] dig
    by (intro trim_no_space) (auto simp: is_digit_not_space is_js_space_def[of "CHR ''.''"]) 
  moreover have "match_money ?d = Some (nat_to_string (?n div 100), Some [?a, ?b])"
    by (rule match_money_two[OF whole_ok_nat_to_string dig])
  moreover have "nat_of_digits (if [?a, ?b] = ''00'' then ''0'' else [?a, ?b]) = ?n mod 100"
    by (simp only: zero_cents nat_of_two_digits[OF mod_less_divisor] zero_less_numeral)
  moreover have "0 \<le> m_amount m" using assms by (simp add: money_ok_def)
  moreover have "int (?n div 100) * 100 + int (?n mod 100) = int ?n"
    by (simp only: of_nat_div of_nat_mod of_nat_numeral div_mult_mod_eq)
  moreover have "pad_end 2 (CHR ''0'') [?a, ?b] = [?a, ?b]" by (simp add: pad_end_def)
  ultimately show ?thesis
    by (simp only: parse_money_def money_toString_decimal[OF assms] Let_def option.case prod.case
        nat_of_digits_to_string list.distinct if_False) (simp add: money_eq_iff)
qed

theorem parse_toString_witness:
  "parse_money ''1050.07'' KES = Inr (mk_money 105007 KES)"
  using parse_toString[of "mk_money 105007 KES"] 
  by (simp add: money_toString_def int_to_string_def pad_start_def nat_to_string.simps digit_char_numerals)

end
