(* ===== verification/Contracts.thy ===== *)
theory Contracts
  imports Prelude
begin

text \<open>
  The contracts several lanes share, as locales: a machine whose operations keep an
  invariant, a machine with absorbing states, a pool of funds that operations draw on, and a
  log that accepts a logical command once. Each lane interprets them on its own operations.
\<close>

section \<open>Driving a machine with a sequence of commands\<close>

text \<open>
  A command that throws leaves the aggregate as it was: the operations are pure functions
  returning new objects, so the caller still holds the old one.
\<close>

fun drive :: "('s \<Rightarrow> 'c \<Rightarrow> 'e + 's) \<Rightarrow> 's \<Rightarrow> 'c list \<Rightarrow> 's" where
  "drive step s [] = s"
| "drive step s (c # cs) = (case step s c of Inl e \<Rightarrow> drive step s cs | Inr s' \<Rightarrow> drive step s' cs)"

lemma drive_append: "drive step s (xs @ ys) = drive step (drive step s xs) ys"
  by (induction xs arbitrary: s) (simp_all split: sum.split)

text \<open>The commands of a sequence the machine accepted.\<close>

fun accepted :: "('s \<Rightarrow> 'c \<Rightarrow> 'e + 's) \<Rightarrow> 's \<Rightarrow> 'c list \<Rightarrow> 'c list" where
  "accepted step s [] = []"
| "accepted step s (c # cs) =
     (case step s c of Inl e \<Rightarrow> accepted step s cs | Inr s' \<Rightarrow> c # accepted step s' cs)"

text \<open>
  \<open>ok\<close> says that a command carries well-formed values (a \<open>Money\<close> argument is never
  negative, a \<open>Map\<close> has distinct keys), which its class or type guarantees in the source.
\<close>

locale guarded_machine =
  fixes step :: "'s \<Rightarrow> 'c \<Rightarrow> 'e + 's"
    and inv :: "'s \<Rightarrow> bool"
    and ok :: "'c \<Rightarrow> bool"
  assumes step_inv: "inv s \<Longrightarrow> ok c \<Longrightarrow> step s c = Inr s' \<Longrightarrow> inv s'"
begin

lemma drive_inv: "inv s \<Longrightarrow> \<forall>c \<in> set cs. ok c \<Longrightarrow> inv (drive step s cs)"
  by (induction cs arbitrary: s) (auto split: sum.split intro: step_inv)

end

text \<open>Once a terminal state is entered, every accepted command leaves the aggregate unchanged.\<close>

locale absorbing_machine =
  fixes step :: "'s \<Rightarrow> 'c \<Rightarrow> 'e + 's"
    and terminal :: "'s \<Rightarrow> bool"
  assumes step_terminal: "terminal s \<Longrightarrow> step s c = Inr s' \<Longrightarrow> s' = s"
begin

lemma drive_terminal: "terminal s \<Longrightarrow> drive step s cs = s"
  by (induction cs) (auto split: sum.split dest: step_terminal)

end

section \<open>A pool of funds\<close>

text \<open>
  Each accepted command takes a positive amount out of what is available, and what is
  available is never negative. The client's lemma is the ceiling: whatever the order of the
  commands, the amounts accepted add up to at most what was available at the start, and not
  a cent is lost.
\<close>

locale funds_pool = guarded_machine step inv ok
  for step :: "'s \<Rightarrow> 'c \<Rightarrow> 'e + 's" and inv :: "'s \<Rightarrow> bool" and ok :: "'c \<Rightarrow> bool" +
  fixes avail :: "'s \<Rightarrow> int"
    and amount_of :: "'c \<Rightarrow> int"
  assumes draw_avail: "inv s \<Longrightarrow> ok c \<Longrightarrow> step s c = Inr s' \<Longrightarrow> avail s' = avail s - amount_of c"
    and draw_positive: "inv s \<Longrightarrow> ok c \<Longrightarrow> step s c = Inr s' \<Longrightarrow> 0 < amount_of c"
    and avail_nonneg: "inv s \<Longrightarrow> 0 \<le> avail s"
begin

lemma drive_conserves:
  "inv s \<Longrightarrow> \<forall>c \<in> set cs. ok c \<Longrightarrow>
     avail (drive step s cs) + sum_list (map amount_of (accepted step s cs)) = avail s"
proof (induction cs arbitrary: s)
  case (Cons c cs)
  then have ok: "ok c" by simp
  show ?case
  proof (cases "step s c")
    case (Inr s')
    with Cons.prems ok have "inv s'" by (blast intro: step_inv)
    with Cons.IH[OF this] Cons.prems(2) Inr draw_avail[OF Cons.prems(1) ok Inr] show ?thesis by simp
  qed (use Cons in simp)
qed simp

lemma drive_ceiling:
  "inv s \<Longrightarrow> \<forall>c \<in> set cs. ok c \<Longrightarrow> sum_list (map amount_of (accepted step s cs)) \<le> avail s"
  using drive_conserves[of s cs] avail_nonneg[OF drive_inv, of s cs] by simp

end

section \<open>A log that accepts a logical command once\<close>

text \<open>
  \<open>submit known c\<close> answers a command against the rows already known: a fresh row
  (\<open>(r, False)\<close>) or one that was there (\<open>(r, True)\<close>). \<open>clash\<close> says that two rows
  stand for the same logical command.
\<close>

fun feed :: "('r list \<Rightarrow> 'c \<Rightarrow> 'e + 'r \<times> bool) \<Rightarrow> 'r list \<Rightarrow> 'c list \<Rightarrow> 'r list" where
  "feed submit known [] = known"
| "feed submit known (c # cs) =
     feed submit (case submit known c of Inr (r, False) \<Rightarrow> known @ [r] | _ \<Rightarrow> known) cs"

lemma feed_forall:
  assumes fresh: "\<And>known c r. submit known c = Inr (r, False) \<Longrightarrow> P r"
  shows "list_all P known \<Longrightarrow> list_all P (feed submit known cs)"
proof (induction cs arbitrary: known)
  case (Cons c cs)
  have "list_all P (case submit known c of Inr (r, False) \<Rightarrow> known @ [r] | _ \<Rightarrow> known)"
  proof (cases "submit known c")
    case (Inr a)
    obtain r dup where "a = (r, dup)" by (cases a)
    with Inr Cons.prems fresh[of known c r] show ?thesis by (cases dup) simp_all
  qed (use Cons.prems in simp)
  from Cons.IH[OF this] show ?case by simp
qed simp

locale idempotent_log =
  fixes submit :: "'r list \<Rightarrow> 'c \<Rightarrow> 'e + 'r \<times> bool"
    and clash :: "'r \<Rightarrow> 'r \<Rightarrow> bool"
  assumes submit_duplicate: "submit known c = Inr (r, True) \<Longrightarrow> r \<in> set known"
    and submit_fresh: "submit known c = Inr (r, False) \<Longrightarrow> x \<in> set known \<Longrightarrow> \<not> clash x r"
begin

lemma feed_step_clash_free:
  assumes "sorted_wrt (\<lambda>x y. \<not> clash x y) known"
  shows "sorted_wrt (\<lambda>x y. \<not> clash x y)
    (case submit known c of Inr (r, False) \<Rightarrow> known @ [r] | _ \<Rightarrow> known)"
  using assms
  by (auto split: sum.split prod.split bool.split simp: sorted_wrt_append dest: submit_fresh)

lemma feed_clash_free:
  "sorted_wrt (\<lambda>x y. \<not> clash x y) known \<Longrightarrow> sorted_wrt (\<lambda>x y. \<not> clash x y) (feed submit known cs)"
  by (induction cs arbitrary: known) (auto simp del: feed.simps(2) simp add: feed.simps(2)
      intro: feed_step_clash_free)

lemma feed_extends: "\<exists>rows. feed submit known cs = known @ rows"
proof (induction cs arbitrary: known)
  case (Cons c cs)
  have "\<exists>l. (case submit known c of Inr (r, False) \<Rightarrow> known @ [r] | _ \<Rightarrow> known) = known @ l"
    by (simp split: sum.split prod.split bool.split)
  then obtain l where
    "(case submit known c of Inr (r, False) \<Rightarrow> known @ [r] | _ \<Rightarrow> known) = known @ l" ..
  with Cons.IH[of "known @ l"] show ?case by auto
qed simp

end

end
