(* ===== verification/Allocation.thy ===== *)
theory Allocation
  imports Money Contracts
begin

text \<open>
  Allocation rows and the arithmetic on them (\<open>src/src/domain/allocation/allocation.ts\<close>): a
  row moves funds of one source to one receivable; a row counts while it is neither reversed
  nor a compensating row.
\<close>

section \<open>Data\<close>

datatype source_type = Payment_Source | Credit_Balance_Source

datatype strategy = Fifo | Explicit | Pro_Rata

fun source_type_code :: "source_type \<Rightarrow> string" where
  "source_type_code Payment_Source = ''payment''"
| "source_type_code Credit_Balance_Source = ''credit_balance''"

fun strategy_code :: "strategy \<Rightarrow> string" where
  "strategy_code Fifo = ''fifo''"
| "strategy_code Explicit = ''explicit''"
| "strategy_code Pro_Rata = ''pro_rata''"

record allocation =
  al_id :: uuid
  al_sourceType :: source_type
  al_sourceId :: uuid
  al_receivableId :: uuid
  al_amountMinor :: money
  al_strategy :: strategy
  al_sequenceNo :: int
  al_allocatedAt :: date
  al_reversedAt :: "date option"
  al_reversalOf :: "uuid option"

text \<open>\<open>balanceMinor: MoneyInput | Money\<close>\<close>

datatype balance_input = RawBalance money_input | MoneyBalance money

record allocatable =
  ar_receivableId :: uuid
  ar_currency :: currency
  ar_balanceMinor :: balance_input
  ar_dueDate :: "date option"

record allocation_source =
  as_sourceType :: source_type
  as_sourceId :: uuid
  as_currency :: currency
  as_available :: money

section \<open>Operations\<close>

text \<open>
  The \<open>instanceof Money\<close> guard of \<open>allocationOf\<close> is discharged by the type of \<open>amount\<close>.
\<close>

definition allocationOf ::
  "uuid \<Rightarrow> source_type \<Rightarrow> uuid \<Rightarrow> uuid \<Rightarrow> money \<Rightarrow> strategy \<Rightarrow> int \<Rightarrow> date \<Rightarrow> uuid option \<Rightarrow> allocation result" where
  "allocationOf rid sty sid receivableId amount strat sequenceNo allocatedAt reversalOf =
     (if \<not> isPositive amount then throw ''ALLOCATION_AMOUNT_NOT_POSITIVE''
      else if sequenceNo < 1 then throw ''ALLOCATION_SEQUENCE_INVALID''
      else Inr \<lparr>al_id = rid, al_sourceType = sty, al_sourceId = sid, al_receivableId = receivableId,
        al_amountMinor = amount, al_strategy = strat, al_sequenceNo = sequenceNo,
        al_allocatedAt = allocatedAt, al_reversedAt = None, al_reversalOf = reversalOf\<rparr>)"

definition alloc_balanceOf :: "allocatable \<Rightarrow> money result" where
  "alloc_balanceOf r = (case ar_balanceMinor r of
       MoneyBalance b \<Rightarrow> if m_currency b \<noteq> ar_currency r then throw ''CURRENCY_MISMATCH'' else Inr b
     | RawBalance x \<Rightarrow> ofMinor x (ar_currency r))"

definition isActive :: "allocation \<Rightarrow> bool" where
  "isActive row \<longleftrightarrow> al_reversedAt row = None \<and> al_reversalOf row = None"

definition activeAllocations :: "allocation list \<Rightarrow> allocation list" where
  "activeAllocations rows = filter isActive rows"

definition allocatedMinorTo :: "allocation list \<Rightarrow> uuid \<Rightarrow> int" where
  "allocatedMinorTo rows receivableId =
     foldl (\<lambda>sum row. sum + m_amount (al_amountMinor row)) 0
       (filter (\<lambda>row. al_receivableId row = receivableId) (activeAllocations rows))"

definition balanceAfter :: "allocatable \<Rightarrow> allocation list \<Rightarrow> money result" where
  "balanceAfter r rows = (let applied = allocatedMinorTo rows (ar_receivableId r) in
     and_then (alloc_balanceOf r) (\<lambda>balance.
       if applied > m_amount balance then throw ''BALANCE_OVER_ALLOCATED''
       else ofMinorB (m_amount balance - applied) (ar_currency r)))"

definition unappliedRemainder :: "money \<Rightarrow> allocation list \<Rightarrow> money result" where
  "unappliedRemainder available rows =
     (let allocated = foldl (\<lambda>sum row. sum + m_amount (al_amountMinor row)) 0 (activeAllocations rows) in
      if allocated > m_amount available then throw ''ALLOCATION_EXCEEDS_AVAILABLE''
      else ofMinorB (m_amount available - allocated) (m_currency available))"

definition validate_row :: "allocation \<Rightarrow> money \<Rightarrow> allocation \<Rightarrow> unit result" where
  "validate_row first available row =
     (if al_sourceType row \<noteq> al_sourceType first \<or> al_sourceId row \<noteq> al_sourceId first
      then throw ''ALLOCATION_SOURCE_MISMATCH''
      else if m_currency (al_amountMinor row) \<noteq> m_currency available then throw ''CURRENCY_MISMATCH''
      else if \<not> isPositive (al_amountMinor row) then throw ''ALLOCATION_AMOUNT_NOT_POSITIVE''
      else Inr ())"

definition validateAllocations :: "allocation list \<Rightarrow> money \<Rightarrow> unit result" where
  "validateAllocations rows available =
     and_then (traverse (validate_row (hd rows) available) rows) (\<lambda>_.
     and_then (unappliedRemainder available rows) (\<lambda>_. Inr ()))"

section \<open>The sum of the active rows\<close>

definition active_total :: "allocation list \<Rightarrow> int" where
  "active_total rows = sum_list (map (\<lambda>row. m_amount (al_amountMinor row)) (activeAllocations rows))"

lemma active_total_simps [simp]:
  "active_total [] = 0"
  "active_total (row # rows) = (if isActive row then m_amount (al_amountMinor row) else 0) + active_total rows"
  "active_total (rows @ rows') = active_total rows + active_total rows'"
  by (simp_all add: active_total_def activeAllocations_def)

lemma unappliedRemainder_eq:
  "unappliedRemainder available rows =
     (if active_total rows > m_amount available then throw ''ALLOCATION_EXCEEDS_AVAILABLE''
      else Inr (mk_money (m_amount available - active_total rows) (m_currency available)))"
  by (simp add: unappliedRemainder_def active_total_def foldl_plus_sum_list ofMinorB_nonneg)

lemma allocatedMinorTo_eq:
  "allocatedMinorTo rows rid =
     sum_list (map (\<lambda>row. if isActive row \<and> al_receivableId row = rid then m_amount (al_amountMinor row) else 0) rows)"
proof -
  have "allocatedMinorTo rows rid = sum_list (map (\<lambda>row. m_amount (al_amountMinor row))
    (filter (\<lambda>row. al_receivableId row = rid) (activeAllocations rows)))"
    by (simp add: allocatedMinorTo_def foldl_plus_sum_list)
  also have "\<dots> = sum_list (map (\<lambda>row. if isActive row \<and> al_receivableId row = rid then m_amount (al_amountMinor row) else 0) rows)"
    by (induction rows) (auto simp: activeAllocations_def)
  finally show ?thesis .
qed

lemma allocationOf_Inr:
  "allocationOf rid sty sid receivableId amount strat sequenceNo allocatedAt reversalOf = Inr row \<longleftrightarrow>
     isPositive amount \<and> 1 \<le> sequenceNo \<and>
     row = \<lparr>al_id = rid, al_sourceType = sty, al_sourceId = sid, al_receivableId = receivableId,
        al_amountMinor = amount, al_strategy = strat, al_sequenceNo = sequenceNo,
        al_allocatedAt = allocatedAt, al_reversedAt = None, al_reversalOf = reversalOf\<rparr>"
  by (auto simp: allocationOf_def)

lemma alloc_balanceOf_currency: "alloc_balanceOf r = Inr b \<Longrightarrow> m_currency b = ar_currency r"
  by (auto simp: alloc_balanceOf_def ofMinor_def result_simps split: balance_input.splits if_splits)

text \<open>A successful validation means one source, its currency, positive rows, and a total the source covers.\<close>

lemma validateAllocations_Inr:
  "validateAllocations rows available = Inr u \<longleftrightarrow>
     (\<forall>row \<in> set rows. al_sourceType row = al_sourceType (hd rows) \<and> al_sourceId row = al_sourceId (hd rows) \<and>
        m_currency (al_amountMinor row) = m_currency available \<and> isPositive (al_amountMinor row)) \<and>
     active_total rows \<le> m_amount available"
proof -
  have row: "validate_row f a r = Inr v \<longleftrightarrow> al_sourceType r = al_sourceType f \<and> al_sourceId r = al_sourceId f \<and>
     m_currency (al_amountMinor r) = m_currency a \<and> isPositive (al_amountMinor r)" for f a r v
    by (auto simp: validate_row_def)
  have "validateAllocations rows available = Inr u \<longleftrightarrow>
    (\<exists>us. traverse (validate_row (hd rows) available) rows = Inr us) \<and> active_total rows \<le> m_amount available"
    by (simp add: validateAllocations_def result_simps unappliedRemainder_eq not_less)
  then show ?thesis by (simp only: traverse_Inr_ex row) simp
qed

end
