(* ===== verification/Strategies.thy ===== *)
theory Strategies
  imports Allocation
begin

text \<open>
  The three allocation strategies (\<open>src/src/domain/allocation/strategies.ts\<close>): oldest due
  date first, an explicitly declared split, and pro rata to the outstanding balances. Each
  turns funds and a set of receivables into plan legs; \<open>legs_ok\<close> is the contract the
  engine relies on.
\<close>

section \<open>Data and guards\<close>

record strategy_plan =
  sp_receivableId :: uuid
  sp_amount :: money

definition assertSingleCurrency :: "money \<Rightarrow> allocatable list \<Rightarrow> unit result" where
  "assertSingleCurrency funds receivables =
     (if \<exists>r \<in> set receivables. ar_currency r \<noteq> m_currency funds then throw ''CURRENCY_MISMATCH'' else Inr ())"

definition assertNoDuplicates :: "allocatable list \<Rightarrow> unit result" where
  "assertNoDuplicates receivables =
     (if \<not> distinct (map ar_receivableId receivables) then throw ''ALLOCATION_DUPLICATE_RECEIVABLE'' else Inr ())"

definition strategy_guards :: "money \<Rightarrow> allocatable list \<Rightarrow> unit result" where
  "strategy_guards funds receivables =
     and_then (assertSingleCurrency funds receivables) (\<lambda>_. assertNoDuplicates receivables)"

section \<open>Oldest due date first\<close>

text \<open>The ordering key: the due time, undated receivables last (\<open>Number.POSITIVE_INFINITY\<close>).\<close>

datatype due = Dated int | Undated

instantiation due :: linorder
begin

fun less_eq_due :: "due \<Rightarrow> due \<Rightarrow> bool" where
  "less_eq_due (Dated a) (Dated b) = (a \<le> b)"
| "less_eq_due _ Undated = True"
| "less_eq_due Undated (Dated _) = False"

definition less_due :: "due \<Rightarrow> due \<Rightarrow> bool" where
  "less_due a b = (a \<le> b \<and> \<not> b \<le> (a :: due))"

instance
proof
  fix x y z :: due
  show "x < y \<longleftrightarrow> x \<le> y \<and> \<not> y \<le> x" by (rule less_due_def)
  show "x \<le> x" by (cases x) simp_all
  show "x \<le> y \<Longrightarrow> y \<le> z \<Longrightarrow> x \<le> z" by (cases x; cases y; cases z) simp_all
  show "x \<le> y \<Longrightarrow> y \<le> x \<Longrightarrow> x = y" by (cases x; cases y) simp_all
  show "x \<le> y \<or> y \<le> x" by (cases x; cases y) auto
qed

end

definition due_key :: "allocatable \<Rightarrow> due \<times> uuid" where
  "due_key r = (case ar_dueDate r of None \<Rightarrow> Undated | Some d \<Rightarrow> Dated d, ar_receivableId r)"

definition oldest_first :: "allocatable list \<Rightarrow> allocatable list" where
  "oldest_first receivables = sort_key due_key receivables"

fun fifo_take :: "currency \<Rightarrow> int \<Rightarrow> allocatable list \<Rightarrow> strategy_plan list result" where
  "fifo_take c remaining [] = Inr []"
| "fifo_take c remaining (r # rs) =
     (if remaining = 0 then Inr []
      else and_then (alloc_balanceOf r) (\<lambda>balance.
        if \<not> isPositive balance then fifo_take c remaining rs
        else let amt = (if m_amount balance < remaining then m_amount balance else remaining) in
          and_then (ofMinorB amt c) (\<lambda>amount.
          and_then (fifo_take c (remaining - amt) rs) (\<lambda>plans.
            Inr (\<lparr>sp_receivableId = ar_receivableId r, sp_amount = amount\<rparr> # plans)))))"

definition allocateOldestFirst :: "money \<Rightarrow> allocatable list \<Rightarrow> strategy_plan list result" where
  "allocateOldestFirst funds receivables =
     and_then (strategy_guards funds receivables) (\<lambda>_.
       fifo_take (m_currency funds) (m_amount funds) (oldest_first receivables))"

section \<open>A declared split\<close>

text \<open>The declaration is a \<open>Map\<close>: its entries in insertion order, with distinct keys.\<close>

type_synonym declared_split = "(uuid \<times> money) list"

definition explicit_entry ::
  "money \<Rightarrow> allocatable list \<Rightarrow> int \<Rightarrow> uuid \<times> money \<Rightarrow> int result" where
  "explicit_entry funds receivables declaredTotal entry = (case entry of (rid, amount) \<Rightarrow>
     (case find (\<lambda>r. ar_receivableId r = rid) receivables of
        None \<Rightarrow> throw ''ALLOCATION_UNKNOWN_RECEIVABLE''
      | Some receivable \<Rightarrow>
          if m_currency amount \<noteq> m_currency funds then throw ''CURRENCY_MISMATCH''
          else and_then (alloc_balanceOf receivable) (\<lambda>balance.
            if m_amount amount > m_amount balance then throw ''ALLOCATION_EXCEEDS_BALANCE''
            else Inr (declaredTotal + m_amount amount))))"

definition allocateExplicit :: "money \<Rightarrow> allocatable list \<Rightarrow> declared_split \<Rightarrow> strategy_plan list result" where
  "allocateExplicit funds receivables declared =
     and_then (strategy_guards funds receivables) (\<lambda>_.
     and_then (reduce (explicit_entry funds receivables) 0 declared) (\<lambda>declaredTotal.
       if declaredTotal > m_amount funds then throw ''ALLOCATION_EXCEEDS_AVAILABLE''
       else Inr (map (\<lambda>(rid, amount). \<lparr>sp_receivableId = rid, sp_amount = amount\<rparr>)
              (sort_key fst (filter (\<lambda>(_, amount). isPositive amount) declared)))))"

section \<open>Pro rata\<close>

definition with_balance :: "allocatable \<Rightarrow> (allocatable \<times> money) result" where
  "with_balance r = and_then (alloc_balanceOf r) (\<lambda>balance. Inr (r, balance))"

definition positive_balances :: "(allocatable \<times> money) list \<Rightarrow> (allocatable \<times> money) list" where
  "positive_balances rbs =
     sort_key (\<lambda>(r, _). ar_receivableId r) (filter (\<lambda>(_, balance). isPositive balance) rbs)"

definition pro_rata_legs ::
  "currency \<Rightarrow> (allocatable \<times> money) list \<Rightarrow> money list \<Rightarrow> strategy_plan list" where
  "pro_rata_legs c positive parts =
     filter (\<lambda>plan. isPositive (sp_amount plan))
       (map (\<lambda>(i, r, _). \<lparr>sp_receivableId = ar_receivableId r,
          sp_amount = (if i < length parts then parts ! i else zero_money c)\<rparr>)
         (enumerate 0 positive))"

definition allocateProRata :: "money \<Rightarrow> allocatable list \<Rightarrow> strategy_plan list result" where
  "allocateProRata funds receivables =
     and_then (strategy_guards funds receivables) (\<lambda>_.
     and_then (traverse with_balance receivables) (\<lambda>rbs.
       let positive = positive_balances rbs in
       if positive = [] then Inr []
       else let outstanding = foldl (\<lambda>sum (_, balance). sum + m_amount balance) 0 positive in
         if outstanding \<le> m_amount funds
         then Inr (map (\<lambda>(r, balance). \<lparr>sp_receivableId = ar_receivableId r, sp_amount = balance\<rparr>) positive)
         else and_then (allocate funds (map (\<lambda>(_, balance). number_of (m_amount balance)) positive)) (\<lambda>parts.
           Inr (pro_rata_legs (m_currency funds) positive parts))))"

section \<open>The contract of a plan\<close>

text \<open>
  Every leg goes to one receivable of the set and no receivable gets two, carries a positive
  amount in the currency of the funds that fits the outstanding balance, and the legs add up
  to at most the funds.
\<close>

definition legs_total :: "strategy_plan list \<Rightarrow> int" where
  "legs_total plans = sum_list (map (\<lambda>p. m_amount (sp_amount p)) plans)"

definition leg_fits :: "currency \<Rightarrow> allocatable list \<Rightarrow> strategy_plan \<Rightarrow> bool" where
  "leg_fits c receivables p \<longleftrightarrow> isPositive (sp_amount p) \<and> m_currency (sp_amount p) = c \<and>
     (\<exists>r \<in> set receivables. ar_receivableId r = sp_receivableId p \<and>
        (\<exists>b. alloc_balanceOf r = Inr b \<and> m_amount (sp_amount p) \<le> m_amount b))"

definition legs_ok :: "money \<Rightarrow> allocatable list \<Rightarrow> strategy_plan list \<Rightarrow> bool" where
  "legs_ok funds receivables plans \<longleftrightarrow> (\<forall>p \<in> set plans. leg_fits (m_currency funds) receivables p) \<and>
     distinct (map sp_receivableId plans) \<and> legs_total plans \<le> m_amount funds"

locale allocation_strategy =
  fixes plan_for :: "money \<Rightarrow> allocatable list \<Rightarrow> strategy_plan list result"
    and admissible :: "money \<Rightarrow> allocatable list \<Rightarrow> bool"
  assumes plan_legs_ok:
    "admissible funds receivables \<Longrightarrow> plan_for funds receivables = Inr plans \<Longrightarrow> legs_ok funds receivables plans"
begin

lemma plan_total: "admissible funds receivables \<Longrightarrow> plan_for funds receivables = Inr plans \<Longrightarrow>
    0 \<le> legs_total plans \<and> legs_total plans \<le> m_amount funds"
proof -
  assume "admissible funds receivables" and "plan_for funds receivables = Inr plans"
  then have ok: "legs_ok funds receivables plans" by (rule plan_legs_ok)
  then have "0 \<le> legs_total plans"
    unfolding legs_total_def by (intro sum_list_nonneg_int) (auto simp: legs_ok_def leg_fits_def isPositive_def)
  with ok show ?thesis by (simp add: legs_ok_def)
qed

end

text \<open>What a set of receivables can still absorb.\<close>

definition open_balance :: "allocatable \<Rightarrow> int" where
  "open_balance r = (case alloc_balanceOf r of Inr b \<Rightarrow> max 0 (m_amount b) | Inl _ \<Rightarrow> 0)"

definition outstanding_total :: "allocatable list \<Rightarrow> int" where
  "outstanding_total receivables = sum_list (map open_balance receivables)"

lemma open_balance_nonneg [simp]: "0 \<le> open_balance r"
  by (simp add: open_balance_def split: sum.split)

lemma outstanding_total_simps [simp]:
  "outstanding_total [] = 0" "outstanding_total (r # rs) = open_balance r + outstanding_total rs"
  "0 \<le> outstanding_total rs"
  by (simp_all add: outstanding_total_def sum_list_nonneg_int)

lemma legs_total_simps [simp]:
  "legs_total [] = 0" "legs_total (p # ps) = m_amount (sp_amount p) + legs_total ps"
  by (simp_all add: legs_total_def)

text \<open>A strategy that leaves funds unapplied only when every balance is settled.\<close>

locale exhaustive_strategy = allocation_strategy plan_for admissible
  for plan_for :: "money \<Rightarrow> allocatable list \<Rightarrow> strategy_plan list result"
    and admissible :: "money \<Rightarrow> allocatable list \<Rightarrow> bool" +
  assumes plan_exhaustive:
    "admissible funds receivables \<Longrightarrow> plan_for funds receivables = Inr plans \<Longrightarrow>
       legs_total plans = min (m_amount funds) (outstanding_total receivables)"
begin

lemma nothing_idle: "admissible funds receivables \<Longrightarrow> plan_for funds receivables = Inr plans \<Longrightarrow>
    legs_total plans < m_amount funds \<Longrightarrow> legs_total plans = outstanding_total receivables"
  by (drule (1) plan_exhaustive) linarith

end

lemma strategy_guards_Inr:
  "strategy_guards funds receivables = Inr u \<longleftrightarrow>
     (\<forall>r \<in> set receivables. ar_currency r = m_currency funds) \<and> distinct (map ar_receivableId receivables)"
  by (auto simp: strategy_guards_def assertSingleCurrency_def assertNoDuplicates_def result_simps)

lemma oldest_first_simps [simp]:
  "set (oldest_first rs) = set rs" "length (oldest_first rs) = length rs"
  "distinct (map ar_receivableId (oldest_first rs)) = distinct (map ar_receivableId rs)"
proof -
  have "mset (map ar_receivableId (oldest_first rs)) = mset (map ar_receivableId rs)"
    by (simp add: oldest_first_def)
  then show "distinct (map ar_receivableId (oldest_first rs)) = distinct (map ar_receivableId rs)"
    by (rule mset_eq_imp_distinct_iff)
qed (simp_all add: oldest_first_def)


section \<open>Oldest first keeps the contract\<close>

lemma leg_fits_mono: "leg_fits c rs p \<Longrightarrow> set rs \<subseteq> set rs' \<Longrightarrow> leg_fits c rs' p"
  by (auto simp: leg_fits_def)

lemma leg_fits_id: "leg_fits c rs p \<Longrightarrow> sp_receivableId p \<in> ar_receivableId ` set rs"
  by (force simp: leg_fits_def)

lemma fifo_take_legs:
  assumes "fifo_take c remaining rs = Inr plans" and "0 \<le> remaining"
  shows "(\<forall>p \<in> set plans. leg_fits c rs p) \<and>
    (distinct (map ar_receivableId rs) \<longrightarrow> distinct (map sp_receivableId plans)) \<and>
    legs_total plans = min remaining (outstanding_total rs)"
  using assms
proof (induction rs arbitrary: remaining plans)
  case (Cons r rs)
  note out0 = outstanding_total_simps(3)[of rs] open_balance_nonneg[of r]
  show ?case
  proof (cases "remaining = 0")
    case True
    with Cons.prems out0 show ?thesis by simp
  next
    case False
    then obtain b where b: "alloc_balanceOf r = Inr b" using Cons.prems by (auto simp: result_simps)
    show ?thesis
    proof (cases "isPositive b")
      case zero: False
      with False b Cons.prems have "fifo_take c remaining rs = Inr plans" by simp
      from Cons.IH[OF this Cons.prems(2)] zero b show ?thesis
        by (auto simp: open_balance_def isPositive_def intro: leg_fits_mono)
    next
      case True
      let ?amt = "if m_amount b < remaining then m_amount b else remaining"
      from True False b Cons.prems obtain ps where ps: "fifo_take c (remaining - ?amt) rs = Inr ps"
        "plans = \<lparr>sp_receivableId = ar_receivableId r, sp_amount = mk_money ?amt c\<rparr> # ps"
        by (auto simp: result_simps Let_def ofMinorB_Inr split: if_splits)
      from Cons.prems(2) have "0 \<le> remaining - ?amt" by simp
      note IH = Cons.IH[OF ps(1) this]
      have head: "leg_fits c (r # rs) \<lparr>sp_receivableId = ar_receivableId r, sp_amount = mk_money ?amt c\<rparr>"
        using b True False Cons.prems(2) by (auto simp: leg_fits_def isPositive_def)
      have ids: "sp_receivableId ` set ps \<subseteq> ar_receivableId ` set rs"
        using IH leg_fits_id by blast
      have "open_balance r = m_amount b" using True b by (simp add: open_balance_def isPositive_def)
      then have "legs_total plans = min remaining (outstanding_total (r # rs))"
        using IH add_increasing2[OF out0(1), of remaining "m_amount b"]
        by (simp add: ps(2) min_def split: if_splits)
      then show ?thesis using IH ids head by (auto simp: ps(2) intro: leg_fits_mono)
    qed
  qed
qed simp

lemma outstanding_total_oldest_first [simp]: "outstanding_total (oldest_first rs) = outstanding_total rs"
  unfolding outstanding_total_def by (rule sum_list_mset_eq) (simp add: oldest_first_def)

interpretation fifo: exhaustive_strategy allocateOldestFirst "\<lambda>funds receivables. money_ok funds"
proof unfold_locales
  fix funds receivables plans
  assume ok: "money_ok funds" and run: "allocateOldestFirst funds receivables = Inr plans"
  then have guards: "distinct (map ar_receivableId receivables)"
    and fifo: "fifo_take (m_currency funds) (m_amount funds) (oldest_first receivables) = Inr plans"
    by (auto simp: allocateOldestFirst_def result_simps strategy_guards_Inr)
  from fifo_take_legs[OF fifo] ok have legs: "\<forall>p \<in> set plans. leg_fits (m_currency funds) (oldest_first receivables) p"
    "distinct (map sp_receivableId plans)"
    and total: "legs_total plans = min (m_amount funds) (outstanding_total receivables)"
    using guards by (simp_all add: money_ok_def)
  from legs total show "legs_ok funds receivables plans"
    by (auto simp: legs_ok_def intro: leg_fits_mono)
  from total show "legs_total plans = min (m_amount funds) (outstanding_total receivables)" .
qed

section \<open>A declared split keeps the contract\<close>

definition entry_fits :: "money \<Rightarrow> allocatable list \<Rightarrow> uuid \<times> money \<Rightarrow> bool" where
  "entry_fits funds receivables e \<longleftrightarrow> m_currency (snd e) = m_currency funds \<and>
     (\<exists>r \<in> set receivables. ar_receivableId r = fst e \<and>
        (\<exists>b. alloc_balanceOf r = Inr b \<and> m_amount (snd e) \<le> m_amount b))"

lemma entry_fits_leg: "entry_fits funds rs (rid, a) \<Longrightarrow> isPositive a \<Longrightarrow>
    leg_fits (m_currency funds) rs \<lparr>sp_receivableId = rid, sp_amount = a\<rparr>"
  by (simp add: entry_fits_def leg_fits_def)

lemma explicit_entry_Inr:
  assumes "explicit_entry funds receivables t e = Inr t'"
  shows "entry_fits funds receivables e \<and> t' = t + m_amount (snd e)"
proof -
  obtain rid amount where e: "e = (rid, amount)" by (cases e)
  with assms obtain r where "find (\<lambda>r. ar_receivableId r = rid) receivables = Some r"
    by (auto simp: explicit_entry_def split: option.splits)
  then have "r \<in> set receivables" "ar_receivableId r = rid"
    by (auto simp: find_Some_iff)
  with assms e \<open>find _ _ = _\<close> show ?thesis
    by (auto simp: explicit_entry_def entry_fits_def result_simps not_less)
qed

lemma explicit_entries_Inr:
  "reduce (explicit_entry funds receivables) t es = Inr t' \<Longrightarrow>
     (\<forall>e \<in> set es. entry_fits funds receivables e) \<and> t' = t + sum_list (map (\<lambda>e. m_amount (snd e)) es)"
proof (induction es arbitrary: t)
  case (Cons e es)
  then obtain t1 where "explicit_entry funds receivables t e = Inr t1"
    "reduce (explicit_entry funds receivables) t1 es = Inr t'" by (auto simp: result_simps)
  from explicit_entry_Inr[OF this(1)] Cons.IH[OF this(2)] show ?case by simp
qed simp

text \<open>The declared amounts are \<open>Money\<close> values, so never negative.\<close>

definition declared_ok :: "declared_split \<Rightarrow> bool" where
  "declared_ok declared \<longleftrightarrow> distinct (map fst declared) \<and> (\<forall>e \<in> set declared. money_ok (snd e))"

definition explicit_legs :: "declared_split \<Rightarrow> strategy_plan list" where
  "explicit_legs declared = map (\<lambda>(rid, amount). \<lparr>sp_receivableId = rid, sp_amount = amount\<rparr>)
     (sort_key fst (filter (\<lambda>(_, amount). isPositive amount) declared))"

lemma explicit_legs_facts:
  assumes "declared_ok declared"
  shows "legs_total (explicit_legs declared) = sum_list (map (\<lambda>e. m_amount (snd e)) declared)"
    and "distinct (map sp_receivableId (explicit_legs declared))"
    and "set (explicit_legs declared) =
      (\<lambda>(rid, amount). \<lparr>sp_receivableId = rid, sp_amount = amount\<rparr>) ` {e \<in> set declared. isPositive (snd e)}"
proof -
  let ?pos = "filter (\<lambda>(_, amount). isPositive amount) declared"
  have "legs_total (explicit_legs declared) = sum_list (map (\<lambda>e. m_amount (snd e)) (sort_key fst ?pos))"
    by (simp add: legs_total_def explicit_legs_def o_def case_prod_unfold)
  also have "\<dots> = sum_list (map (\<lambda>e. m_amount (snd e)) ?pos)"
    by (rule sum_list_mset_eq) simp
  also have "\<dots> = sum_list (map (\<lambda>e. m_amount (snd e)) declared)"
    using assms by (induction declared) (auto simp: declared_ok_def isPositive_def money_ok_def)
  finally show "legs_total (explicit_legs declared) = sum_list (map (\<lambda>e. m_amount (snd e)) declared)" .
  have "mset (map sp_receivableId (explicit_legs declared)) = mset (map fst ?pos)"
    by (simp add: explicit_legs_def o_def case_prod_unfold)
  moreover have "distinct (map fst ?pos)"
    using assms by (simp add: declared_ok_def distinct_map_filter)
  ultimately show "distinct (map sp_receivableId (explicit_legs declared))"
    using mset_eq_imp_distinct_iff by blast
  show "set (explicit_legs declared) =
      (\<lambda>(rid, amount). \<lparr>sp_receivableId = rid, sp_amount = amount\<rparr>) ` {e \<in> set declared. isPositive (snd e)}"
    by (auto simp: explicit_legs_def case_prod_unfold)
qed

interpretation explicit: allocation_strategy
  "\<lambda>funds receivables. allocateExplicit funds receivables declared" "\<lambda>funds receivables. declared_ok declared"
  for declared
proof unfold_locales
  fix funds receivables plans
  assume ok: "declared_ok declared" and run: "allocateExplicit funds receivables declared = Inr plans"
  then obtain t where t: "reduce (explicit_entry funds receivables) 0 declared = Inr t" "t \<le> m_amount funds"
    and plans: "plans = explicit_legs declared"
    by (auto simp: allocateExplicit_def result_simps explicit_legs_def)
  note fits = explicit_entries_Inr[OF t(1)]
  have "\<forall>p \<in> set plans. leg_fits (m_currency funds) receivables p"
    using fits by (auto simp: plans explicit_legs_facts(3)[OF ok] intro: entry_fits_leg)
  then show "legs_ok funds receivables plans"
    using fits t(2) explicit_legs_facts(1,2)[OF ok] by (simp add: legs_ok_def plans)
qed

section \<open>Pro rata keeps the contract\<close>

lemma with_balances_Inr:
  "traverse with_balance rs = Inr rbs \<Longrightarrow>
     map fst rbs = rs \<and> (\<forall>rb \<in> set rbs. alloc_balanceOf (fst rb) = Inr (snd rb))"
proof (induction rs arbitrary: rbs)
  case (Cons r rs)
  then obtain b rest where "alloc_balanceOf r = Inr b" "traverse with_balance rs = Inr rest"
    "rbs = (r, b) # rest" by (auto simp: result_simps with_balance_def[of r])
  with Cons.IH[of rest] show ?case by simp
qed simp

lemma positive_balances_facts:
  assumes "\<forall>rb \<in> set rbs. alloc_balanceOf (fst rb) = Inr (snd rb)"
    and "distinct (map ar_receivableId (map fst rbs))"
  shows "set (positive_balances rbs) = {rb \<in> set rbs. isPositive (snd rb)}"
    and "sum_list (map (\<lambda>rb. m_amount (snd rb)) (positive_balances rbs)) = outstanding_total (map fst rbs)"
    and "distinct (map (\<lambda>rb. ar_receivableId (fst rb)) (positive_balances rbs))"
proof -
  let ?pos = "filter (\<lambda>(_, balance). isPositive balance) rbs"
  show "set (positive_balances rbs) = {rb \<in> set rbs. isPositive (snd rb)}"
    by (auto simp: positive_balances_def case_prod_unfold)
  have "sum_list (map (\<lambda>rb. m_amount (snd rb)) (positive_balances rbs)) = sum_list (map (\<lambda>rb. m_amount (snd rb)) ?pos)"
    by (rule sum_list_mset_eq) (simp add: positive_balances_def)
  also have "\<dots> = outstanding_total (map fst rbs)"
    using assms(1) by (induction rbs) (auto simp: open_balance_def isPositive_def)
  finally show "sum_list (map (\<lambda>rb. m_amount (snd rb)) (positive_balances rbs)) = outstanding_total (map fst rbs)" .
  have "mset (map (\<lambda>rb. ar_receivableId (fst rb)) (positive_balances rbs)) =
    mset (map (\<lambda>rb. ar_receivableId (fst rb)) ?pos)"
    by (simp add: positive_balances_def)
  moreover have "distinct (map (\<lambda>rb. ar_receivableId (fst rb)) ?pos)"
    using assms(2) by (simp add: o_def distinct_map_filter)
  ultimately show "distinct (map (\<lambda>rb. ar_receivableId (fst rb)) (positive_balances rbs))"
    using mset_eq_imp_distinct_iff by blast
qed

lemma pro_rata_legs_zip:
  assumes "length parts = length positive"
  shows "pro_rata_legs c positive (map (\<lambda>a. mk_money a c) parts) =
    map (\<lambda>(rb, a). \<lparr>sp_receivableId = ar_receivableId (fst rb), sp_amount = mk_money a c\<rparr>)
      (filter (\<lambda>(_, a). 0 < a) (zip positive parts))"
proof -
  have "map (\<lambda>(i, r, _). \<lparr>sp_receivableId = ar_receivableId r,
      sp_amount = (if i < length (map (\<lambda>a. mk_money a c) parts) then map (\<lambda>a. mk_money a c) parts ! i else zero_money c)\<rparr>)
      (enumerate 0 positive) =
    map (\<lambda>(rb, a). \<lparr>sp_receivableId = ar_receivableId (fst rb), sp_amount = mk_money a c\<rparr>) (zip positive parts)"
    by (rule nth_equalityI) (use assms in \<open>auto simp: nth_enumerate_eq case_prod_unfold\<close>)
  then show ?thesis
    unfolding pro_rata_legs_def by (simp only: filter_map) (simp add: o_def case_prod_unfold)
qed

lemma zip_positive_total:
  assumes "length parts = length positive" and "\<forall>a \<in> set parts. 0 \<le> a"
  shows "sum_list (map snd (filter (\<lambda>(_, a). 0 < a) (zip positive parts))) = sum_list (parts :: int list)"
  using assms by (induction positive parts rule: list_induct2') auto

lemma pro_rata_legs_facts:
  assumes len: "length parts = length positive" and nonneg: "\<forall>a \<in> set parts. 0 \<le> a"
    and caps: "\<forall>i < length positive. parts ! i \<le> m_amount (snd (positive ! i))"
    and bal: "\<forall>rb \<in> set positive. fst rb \<in> set rs \<and> alloc_balanceOf (fst rb) = Inr (snd rb)"
    and dist: "distinct (map (\<lambda>rb. ar_receivableId (fst rb)) positive)"
  shows "\<forall>p \<in> set (pro_rata_legs c positive (map (\<lambda>a. mk_money a c) parts)). leg_fits c rs p"
    and "legs_total (pro_rata_legs c positive (map (\<lambda>a. mk_money a c) parts)) = sum_list parts"
    and "distinct (map sp_receivableId (pro_rata_legs c positive (map (\<lambda>a. mk_money a c) parts)))"
proof -
  let ?z = "zip positive parts"
  note legs = pro_rata_legs_zip[OF len, of c]
  have cap: "a \<le> m_amount (snd rb)" if "(rb, a) \<in> set ?z" for rb a
    using that caps by (auto simp: in_set_zip)
  show "\<forall>p \<in> set (pro_rata_legs c positive (map (\<lambda>a. mk_money a c) parts)). leg_fits c rs p"
  proof
    fix p assume "p \<in> set (pro_rata_legs c positive (map (\<lambda>a. mk_money a c) parts))"
    then obtain rb a where p: "p = \<lparr>sp_receivableId = ar_receivableId (fst rb), sp_amount = mk_money a c\<rparr>"
      "(rb, a) \<in> set ?z" "0 < a" by (auto simp: legs)
    from set_zip_leftD[OF p(2)] bal have "fst rb \<in> set rs" "alloc_balanceOf (fst rb) = Inr (snd rb)" by auto
    with p cap[OF p(2)] show "leg_fits c rs p" by (auto simp: leg_fits_def)
  qed
  show "legs_total (pro_rata_legs c positive (map (\<lambda>a. mk_money a c) parts)) = sum_list parts"
    using zip_positive_total[OF len nonneg] by (simp add: legs legs_total_def o_def case_prod_unfold)
  have "map (\<lambda>e. ar_receivableId (fst (fst e))) ?z = map (\<lambda>rb. ar_receivableId (fst rb)) (map fst ?z)"
    by simp
  also have "\<dots> = map (\<lambda>rb. ar_receivableId (fst rb)) positive" using len by (simp only: map_fst_zip)
  finally have "distinct (map (\<lambda>e. ar_receivableId (fst (fst e))) ?z)" using dist by simp
  then show "distinct (map sp_receivableId (pro_rata_legs c positive (map (\<lambda>a. mk_money a c) parts)))"
    by (simp add: legs o_def case_prod_unfold distinct_map_filter)
qed

text \<open>
  Weights are \<open>Number(balance.amount)\<close>: balances up to \<open>2 ^ 52\<close> minor units in all are exact.
\<close>

definition pro_rata_admissible :: "money \<Rightarrow> allocatable list \<Rightarrow> bool" where
  "pro_rata_admissible funds receivables \<longleftrightarrow> money_ok funds \<and> outstanding_total receivables \<le> 2 ^ 52"

lemma pro_rata_weights:
  assumes "sum_list ws \<le> 2 ^ 52" and "\<forall>w \<in> set ws. 0 < w"
  shows "map number_of ws = int_weights ws"
proof (rule map_cong[OF refl])
  fix w assume w: "w \<in> set ws"
  have "w \<le> sum_list ws"
    using member_le_sum_list_int[of w ws "\<lambda>x. x"] w assms(2) by (simp add: order.strict_implies_order)
  moreover have "0 < w" using w assms(2) by blast
  ultimately have "\<bar>w\<bar> \<le> 2 ^ 53" using assms(1) by simp
  then show "number_of w = Fin (of_int w)" by (rule number_of_int)
qed

lemma allocateProRata_cases:
  assumes "allocateProRata funds receivables = Inr plans"
  obtains positive where
    "\<forall>rb \<in> set positive. fst rb \<in> set receivables \<and> alloc_balanceOf (fst rb) = Inr (snd rb) \<and> isPositive (snd rb)"
    and "sum_list (map (\<lambda>rb. m_amount (snd rb)) positive) = outstanding_total receivables"
    and "distinct (map (\<lambda>rb. ar_receivableId (fst rb)) positive)"
    and "\<forall>r \<in> set receivables. ar_currency r = m_currency funds"
    and "outstanding_total receivables \<le> m_amount funds \<and>
        plans = map (\<lambda>(r, balance). \<lparr>sp_receivableId = ar_receivableId r, sp_amount = balance\<rparr>) positive \<or>
      m_amount funds < outstanding_total receivables \<and> (\<exists>parts.
        allocate funds (map number_of (map (\<lambda>rb. m_amount (snd rb)) positive)) = Inr parts \<and>
        plans = pro_rata_legs (m_currency funds) positive parts) \<or> positive = [] \<and> plans = []"
proof -
  from assms obtain rbs where rbs: "traverse with_balance receivables = Inr rbs"
    and g: "\<forall>r \<in> set receivables. ar_currency r = m_currency funds" "distinct (map ar_receivableId receivables)"
    by (auto simp: allocateProRata_def result_simps strategy_guards_Inr)
  note wb = with_balances_Inr[OF rbs]
  from wb g(2) have d: "distinct (map ar_receivableId (map fst rbs))" by simp
  note pos = positive_balances_facts[OF conjunct2[OF wb] d]
  have tot: "foldl (\<lambda>sum (_, balance). sum + m_amount balance) 0 (positive_balances rbs) = outstanding_total receivables"
    using pos(2) wb by (simp add: case_prod_unfold foldl_plus_sum_list)
  have mem: "\<forall>rb \<in> set (positive_balances rbs).
      fst rb \<in> set receivables \<and> alloc_balanceOf (fst rb) = Inr (snd rb) \<and> isPositive (snd rb)"
    using wb pos(1) by (metis (mono_tags, lifting) imageI list.set_map mem_Collect_eq)
  show ?thesis
    by (rule that[OF mem pos(2)[unfolded conjunct1[OF wb]] pos(3) g(1)])
      (use tot assms rbs in \<open>auto simp: allocateProRata_def result_simps strategy_guards_Inr Let_def
         case_prod_unfold o_def split: if_splits\<close>)
qed

lemma pro_rata_partial:
  assumes "money_ok funds" and "m_amount funds < sum_list (map (\<lambda>rb. m_amount (snd rb)) positive)"
    and "sum_list (map (\<lambda>rb. m_amount (snd rb)) positive) \<le> 2 ^ 52"
    and "allocate funds (map number_of (map (\<lambda>rb. m_amount (snd rb)) positive)) = Inr parts"
    and bal: "\<forall>rb \<in> set positive. fst rb \<in> set receivables \<and> alloc_balanceOf (fst rb) = Inr (snd rb) \<and> isPositive (snd rb)"
    and "distinct (map (\<lambda>rb. ar_receivableId (fst rb)) positive)"
  shows "legs_ok funds receivables (pro_rata_legs (m_currency funds) positive parts)"
    and "legs_total (pro_rata_legs (m_currency funds) positive parts) = m_amount funds"
proof -
  let ?ws = "map (\<lambda>rb. m_amount (snd rb)) positive"
  have pos: "\<forall>w \<in> set ?ws. 0 < w" using bal by (auto simp: isPositive_def)
  have f0: "0 \<le> m_amount funds" using assms(1) by (simp add: money_ok_def)
  from allocate_capped[OF f0 assms(2) pos assms(3)] obtain amounts where
    al: "allocate funds (int_weights ?ws) = Inr (map (\<lambda>a. mk_money a (m_currency funds)) amounts)"
    and am: "length amounts = length ?ws" "sum_list amounts = m_amount funds" "\<forall>a \<in> set amounts. 0 \<le> a"
      "\<forall>i < length ?ws. amounts ! i \<le> ?ws ! i" .
  have parts: "parts = map (\<lambda>a. mk_money a (m_currency funds)) amounts"
    using assms(4) al pro_rata_weights[OF assms(3) pos] by (simp only:) simp
  have len: "length amounts = length positive" using am(1) by simp
  have caps: "\<forall>i < length positive. amounts ! i \<le> m_amount (snd (positive ! i))" using am(4) by simp
  have "\<forall>rb \<in> set positive. fst rb \<in> set receivables \<and> alloc_balanceOf (fst rb) = Inr (snd rb)"
    using bal by blast
  note facts = pro_rata_legs_facts[OF len am(3) caps this assms(6), of "m_currency funds"]
  from facts am(2) show "legs_ok funds receivables (pro_rata_legs (m_currency funds) positive parts)"
    "legs_total (pro_rata_legs (m_currency funds) positive parts) = m_amount funds"
    by (simp_all add: legs_ok_def parts)
qed

lemma pro_rata_full:
  assumes "\<forall>rb \<in> set positive. fst rb \<in> set receivables \<and> alloc_balanceOf (fst rb) = Inr (snd rb) \<and> isPositive (snd rb)"
    and "\<forall>r \<in> set receivables. ar_currency r = m_currency funds"
    and "distinct (map (\<lambda>rb. ar_receivableId (fst rb)) positive)"
    and "sum_list (map (\<lambda>rb. m_amount (snd rb)) positive) \<le> m_amount funds"
    and plans: "plans = map (\<lambda>(r, balance). \<lparr>sp_receivableId = ar_receivableId r, sp_amount = balance\<rparr>) positive"
  shows "legs_ok funds receivables plans"
    and "legs_total plans = sum_list (map (\<lambda>rb. m_amount (snd rb)) positive)"
proof -
  show total: "legs_total plans = sum_list (map (\<lambda>rb. m_amount (snd rb)) positive)"
    by (simp add: plans legs_total_def o_def case_prod_unfold)
  have "leg_fits (m_currency funds) receivables p" if p: "p \<in> set plans" for p
  proof -
    from p obtain rb where rb: "rb \<in> set positive"
      "p = \<lparr>sp_receivableId = ar_receivableId (fst rb), sp_amount = snd rb\<rparr>"
      by (auto simp: plans case_prod_unfold)
    with assms(1) have b: "fst rb \<in> set receivables" "alloc_balanceOf (fst rb) = Inr (snd rb)" "isPositive (snd rb)"
      by blast+
    then have "m_currency (snd rb) = m_currency funds"
      using alloc_balanceOf_currency assms(2) by metis
    with b rb show ?thesis by (auto simp: leg_fits_def)
  qed
  moreover have "distinct (map sp_receivableId plans)"
    using assms(3) by (simp add: plans o_def case_prod_unfold)
  ultimately show "legs_ok funds receivables plans"
    using total assms(4) by (simp add: legs_ok_def)
qed

interpretation pro_rata: exhaustive_strategy allocateProRata pro_rata_admissible
proof -
  have key: "legs_ok funds receivables plans \<and>
      legs_total plans = min (m_amount funds) (outstanding_total receivables)"
    if adm: "pro_rata_admissible funds receivables" and run: "allocateProRata funds receivables = Inr plans"
    for funds receivables plans
  proof -
    from adm have ok: "money_ok funds" "outstanding_total receivables \<le> 2 ^ 52"
      by (simp_all add: pro_rata_admissible_def)
    from allocateProRata_cases[OF run] obtain positive where
      bal: "\<forall>rb \<in> set positive. fst rb \<in> set receivables \<and> alloc_balanceOf (fst rb) = Inr (snd rb) \<and> isPositive (snd rb)"
      and tot: "sum_list (map (\<lambda>rb. m_amount (snd rb)) positive) = outstanding_total receivables"
      and dist: "distinct (map (\<lambda>rb. ar_receivableId (fst rb)) positive)"
      and cur: "\<forall>r \<in> set receivables. ar_currency r = m_currency funds"
      and cases: "outstanding_total receivables \<le> m_amount funds \<and>
          plans = map (\<lambda>(r, balance). \<lparr>sp_receivableId = ar_receivableId r, sp_amount = balance\<rparr>) positive \<or>
        m_amount funds < outstanding_total receivables \<and> (\<exists>parts.
          allocate funds (map number_of (map (\<lambda>rb. m_amount (snd rb)) positive)) = Inr parts \<and>
          plans = pro_rata_legs (m_currency funds) positive parts) \<or> positive = [] \<and> plans = []" .
    from cases show ?thesis
    proof (elim disjE conjE exE)
      assume "outstanding_total receivables \<le> m_amount funds"
        "plans = map (\<lambda>(r, balance). \<lparr>sp_receivableId = ar_receivableId r, sp_amount = balance\<rparr>) positive"
      with pro_rata_full[OF bal cur dist] tot show ?thesis by simp
    next
      fix parts
      assume "m_amount funds < outstanding_total receivables"
        "allocate funds (map number_of (map (\<lambda>rb. m_amount (snd rb)) positive)) = Inr parts"
        "plans = pro_rata_legs (m_currency funds) positive parts"
      with pro_rata_partial[OF ok(1) _ _ _ bal dist] tot ok(2) show ?thesis by simp
    next
      assume "positive = []" "plans = []"
      with tot ok(1) show ?thesis by (simp add: legs_ok_def money_ok_def)
    qed
  qed
  show "exhaustive_strategy allocateProRata pro_rata_admissible"
    by unfold_locales (use key in blast)+
qed

section \<open>Oldest first in closed form\<close>

text \<open>
  What receivable number \<open>i\<close> gets when receivables with balances \<open>bs\<close> are settled in
  order out of \<open>funds\<close>: whatever the earlier ones left, up to its balance.
\<close>

definition fifo_share :: "int \<Rightarrow> int list \<Rightarrow> nat \<Rightarrow> int" where
  "fifo_share funds bs i = max 0 (min (bs ! i) (funds - sum_list (take i bs)))"

definition fifo_reference :: "currency \<Rightarrow> int \<Rightarrow> allocatable list \<Rightarrow> strategy_plan list" where
  "fifo_reference c funds rs =
     map (\<lambda>i. \<lparr>sp_receivableId = ar_receivableId (rs ! i),
        sp_amount = mk_money (fifo_share funds (map open_balance rs) i) c\<rparr>)
       (filter (\<lambda>i. 0 < fifo_share funds (map open_balance rs) i) [0..<length rs])"

lemma fifo_share_Cons [simp]:
  "fifo_share F (b # bs) 0 = max 0 (min b F)"
  "fifo_share F (b # bs) (Suc i) = fifo_share (F - b) bs i"
  by (simp_all add: fifo_share_def algebra_simps)

lemma fifo_share_exhausted:
  assumes "F \<le> 0" and "\<forall>b \<in> set bs. 0 \<le> b"
  shows "fifo_share F bs i = 0"
proof -
  have "0 \<le> sum_list (take i bs)" using assms(2) by (auto intro!: sum_list_nonneg dest: in_set_takeD)
  then show ?thesis using assms(1) by (simp add: fifo_share_def)
qed

lemma fifo_reference_exhausted: "F \<le> 0 \<Longrightarrow> fifo_reference c F rs = []"
  by (simp add: fifo_reference_def fifo_share_exhausted)

lemma fifo_reference_Cons:
  "fifo_reference c F (r # rs) =
     (if 0 < min (open_balance r) F
      then [\<lparr>sp_receivableId = ar_receivableId r, sp_amount = mk_money (min (open_balance r) F) c\<rparr>] else []) @
     fifo_reference c (F - open_balance r) rs"
proof -
  have "[0..<length (r # rs)] = 0 # map Suc [0..<length rs]"
    by (simp add: upt_conv_Cons map_Suc_upt del: upt_Suc)
  then show ?thesis
    by (auto simp: fifo_reference_def filter_map o_def less_max_iff_disj max_def simp del: upt_Suc)
qed

lemma fifo_take_reference:
  assumes "0 \<le> remaining" and "\<forall>r \<in> set rs. \<exists>b. alloc_balanceOf r = Inr b"
  shows "fifo_take c remaining rs = Inr (fifo_reference c remaining rs)"
  using assms
proof (induction rs arbitrary: remaining)
  case Nil
  then show ?case by (simp add: fifo_reference_def)
next
  case (Cons r rs)
  from Cons.prems obtain b where b: "alloc_balanceOf r = Inr b" by auto
  then have ob: "open_balance r = max 0 (m_amount b)" by (simp add: open_balance_def)
  let ?amt = "if m_amount b < remaining then m_amount b else remaining"
  have IH: "fifo_take c (max 0 (remaining - open_balance r)) rs =
    Inr (fifo_reference c (max 0 (remaining - open_balance r)) rs)" by (rule Cons.IH) (use Cons.prems in auto)
  have max0: "fifo_reference c (max 0 x) rs = fifo_reference c x rs" for x
    by (cases "x \<le> 0") (simp_all add: fifo_reference_exhausted)
  show ?case
  proof (cases "remaining = 0 \<or> \<not> isPositive b")
    case True
    with Cons.prems b ob IH show ?thesis
      by (auto simp: fifo_reference_exhausted fifo_reference_Cons isPositive_def)
  next
    case False
    then have "remaining - ?amt = max 0 (remaining - open_balance r)" "?amt = min (open_balance r) remaining"
      "0 < min (open_balance r) remaining" "0 \<le> ?amt"
      using Cons.prems(1) ob by (auto simp: isPositive_def)
    with False b IH max0 show ?thesis
      by (simp add: fifo_reference_Cons ofMinorB_nonneg Let_def del: fifo_take.simps(1))
  qed
qed

text \<open>
  C14. Oldest first: when every balance can be read, the plan is exactly the closed form: the
  receivables in order of due date (undated last, ties by id), each getting what the earlier
  ones left of the funds up to its own balance, and none with a zero share.
\<close>

theorem allocateOldestFirst_reference:
  assumes "money_ok funds" and "\<forall>r \<in> set receivables. ar_currency r = m_currency funds"
    and "distinct (map ar_receivableId receivables)"
    and "\<forall>r \<in> set receivables. \<exists>b. alloc_balanceOf r = Inr b"
  shows "allocateOldestFirst funds receivables =
    Inr (fifo_reference (m_currency funds) (m_amount funds) (sort_key due_key receivables))"
proof -
  have "strategy_guards funds receivables = Inr ()" using assms(2,3) by (simp add: strategy_guards_Inr)
  moreover have "fifo_take (m_currency funds) (m_amount funds) (oldest_first receivables) =
    Inr (fifo_reference (m_currency funds) (m_amount funds) (oldest_first receivables))"
    by (rule fifo_take_reference) (use assms in \<open>simp_all add: money_ok_def\<close>)
  ultimately show ?thesis by (simp add: allocateOldestFirst_def oldest_first_def)
qed

definition sample_receivable :: "string \<Rightarrow> int \<Rightarrow> date option \<Rightarrow> allocatable" where
  "sample_receivable rid b due = \<lparr>ar_receivableId = rid, ar_currency = KES,
     ar_balanceMinor = MoneyBalance (mk_money b KES), ar_dueDate = due\<rparr>"

theorem allocateOldestFirst_reference_witness:
  "allocateOldestFirst (mk_money 70 KES) [sample_receivable ''b'' 50 None, sample_receivable ''a'' 60 (Some 5)] =
     Inr (fifo_reference KES 70 (sort_key due_key [sample_receivable ''b'' 50 None, sample_receivable ''a'' 60 (Some 5)]))"
  using allocateOldestFirst_reference[of "mk_money 70 KES" "[sample_receivable ''b'' 50 None, sample_receivable ''a'' 60 (Some 5)]"]
  by (simp add: sample_receivable_def alloc_balanceOf_def)

section \<open>Pro rata and declared splits, end to end\<close>

lemma with_balances_total:
  assumes "\<forall>r \<in> set rs. \<exists>b. alloc_balanceOf r = Inr b"
  shows "\<exists>rbs. traverse with_balance rs = Inr rbs"
  using assms by (auto simp: traverse_Inr_ex with_balance_def and_then_Inr_iff)

lemma allocateProRata_total:
  assumes "money_ok funds" and "\<forall>r \<in> set receivables. ar_currency r = m_currency funds"
    and "distinct (map ar_receivableId receivables)"
    and "\<forall>r \<in> set receivables. \<exists>b. alloc_balanceOf r = Inr b"
    and "outstanding_total receivables \<le> 2 ^ 52"
  shows "\<exists>plans. allocateProRata funds receivables = Inr plans"
proof -
  from with_balances_total[OF assms(4)] obtain rbs where rbs: "traverse with_balance receivables = Inr rbs" ..
  note wb = with_balances_Inr[OF rbs]
  from wb assms(3) have "distinct (map ar_receivableId (map fst rbs))" by simp
  note pos = positive_balances_facts[OF conjunct2[OF wb] this]
  let ?ws = "map (\<lambda>rb. m_amount (snd rb)) (positive_balances rbs)"
  have tot: "sum_list ?ws = outstanding_total receivables" using pos(2) wb by simp
  have w: "\<forall>w \<in> set ?ws. 0 < w" using pos(1) by (auto simp: isPositive_def)
  have "\<exists>parts. allocate funds (map number_of ?ws) = Inr parts" if "m_amount funds < sum_list ?ws"
    using allocate_capped[of funds ?ws] that w assms(1,5) pro_rata_weights[of ?ws] tot
    by (metis money_ok_def)
  moreover have "strategy_guards funds receivables = Inr ()" using assms(2,3) by (simp add: strategy_guards_Inr)
  moreover have "foldl (\<lambda>sum (_, balance). sum + m_amount balance) 0 (positive_balances rbs) = sum_list ?ws"
    by (simp add: case_prod_unfold foldl_plus_sum_list)
  ultimately show ?thesis using rbs
    by (auto simp: allocateProRata_def Let_def case_prod_unfold o_def not_le)
qed

text \<open>
  Pro rata: for funds and receivables of one currency, distinct ids, readable balances and
  at most \<open>2 ^ 52\<close> minor units outstanding, the split succeeds; every leg is positive and at
  most the balance of its receivable, no receivable is hit twice, and the legs add up to
  the smaller of the funds and the outstanding debt, to the cent.
\<close>

theorem allocateProRata_exact:
  assumes "money_ok funds" and "\<forall>r \<in> set receivables. ar_currency r = m_currency funds"
    and "distinct (map ar_receivableId receivables)"
    and "\<forall>r \<in> set receivables. \<exists>b. alloc_balanceOf r = Inr b"
    and "outstanding_total receivables \<le> 2 ^ 52"
  shows "\<exists>plans. allocateProRata funds receivables = Inr plans \<and> legs_ok funds receivables plans \<and>
    legs_total plans = min (m_amount funds) (outstanding_total receivables)"
proof -
  from allocateProRata_total[OF assms] obtain plans where run: "allocateProRata funds receivables = Inr plans" ..
  have "pro_rata_admissible funds receivables" using assms(1,5) by (simp add: pro_rata_admissible_def)
  from pro_rata.plan_legs_ok[OF this run] pro_rata.plan_exhaustive[OF this run] run show ?thesis by blast
qed

theorem allocateProRata_exact_witness:
  "\<exists>plans. allocateProRata (mk_money 100 KES) [sample_receivable ''b'' 70 None, sample_receivable ''a'' 80 None] = Inr plans \<and>
     legs_ok (mk_money 100 KES) [sample_receivable ''b'' 70 None, sample_receivable ''a'' 80 None] plans \<and>
     legs_total plans = 100"
  using allocateProRata_exact[of "mk_money 100 KES" "[sample_receivable ''b'' 70 None, sample_receivable ''a'' 80 None]"]
  by (simp add: sample_receivable_def alloc_balanceOf_def open_balance_def)

lemma explicit_entry_total:
  assumes "distinct (map ar_receivableId receivables)" and "entry_fits funds receivables e"
  shows "explicit_entry funds receivables t e = Inr (t + m_amount (snd e))"
proof -
  obtain rid amount where e: "e = (rid, amount)" by (cases e)
  from assms(2) e obtain r b where r: "r \<in> set receivables" "ar_receivableId r = rid" "alloc_balanceOf r = Inr b"
    "m_amount amount \<le> m_amount b" "m_currency amount = m_currency funds" by (auto simp: entry_fits_def)
  have "find (\<lambda>r. ar_receivableId r = rid) receivables = Some r"
    using assms(1) r(1,2) by (induction receivables) (auto simp: image_iff)
  with e r show ?thesis by (simp add: explicit_entry_def)
qed

lemma explicit_entries_total:
  assumes "distinct (map ar_receivableId receivables)" and "\<forall>e \<in> set es. entry_fits funds receivables e"
  shows "reduce (explicit_entry funds receivables) t es = Inr (t + sum_list (map (\<lambda>e. m_amount (snd e)) es))"
  using assms(2) by (induction es arbitrary: t) (simp_all add: explicit_entry_total[OF assms(1)] add.assoc)

text \<open>
  Declared split: with receivables that pass the guards, a declaration is accepted exactly
  when every entry names one of the receivables in the currency of the funds, is covered by
  its balance, and the declared total fits the funds; the plan is then the declaration
  without its zero entries, sorted by receivable.
\<close>

theorem allocateExplicit_accepts_iff:
  assumes "\<forall>r \<in> set receivables. ar_currency r = m_currency funds"
    and "distinct (map ar_receivableId receivables)"
  shows "allocateExplicit funds receivables declared = Inr plans \<longleftrightarrow>
    (\<forall>e \<in> set declared. entry_fits funds receivables e) \<and>
    sum_list (map (\<lambda>e. m_amount (snd e)) declared) \<le> m_amount funds \<and> plans = explicit_legs declared"
proof -
  have g: "strategy_guards funds receivables = Inr ()" using assms by (simp add: strategy_guards_Inr)
  have r: "reduce (explicit_entry funds receivables) 0 declared = Inr t \<longleftrightarrow>
    (\<forall>e \<in> set declared. entry_fits funds receivables e) \<and> t = sum_list (map (\<lambda>e. m_amount (snd e)) declared)" for t
    using explicit_entries_Inr[of funds receivables 0 declared t] explicit_entries_total[OF assms(2), of declared funds 0]
    by auto
  show ?thesis by (auto simp: allocateExplicit_def g result_simps r explicit_legs_def)
qed

theorem allocateExplicit_accepts_iff_witness:
  "allocateExplicit (mk_money 40 KES) [sample_receivable ''a'' 60 None] [(''a'', mk_money 40 KES)] =
     Inr [\<lparr>sp_receivableId = ''a'', sp_amount = mk_money 40 KES\<rparr>]"
  using allocateExplicit_accepts_iff[of "[sample_receivable ''a'' 60 None]" "mk_money 40 KES" "[(''a'', mk_money 40 KES)]"
      "[\<lparr>sp_receivableId = ''a'', sp_amount = mk_money 40 KES\<rparr>]"]
  by (simp add: sample_receivable_def alloc_balanceOf_def entry_fits_def explicit_legs_def)

end
