(* ===== verification/Ids.thy ===== *)
theory Ids
  imports Prelude "HOL-Library.Word"
begin

text \<open>
  Identity primitives: the \<open>uuid\<close> guard of \<open>src/src/domain/shared/ids.ts\<close> and the
  deterministic ids the lanes derive from a seed (\<open>src/src/domain/allocation/ids.ts\<close>; the
  payments and ledger lanes carry the same routine). The seed hash is 32-bit FNV-1a, written
  in the source with masked \<open>bigint\<close> arithmetic.
\<close>

unbundle bit_operations_syntax

section \<open>The uuid guard\<close>

definition is_hex_or_dash :: "char \<Rightarrow> bool" where
  "is_hex_or_dash c \<longleftrightarrow> (let n = (of_char c :: nat) in
     (48 \<le> n \<and> n \<le> 57) \<or> (97 \<le> n \<and> n \<le> 102) \<or> (65 \<le> n \<and> n \<le> 70) \<or> n = 45)"

definition mk_uuid :: "string \<Rightarrow> uuid result" where
  "mk_uuid raw = (if \<not> (length raw = 36 \<and> list_all is_hex_or_dash raw) then Inl PlainError else Inr raw)"

section \<open>Ids derived from a seed\<close>

definition FNV_OFFSET :: int where "FNV_OFFSET = 0x811c9dc5"
definition FNV_PRIME :: int where "FNV_PRIME = 0x01000193"
definition WORD_MASK :: int where "WORD_MASK = 0xffffffff"

definition fnv_step :: "int \<Rightarrow> char \<Rightarrow> int" where
  "fnv_step hash c = ((hash XOR (of_char c AND 0xff)) * FNV_PRIME) AND WORD_MASK"

definition fnv1a32 :: "nat \<Rightarrow> string \<Rightarrow> int" where
  "fnv1a32 rnd input = foldl fnv_step (FNV_OFFSET XOR int rnd) input"

text \<open>\<open>toString(16)\<close> of a non-negative \<open>bigint\<close>.\<close>

definition hex_char :: "nat \<Rightarrow> char" where
  "hex_char d = (if d < 10 then char_of (48 + d) else char_of (87 + d))"

fun to_hex :: "nat \<Rightarrow> string" where
  "to_hex n = (if n < 16 then [hex_char n] else to_hex (n div 16) @ [hex_char (n mod 16)])"

declare to_hex.simps [simp del]

definition seed_word :: "string \<Rightarrow> nat \<Rightarrow> string" where
  "seed_word seed rnd = pad_start 8 (CHR ''0'') (to_hex (nat (fnv1a32 rnd seed)))"

definition uuidFromSeed :: "string \<Rightarrow> uuid result" where
  "uuidFromSeed seed =
     mk_uuid (seed_word seed 0 @ ''-'' @ take 4 (seed_word seed 1) @ ''-'' @ drop 4 (seed_word seed 1) @ ''-'' @
       take 4 (seed_word seed 2) @ ''-'' @ drop 4 (seed_word seed 2) @ seed_word seed 3)"

section \<open>The hash is FNV-1a on 32-bit words\<close>

definition fnv_word_step :: "32 word \<Rightarrow> char \<Rightarrow> 32 word" where
  "fnv_word_step h c = (h XOR of_char c) * 0x01000193"

definition fnv_word :: "nat \<Rightarrow> string \<Rightarrow> 32 word" where
  "fnv_word rnd input = foldl fnv_word_step (0x811c9dc5 XOR of_nat rnd) input"

lemma WORD_MASK_take_bit: "x AND WORD_MASK = take_bit 32 x"
  by (simp add: WORD_MASK_def take_bit_eq_mask mask_eq_exp_minus_1)

lemma char_mask: "(of_char c :: int) AND 0xff = of_char c"
proof -
  have "(of_char c :: int) AND 0xff = take_bit 8 (of_char c)"
    by (simp add: take_bit_eq_mask mask_eq_exp_minus_1)
  also have "\<dots> = of_char c" by (simp add: of_char_def take_bit_horner_sum_bit_eq)
  finally show ?thesis .
qed

lemma uint_of_char: "uint (of_char c :: 32 word) = of_char c"
proof -
  have "uint (of_char c :: 32 word) = uint (of_nat (of_char c) :: 32 word)" by (simp only: of_nat_of_char)
  also have "\<dots> = take_bit 32 (of_char c :: int)"
    by (simp only: unsigned_of_nat of_nat_take_bit) (simp add: of_nat_of_char)
  also have "\<dots> = take_bit 32 (take_bit 8 (of_char c))"
    by (simp add: of_char_def take_bit_horner_sum_bit_eq)
  finally show ?thesis by (simp add: of_char_def take_bit_horner_sum_bit_eq)
qed

lemma fnv_step_word: "fnv_step (uint h) c = uint (fnv_word_step h c)"
proof -
  have "uint (fnv_word_step h c) = take_bit 32 (uint (h XOR of_char c) * 0x01000193)"
    by (simp add: fnv_word_step_def uint_word_ariths take_bit_eq_mod)
  also have "uint (h XOR of_char c) = uint h XOR of_char c"
    by (simp add: uint_xor uint_of_char)
  finally show ?thesis
    by (simp add: fnv_step_def WORD_MASK_take_bit FNV_PRIME_def char_mask)
qed


lemma fnv_foldl_word: "foldl fnv_step (uint h) s = uint (foldl fnv_word_step h s)"
  by (induction s arbitrary: h) (simp_all add: fnv_step_word)

lemma fnv1a32_word:
  assumes "rnd < 2 ^ 32"
  shows "fnv1a32 rnd s = uint (fnv_word rnd s)"
proof -
  have "FNV_OFFSET XOR int rnd = uint (0x811c9dc5 XOR of_nat rnd :: 32 word)"
    using assms by (simp add: FNV_OFFSET_def uint_xor unsigned_of_nat take_bit_nat_eq_self flip: of_nat_take_bit)
  then show ?thesis by (simp add: fnv1a32_def fnv_word_def fnv_foldl_word)
qed

section \<open>A derived id is always well-formed\<close>

lemma hex_char_ok: "d < 16 \<Longrightarrow> is_hex_or_dash (hex_char d)"
proof -
  assume d: "d < 16"
  have "(of_char (char_of k :: char) :: nat) = k" if "k < 256" for k
    using that by (simp add: take_bit_nat_eq_self)
  then show ?thesis using d by (simp add: is_hex_or_dash_def hex_char_def Let_def)
qed

lemma to_hex_ok: "list_all is_hex_or_dash (to_hex n)"
proof (induction n rule: to_hex.induct)
  case (1 n)
  then show ?case by (subst to_hex.simps) (simp add: hex_char_ok)
qed

lemma to_hex_length: "n < 16 ^ Suc k \<Longrightarrow> length (to_hex n) \<le> Suc k"
proof (induction n arbitrary: k rule: to_hex.induct)
  case (1 n)
  show ?case
  proof (cases "n < 16")
    case False
    then obtain j where k: "k = Suc j" using "1.prems" by (cases k) auto
    then have "n div 16 < 16 ^ Suc j" using "1.prems" by (simp add: div_less_iff_less_mult)
    from "1.IH"[OF False this] False k show ?thesis by (subst to_hex.simps) simp
  qed (subst to_hex.simps, simp)
qed

lemma seed_word_shape:
  assumes "rnd < 2 ^ 32"
  shows "length (seed_word s rnd) = 8" and "list_all is_hex_or_dash (seed_word s rnd)"
proof -
  have "nat (fnv1a32 rnd s) < 2 ^ 32"
    using unsigned_less[of "fnv_word rnd s", where ?'a = nat] by (simp add: fnv1a32_word[OF assms])
  then have "length (to_hex (nat (fnv1a32 rnd s))) \<le> 8"
    using to_hex_length[of "nat (fnv1a32 rnd s)" 7] by simp
  then show "length (seed_word s rnd) = 8" by (simp add: seed_word_def pad_start_def)
  show "list_all is_hex_or_dash (seed_word s rnd)"
    using to_hex_ok by (auto simp: seed_word_def pad_start_def list_all_iff is_hex_or_dash_def[of "CHR ''0''"])
qed

text \<open>The \<open>uuid\<close> guard never rejects a derived id.\<close>

lemma uuidFromSeed_total: "\<exists>u. uuidFromSeed s = Inr u \<and> length u = 36"
proof -
  have "is_hex_or_dash (CHR ''-'')" by (simp add: is_hex_or_dash_def)
  then show ?thesis
    using seed_word_shape[of 0 s] seed_word_shape[of 1 s] seed_word_shape[of 2 s] seed_word_shape[of 3 s]
    by (auto simp: uuidFromSeed_def mk_uuid_def list_all_iff dest: in_set_takeD in_set_dropD)
qed

definition seed_id :: "string \<Rightarrow> uuid" where
  "seed_id s = projr (uuidFromSeed s)"

lemma uuidFromSeed_seed_id [simp]: "uuidFromSeed s = Inr (seed_id s)"
  using uuidFromSeed_total[of s] by (auto simp: seed_id_def)

end
