(* ===== verification/Js_Date.thy ===== *)
theory Js_Date
  imports Prelude
begin

text \<open>
  The UTC calendar of ECMAScript dates, as far as the lanes use it: the component getters,
  \<open>Date.UTC\<close>, \<open>setUTCDate\<close> and \<open>toISOString\<close>. Time values are integers (milliseconds
  since the epoch) inside the range of valid dates.
\<close>

definition ms_per_day :: int where "ms_per_day = 86400000"

definition day_of :: "date \<Rightarrow> int" where "day_of t = t div ms_per_day"

definition time_in_day :: "date \<Rightarrow> int" where "time_in_day t = t mod ms_per_day"

section \<open>Years\<close>

text \<open>The number of the first day of a year (day 0 is 1 January 1970).\<close>

definition day_from_year :: "int \<Rightarrow> int" where
  "day_from_year y = 365 * (y - 1970) + (y - 1969) div 4 - (y - 1901) div 100 + (y - 1601) div 400"

text \<open>The year a day falls in: an estimate from the mean year length, corrected by one.\<close>

definition year_of_day :: "int \<Rightarrow> int" where
  "year_of_day n = (let y = 1970 + n * 400 div 146097 in
     if day_from_year (y + 1) \<le> n then y + 1 else if day_from_year y \<le> n then y else y - 1)"

definition leap_year :: "int \<Rightarrow> bool" where
  "leap_year y \<longleftrightarrow> y mod 4 = 0 \<and> (y mod 100 \<noteq> 0 \<or> y mod 400 = 0)"

section \<open>Months\<close>

definition month_lengths :: "int \<Rightarrow> int list" where
  "month_lengths y = [31, if leap_year y then 29 else 28, 31, 30, 31, 30, 31, 31, 30, 31, 30, 31]"

definition days_in_month :: "int \<Rightarrow> int \<Rightarrow> int" where
  "days_in_month y m = month_lengths y ! nat m"

text \<open>Month (from 0) and day of the month (from 1) of a day in a year.\<close>

fun split_month :: "int list \<Rightarrow> int \<Rightarrow> int \<Rightarrow> int \<times> int" where
  "split_month [] m n = (m, n + 1)"
| "split_month (l # ls) m n = (if n < l then (m, n + 1) else split_month ls (m + 1) (n - l))"

definition civil_of_day :: "int \<Rightarrow> int \<times> int \<times> int" where
  "civil_of_day n = (let y = year_of_day n in (y, split_month (month_lengths y) 0 (n - day_from_year y)))"

definition getUTCFullYear :: "date \<Rightarrow> int" where
  "getUTCFullYear t = fst (civil_of_day (day_of t))"

definition getUTCMonth :: "date \<Rightarrow> int" where
  "getUTCMonth t = fst (snd (civil_of_day (day_of t)))"

definition getUTCDate :: "date \<Rightarrow> int" where
  "getUTCDate t = snd (snd (civil_of_day (day_of t)))"

text \<open>The day number of a year, a month (any integer, from 0) and a day of the month.\<close>

definition make_day :: "int \<Rightarrow> int \<Rightarrow> int \<Rightarrow> int" where
  "make_day y m d = (let ym = y + m div 12 in
     day_from_year ym + sum_list (take (nat (m mod 12)) (month_lengths ym)) + d - 1)"

text \<open>\<open>Date.UTC(y, m, d, ...)\<close>, the time of day given in milliseconds.\<close>

definition date_UTC :: "int \<Rightarrow> int \<Rightarrow> int \<Rightarrow> int \<Rightarrow> date" where
  "date_UTC y m d t = make_day (if 0 \<le> y \<and> y \<le> 99 then 1900 + y else y) m d * ms_per_day + t"

definition setUTCDate :: "date \<Rightarrow> int \<Rightarrow> date" where
  "setUTCDate t d = make_day (getUTCFullYear t) (getUTCMonth t) d * ms_per_day + time_in_day t"

section \<open>\<open>toISOString\<close>\<close>

definition pad_num :: "nat \<Rightarrow> int \<Rightarrow> string" where
  "pad_num w n = pad_start w (CHR ''0'') (int_to_string n)"

definition iso_year :: "int \<Rightarrow> string" where
  "iso_year y = (if 0 \<le> y \<and> y \<le> 9999 then pad_num 4 y
     else if y < 0 then ''-'' @ pad_num 6 (- y) else ''+'' @ pad_num 6 y)"

definition toISOString :: "date \<Rightarrow> string" where
  "toISOString t = (case civil_of_day (day_of t) of (y, m, d) \<Rightarrow> let r = time_in_day t in
     iso_year y @ ''-'' @ pad_num 2 (m + 1) @ ''-'' @ pad_num 2 d @ ''T'' @
     pad_num 2 (r div 3600000) @ '':'' @ pad_num 2 (r div 60000 mod 60) @ '':'' @
     pad_num 2 (r div 1000 mod 60) @ ''.'' @ pad_num 3 (r mod 1000) @ ''Z'')"

section \<open>Padded numbers\<close>

lemma nat_to_string_length: "0 < w \<Longrightarrow> n < 10 ^ w \<Longrightarrow> length (nat_to_string n) \<le> w"
proof (induction w arbitrary: n)
  case (Suc w)
  show ?case
  proof (cases "n < 10")
    case False
    then have "0 < w" using Suc.prems by (cases w) simp_all
    moreover have "n div 10 < 10 ^ w" using Suc.prems(2) by (simp add: less_mult_imp_div_less)
    ultimately have "length (nat_to_string (n div 10)) \<le> w" by (rule Suc.IH)
    then show ?thesis using False by (subst nat_to_string.simps) simp
  qed (subst nat_to_string.simps, simp)
qed simp

lemma nat_of_digits_pad: "nat_of_digits (replicate k (CHR ''0'') @ s) = nat_of_digits s"
proof -
  have "foldl (\<lambda>acc c. acc * 10 + digit_val c) 0 (replicate k (CHR ''0'')) = 0"
    by (induction k) (simp_all add: digit_val_def)
  then show ?thesis by (simp add: nat_of_digits_def)
qed

lemma pad_num_digits:
  assumes "0 < w" and "0 \<le> n" and "n < 10 ^ w"
  shows "length (pad_num w n) = w \<and> list_all is_digit (pad_num w n) \<and> nat_of_digits (pad_num w n) = nat n"
proof -
  have "nat n < 10 ^ w" using assms(2,3) by (simp add: nat_less_iff)
  from nat_to_string_length[OF assms(1) this] have "length (nat_to_string (nat n)) \<le> w" .
  moreover have "is_digit (CHR ''0'')" by code_simp
  ultimately show ?thesis
    using assms(2) nat_to_string_digits[of "nat n"]
    by (auto simp: pad_num_def pad_start_def int_to_string_def nat_of_digits_pad list_all_iff)
qed

section \<open>The calendar is consistent\<close>

lemma div_succ:
  fixes x k :: int
  assumes "0 < k"
  shows "(x + 1) div k = x div k + (if (x + 1) mod k = 0 then 1 else 0)"
proof -
  define q r where "q = x div k" and "r = x mod k"
  have x: "x = k * q + r" by (simp add: q_def r_def)
  have r: "0 \<le> r" "r < k" using assms by (simp_all add: r_def)
  show ?thesis
  proof (cases "r + 1 = k")
    case True
    then have "x + 1 = k * (q + 1)" using x by (simp add: distrib_left)
    then show ?thesis using assms by (simp flip: q_def)
  next
    case False
    with r have "0 \<le> r + 1" "r + 1 < k" by simp_all
    moreover have "x + 1 = k * q + (r + 1)" using x by simp
    ultimately have "(x + 1) div k = q" "(x + 1) mod k = r + 1"
      using int_div_pos_eq int_mod_pos_eq by blast+
    then show ?thesis using r by (simp flip: q_def)
  qed
qed

lemma div_step:
  fixes y k c j :: int
  assumes "0 < k" and c: "c = k * j + 1"
  shows "(y + 1 - c) div k = (y - c) div k + (if y mod k = 0 then 1 else 0)"
proof -
  have "(y - c + 1) mod k = y mod k" using mod_mult_self2[of "y - k * j" k j] by (simp add: c)
  then show ?thesis using div_succ[OF assms(1), of "y - c"] by (simp add: algebra_simps)
qed

lemma year_length: "day_from_year (y + 1) = day_from_year y + (if leap_year y then 366 else 365)"
proof -
  have arith: "365 * (y + 1 - 1970) + (A + (if p then 1 else 0)) - (B + (if q then 1 else 0)) +
      (C + (if r then 1 else 0)) =
    365 * (y - 1970) + A - B + C + (if p \<and> (\<not> q \<or> r) then 366 else 365)"
    if "r \<longrightarrow> q" "q \<longrightarrow> p" for A B C :: int and p q r :: bool
    using that by (cases p; cases q; cases r) simp_all
  have four: "(1969::int) = 4 * 492 + 1" and hundred: "(1901::int) = 100 * 19 + 1"
    and fourhundred: "(1601::int) = 400 * 4 + 1" by simp_all
  have "y mod 400 = 0 \<longrightarrow> y mod 100 = 0" "y mod 100 = 0 \<longrightarrow> y mod 4 = 0"
    using dvd_trans[of 100 400 y] dvd_trans[of 4 100 y] by (simp_all add: mod_eq_0_iff_dvd)
  from arith[OF this] show ?thesis
    by (simp only: day_from_year_def leap_year_def div_step[OF _ four] div_step[OF _ hundred]
        div_step[OF _ fourhundred] zero_less_numeral)
qed

lemma day_from_year_mono: "y < z \<Longrightarrow> day_from_year y < day_from_year z"
proof (induction "nat (z - y - 1)" arbitrary: z)
  case 0
  then have "z = y + 1" by simp
  then show ?case by (simp add: year_length)
next
  case (Suc n)
  then have "n = nat ((z - 1) - y - 1)" "y < z - 1" by simp_all
  from Suc.hyps(1)[OF this] year_length[of "z - 1"] show ?case by (simp split: if_splits)
qed

lemma div_floor_bounds: "0 < k \<Longrightarrow> k * (x div k) \<le> x \<and> x < k * (x div k) + k" for x k :: int
  using pos_mod_bound[of k x] pos_mod_sign[of k x] mult_div_mod_eq[of k x] by linarith

lemma day_from_year_mean:
  "400 * day_from_year y \<le> 146097 * (y - 1970) + 900" "146097 * (y - 1970) - 900 \<le> 400 * day_from_year y"
proof -
  note b = div_floor_bounds[of 4 "y - 1969"] div_floor_bounds[of 100 "y - 1901"] div_floor_bounds[of 400 "y - 1601"]
  show "400 * day_from_year y \<le> 146097 * (y - 1970) + 900"
    "146097 * (y - 1970) - 900 \<le> 400 * day_from_year y"
    using b by (simp_all add: day_from_year_def)
qed

lemma year_of_day_bounds: "day_from_year (year_of_day n) \<le> n" "n < day_from_year (year_of_day n + 1)"
proof -
  define q where "q = n * 400 div 146097"
  have q: "146097 * q \<le> n * 400" "n * 400 < 146097 * q + 146097"
    using div_floor_bounds[of 146097 "n * 400"] by (simp_all add: q_def)
  have "day_from_year (1969 + q) \<le> n" using day_from_year_mean(1)[of "1969 + q"] q by simp
  moreover have "n < day_from_year (1972 + q)" using day_from_year_mean(2)[of "1972 + q"] q by simp
  ultimately show "day_from_year (year_of_day n) \<le> n" "n < day_from_year (year_of_day n + 1)"
    by (simp_all add: year_of_day_def Let_def flip: q_def)
qed

lemma year_of_day_eq:
  assumes "day_from_year y \<le> n" and "n < day_from_year (y + 1)"
  shows "year_of_day n = y"
proof (rule ccontr)
  assume "year_of_day n \<noteq> y"
  then consider "year_of_day n + 1 \<le> y" | "y + 1 \<le> year_of_day n" by linarith
  then show False
  proof cases
    case 1
    then have "day_from_year (year_of_day n + 1) \<le> day_from_year y"
      using day_from_year_mono[of "year_of_day n + 1" y] by (cases "year_of_day n + 1 = y") simp_all
    with year_of_day_bounds(2)[of n] assms(1) show False by simp
  next
    case 2
    then have "day_from_year (y + 1) \<le> day_from_year (year_of_day n)"
      using day_from_year_mono[of "y + 1" "year_of_day n"] by (cases "y + 1 = year_of_day n") simp_all
    with year_of_day_bounds(1)[of n] assms(2) show False by simp
  qed
qed

lemma split_month_take:
  assumes "k < length ls" and "\<forall>l \<in> set ls. 0 \<le> l" and "1 \<le> d" and "d \<le> ls ! k"
  shows "split_month ls m (sum_list (take k ls) + d - 1) = (m + int k, d)"
    and "0 \<le> sum_list (take k ls) + d - 1" and "sum_list (take k ls) + d - 1 < sum_list ls"
proof -
  have "split_month ls m (sum_list (take k ls) + d - 1) = (m + int k, d) \<and>
    0 \<le> sum_list (take k ls) + d - 1 \<and> sum_list (take k ls) + d - 1 < sum_list ls"
    using assms
  proof (induction ls arbitrary: k m)
    case (Cons l ls)
    show ?case
    proof (cases k)
      case 0
      have "0 \<le> sum_list ls" using Cons.prems(2) by (auto intro!: sum_list_nonneg)
      with 0 Cons.prems show ?thesis by simp
    next
      case (Suc j)
      with Cons.IH[of j "m + 1"] Cons.prems show ?thesis by (simp add: algebra_simps)
    qed
  qed simp
  then show "split_month ls m (sum_list (take k ls) + d - 1) = (m + int k, d)"
    "0 \<le> sum_list (take k ls) + d - 1" "sum_list (take k ls) + d - 1 < sum_list ls" by simp_all
qed

lemma month_lengths_facts:
  "length (month_lengths y) = 12" "\<forall>l \<in> set (month_lengths y). 0 \<le> l"
  "day_from_year (y + 1) = day_from_year y + sum_list (month_lengths y)"
  by (simp_all add: month_lengths_def year_length)

text \<open>A calendar day has the components it was made from.\<close>

lemma civil_make_day:
  assumes "1 \<le> d" and "d \<le> days_in_month (y + m div 12) (m mod 12)"
  shows "civil_of_day (make_day y m d) = (y + m div 12, m mod 12, d)"
proof -
  let ?y = "y + m div 12" and ?k = "nat (m mod 12)"
  let ?n = "sum_list (take ?k (month_lengths ?y)) + d - 1"
  have k: "?k < length (month_lengths ?y)" by (simp add: month_lengths_facts nat_less_iff)
  note s = split_month_take[OF k month_lengths_facts(2) assms(1) assms(2)[unfolded days_in_month_def]]
  have md: "make_day y m d = day_from_year ?y + ?n" by (simp add: make_day_def Let_def)
  then have "year_of_day (make_day y m d) = ?y"
    using s(2,3) by (intro year_of_day_eq) (simp_all add: month_lengths_facts(3))
  then show ?thesis using md s(1)[of 0] by (simp add: civil_of_day_def)
qed

lemma split_month_bounds:
  assumes "0 \<le> n" and "n < sum_list ls"
  obtains k where "k < length ls" and "fst (split_month ls m n) = m + int k"
    and "1 \<le> snd (split_month ls m n)" and "snd (split_month ls m n) \<le> ls ! k"
proof -
  have "\<exists>k < length ls. fst (split_month ls m n) = m + int k \<and>
    1 \<le> snd (split_month ls m n) \<and> snd (split_month ls m n) \<le> ls ! k"
    using assms
  proof (induction ls arbitrary: m n)
    case (Cons l ls)
    show ?case
    proof (cases "n < l")
      case True
      with Cons.prems show ?thesis by (intro exI[of _ 0]) simp
    next
      case False
      with Cons.prems have "0 \<le> n - l" "n - l < sum_list ls" by simp_all
      from Cons.IH[OF this, of "m + 1"] obtain k where "k < length ls"
        "fst (split_month ls (m + 1) (n - l)) = m + 1 + int k"
        "1 \<le> snd (split_month ls (m + 1) (n - l))" "snd (split_month ls (m + 1) (n - l)) \<le> ls ! k" by auto
      with False show ?thesis by (intro exI[of _ "Suc k"]) simp
    qed
  qed simp
  then show thesis using that by blast
qed

text \<open>The components of every date are in range.\<close>

lemma getUTC_bounds:
  "0 \<le> getUTCMonth t" "getUTCMonth t \<le> 11" "1 \<le> getUTCDate t"
  "getUTCDate t \<le> days_in_month (getUTCFullYear t) (getUTCMonth t)"
proof -
  let ?n = "day_of t"
  let ?y = "year_of_day ?n"
  have "0 \<le> ?n - day_from_year ?y" "?n - day_from_year ?y < sum_list (month_lengths ?y)"
    using year_of_day_bounds[of ?n] by (simp_all add: month_lengths_facts(3))
  from split_month_bounds[OF this, of 0] obtain k where
    k: "k < length (month_lengths ?y)" "getUTCMonth t = int k" "1 \<le> getUTCDate t"
      "getUTCDate t \<le> month_lengths ?y ! k" "getUTCFullYear t = ?y"
    by (auto simp: getUTCMonth_def getUTCDate_def getUTCFullYear_def civil_of_day_def Let_def)
  then show "0 \<le> getUTCMonth t" "getUTCMonth t \<le> 11" "1 \<le> getUTCDate t"
    "getUTCDate t \<le> days_in_month (getUTCFullYear t) (getUTCMonth t)"
    by (simp_all add: month_lengths_facts days_in_month_def)
qed

lemma days_in_month_pos:
  assumes "0 \<le> m" and "m \<le> 11"
  shows "28 \<le> days_in_month y m"
proof -
  have "nat m < length (month_lengths y)" using assms by (simp add: month_lengths_facts nat_less_iff)
  then have "days_in_month y m \<in> set (month_lengths y)" by (simp add: days_in_month_def)
  then show ?thesis by (auto simp: month_lengths_def split: if_splits)
qed

text \<open>Day 0 of a month is the last day of the month before.\<close>

lemma make_day_zero:
  assumes "0 \<le> m" and "m \<le> 11"
  shows "make_day y (m + 1) 0 = make_day y m (days_in_month y m)"
proof (cases "m = 11")
  case True
  have "make_day y 12 0 = day_from_year (y + 1) - 1" by (simp add: make_day_def Let_def)
  moreover have "make_day y 11 (days_in_month y 11) = day_from_year y + sum_list (month_lengths y) - 1"
    by (simp add: make_day_def Let_def days_in_month_def month_lengths_def)
  ultimately show ?thesis using True month_lengths_facts(3)[of y] by simp
next
  case False
  with assms have "m div 12 = 0" "(m + 1) div 12 = 0" "m mod 12 = m" "(m + 1) mod 12 = m + 1" by simp_all
  moreover have "take (nat (m + 1)) (month_lengths y) = take (nat m) (month_lengths y) @ [month_lengths y ! nat m]"
    using assms by (simp add: nat_add_distrib take_Suc_conv_app_nth month_lengths_facts)
  ultimately show ?thesis by (simp add: make_day_def days_in_month_def)
qed

lemma time_in_day_bounds: "0 \<le> time_in_day t" "time_in_day t < ms_per_day"
  by (simp_all add: time_in_day_def ms_per_day_def)

lemma made_date:
  assumes "0 \<le> u" and "u < ms_per_day"
  shows "day_of (n * ms_per_day + u) = n" and "time_in_day (n * ms_per_day + u) = u"
  using assms by (simp_all add: day_of_def time_in_day_def)

end
