(* ===== verification/Engine.thy ===== *)
theory Engine
  imports Strategies Ids Js_Date
begin

text \<open>
  The allocation engine (\<open>src/src/domain/allocation/engine.ts\<close>): a source of funds and a
  strategy become append-only allocation rows and \<open>allocation.*\<close> events
  (\<open>events.ts\<close>), and a row is undone by a compensating row.
\<close>

section \<open>Events\<close>

datatype allocation_payload =
    AllocationExecuted uuid source_type uuid uuid int strategy
  | AllocationReversed uuid string uuid

type_synonym allocation_event = "(allocation_payload, string) domain_event"

definition allocation_emit :: "string \<Rightarrow> uuid \<Rightarrow> allocation_payload \<Rightarrow> date \<Rightarrow> allocation_event" where
  "allocation_emit name aggregateId payload now =
     \<lparr>ev_name = name, ev_version = 1, ev_aggregateId = aggregateId, ev_payload = payload,
      ev_occurredAt = toISOString now\<rparr>"

definition allocationExecutedEvent ::
  "uuid \<Rightarrow> source_type \<Rightarrow> uuid \<Rightarrow> uuid \<Rightarrow> int \<Rightarrow> strategy \<Rightarrow> date \<Rightarrow> allocation_event" where
  "allocationExecutedEvent allocationId sty sid receivableId amountMinor strat now =
     allocation_emit ''allocation.executed'' allocationId
       (AllocationExecuted allocationId sty sid receivableId amountMinor strat) now"

definition allocationReversedEvent :: "uuid \<Rightarrow> string \<Rightarrow> uuid \<Rightarrow> date \<Rightarrow> allocation_event" where
  "allocationReversedEvent allocationId reason compensatingId now =
     allocation_emit ''allocation.reversed'' allocationId (AllocationReversed allocationId reason compensatingId) now"

section \<open>Executing a plan\<close>

record allocation_execution =
  ae_allocations :: "allocation list"
  ae_events :: "allocation_event list"
  ae_unapplied :: money

definition planWithStrategy ::
  "strategy \<Rightarrow> money \<Rightarrow> allocatable list \<Rightarrow> declared_split option \<Rightarrow> strategy_plan list result" where
  "planWithStrategy strat funds receivables declared =
     (if strat = Fifo then allocateOldestFirst funds receivables
      else if strat = Pro_Rata then allocateProRata funds receivables
      else case declared of None \<Rightarrow> throw ''ALLOCATION_DECLARATION_REQUIRED''
         | Some d \<Rightarrow> allocateExplicit funds receivables d)"

definition nextSequenceNo :: "allocation list \<Rightarrow> uuid \<Rightarrow> source_type \<Rightarrow> int" where
  "nextSequenceNo rows sid sty =
     foldl (\<lambda>mx row. if al_sequenceNo row > mx then al_sequenceNo row else mx) 0
       (filter (\<lambda>row. al_sourceId row = sid \<and> al_sourceType row = sty) rows) + 1"

definition allocation_seed :: "allocation_source \<Rightarrow> strategy \<Rightarrow> int \<Rightarrow> strategy_plan \<Rightarrow> string" where
  "allocation_seed source strat sequenceNo plan =
     ''allocation:'' @ source_type_code (as_sourceType source) @ '':'' @ as_sourceId source @ '':'' @
     strategy_code strat @ '':'' @ int_to_string sequenceNo @ '':'' @ sp_receivableId plan @ '':'' @
     int_to_string (m_amount (sp_amount plan))"

definition build_allocation ::
  "allocation_source \<Rightarrow> strategy \<Rightarrow> date \<Rightarrow> int \<Rightarrow> nat \<times> strategy_plan \<Rightarrow> allocation result" where
  "build_allocation source strat allocatedAt base ip = (case ip of (index, plan) \<Rightarrow>
     let sequenceNo = base + int index in
     and_then (uuidFromSeed (allocation_seed source strat sequenceNo plan)) (\<lambda>rowId.
       allocationOf rowId (as_sourceType source) (as_sourceId source) (sp_receivableId plan)
         (sp_amount plan) strat sequenceNo allocatedAt None))"

definition execution_events :: "allocation list \<Rightarrow> clock \<Rightarrow> allocation_event list" where
  "execution_events rows clk = map (\<lambda>(i, row).
     allocationExecutedEvent (al_id row) (al_sourceType row) (al_sourceId row) (al_receivableId row)
       (m_amount (al_amountMinor row)) (al_strategy row) (clk i)) (enumerate 0 rows)"

definition execute_plan ::
  "allocation_source \<Rightarrow> strategy \<Rightarrow> clock \<Rightarrow> allocation list \<Rightarrow> strategy_plan list \<Rightarrow> allocation_execution result" where
  "execute_plan source strat clk existing plans =
     (let allocated = foldl (\<lambda>sum plan. sum + m_amount (sp_amount plan)) 0 plans in
      if allocated > m_amount (as_available source) then throw ''ALLOCATION_EXCEEDS_AVAILABLE''
      else let allocatedAt = clk 0; base = nextSequenceNo existing (as_sourceId source) (as_sourceType source) in
        and_then (traverse (build_allocation source strat allocatedAt base) (enumerate 0 plans)) (\<lambda>allocations.
        let events = execution_events allocations (clock_after 1 clk) in
        and_then (unappliedRemainder (as_available source) allocations) (\<lambda>unapplied.
          Inr \<lparr>ae_allocations = allocations, ae_events = events, ae_unapplied = unapplied\<rparr>)))"

definition executeAllocation ::
  "allocation_source \<Rightarrow> allocatable list \<Rightarrow> strategy \<Rightarrow> clock \<Rightarrow> declared_split option \<Rightarrow> allocation list \<Rightarrow>
     allocation_execution result" where
  "executeAllocation source receivables strat clk declared existing =
     (if strat \<noteq> Explicit \<and> declared \<noteq> None then throw ''ALLOCATION_DECLARATION_NOT_ALLOWED''
      else if m_currency (as_available source) \<noteq> as_currency source then throw ''CURRENCY_MISMATCH''
      else and_then (planWithStrategy strat (as_available source) receivables declared)
        (execute_plan source strat clk existing))"

section \<open>Reversing a row\<close>

record allocation_reversal =
  rv_original :: allocation
  rv_compensating :: allocation
  rv_events :: "allocation_event list"

definition reverseAllocation ::
  "allocation \<Rightarrow> string \<Rightarrow> clock \<Rightarrow> int option \<Rightarrow> allocation_reversal result" where
  "reverseAllocation original reason clk sequenceNo =
     (let trimmed = trim reason in
      if trimmed = [] then throw ''REVERSAL_REASON_REQUIRED''
      else if al_reversedAt original \<noteq> None then throw ''ALLOCATION_ALREADY_REVERSED''
      else if al_reversalOf original \<noteq> None then throw ''ALLOCATION_REVERSAL_NOT_ALLOWED''
      else let reversedAt = clk 0 in
        and_then (uuidFromSeed (''allocation-reversal:'' @ al_id original)) (\<lambda>compensatingId.
        and_then (allocationOf compensatingId (al_sourceType original) (al_sourceId original)
            (al_receivableId original) (al_amountMinor original) (al_strategy original)
            (case sequenceNo of None \<Rightarrow> al_sequenceNo original | Some s \<Rightarrow> s) reversedAt (Some (al_id original)))
          (\<lambda>compensating.
            Inr \<lparr>rv_original = original\<lparr>al_reversedAt := Some reversedAt\<rparr>, rv_compensating = compensating,
              rv_events = [allocationReversedEvent (al_id original) trimmed (al_id compensating) (clk 1)]\<rparr>)))"

section \<open>Rows of an executed plan\<close>

text \<open>The row leg number \<open>i\<close> of a plan becomes.\<close>

definition planned_row :: "allocation_source \<Rightarrow> strategy \<Rightarrow> date \<Rightarrow> int \<Rightarrow> nat \<times> strategy_plan \<Rightarrow> allocation" where
  "planned_row source strat t base ip = (case ip of (i, p) \<Rightarrow>
     \<lparr>al_id = seed_id (allocation_seed source strat (base + int i) p), al_sourceType = as_sourceType source,
      al_sourceId = as_sourceId source, al_receivableId = sp_receivableId p, al_amountMinor = sp_amount p,
      al_strategy = strat, al_sequenceNo = base + int i, al_allocatedAt = t, al_reversedAt = None, al_reversalOf = None\<rparr>)"

lemma build_allocation_row:
  assumes "isPositive (sp_amount p)" and "1 \<le> base"
  shows "build_allocation source strat t base (i, p) = Inr (planned_row source strat t base (i, p))"
  using assms by (simp add: build_allocation_def planned_row_def allocationOf_def Let_def)

lemma build_allocations:
  assumes "\<forall>p \<in> set plans. isPositive (sp_amount p)" and "1 \<le> base"
  shows "traverse (build_allocation source strat t base) (enumerate k plans) =
    Inr (map (planned_row source strat t base) (enumerate k plans))"
proof (rule traverse_total)
  fix ip assume "ip \<in> set (enumerate k plans)"
  then have "snd ip \<in> set plans" by (metis enumerate_eq_zip prod.collapse set_zip_rightD)
  then obtain i p where "ip = (i, p)" "p \<in> set plans" by (cases ip) simp
  with assms show "build_allocation source strat t base ip = Inr (planned_row source strat t base ip)"
    by (simp add: build_allocation_row)
qed

lemma max_fold_mono:
  "m \<le> foldl (\<lambda>mx row. if al_sequenceNo row > mx then al_sequenceNo row else mx) m rows"
proof (induction rows arbitrary: m)
  case (Cons row rows)
  from Cons.IH[of "if al_sequenceNo row > m then al_sequenceNo row else m"] show ?case
    by (simp split: if_splits)
qed simp

lemma max_fold_upper:
  "row \<in> set rows \<Longrightarrow>
     al_sequenceNo row \<le> foldl (\<lambda>mx row. if al_sequenceNo row > mx then al_sequenceNo row else mx) m rows"
proof (induction rows arbitrary: m)
  case (Cons x rows)
  then show ?case
    using max_fold_mono[of "if al_sequenceNo x > m then al_sequenceNo x else m" rows]
    by (auto split: if_splits)
qed simp

lemma nextSequenceNo_ge_1: "1 \<le> nextSequenceNo rows sid sty"
  using max_fold_mono[of 0] by (simp add: nextSequenceNo_def)

text \<open>A new row's number is above every number the source already used.\<close>

lemma nextSequenceNo_fresh:
  assumes "row \<in> set rows" and "al_sourceId row = sid" and "al_sourceType row = sty"
  shows "al_sequenceNo row < nextSequenceNo rows sid sty"
  using max_fold_upper[of row "filter (\<lambda>row. al_sourceId row = sid \<and> al_sourceType row = sty) rows" 0] assms
  by (simp add: nextSequenceNo_def)

lemma active_total_planned:
  "active_total (map (planned_row source strat t base) (enumerate k plans)) = legs_total plans"
  by (induction plans arbitrary: k) (simp_all add: planned_row_def isActive_def)

section \<open>The engine on any strategy that keeps the contract\<close>

definition execution_ok ::
  "allocation_source \<Rightarrow> allocatable list \<Rightarrow> strategy \<Rightarrow> clock \<Rightarrow> allocation list \<Rightarrow> strategy_plan list \<Rightarrow>
     allocation_execution \<Rightarrow> bool" where
  "execution_ok source receivables strat clk existing plans ex \<longleftrightarrow>
     (let base = nextSequenceNo existing (as_sourceId source) (as_sourceType source) in
      ae_allocations ex = map (planned_row source strat (clk 0) base) (enumerate 0 plans) \<and>
      ae_events ex = execution_events (ae_allocations ex) (clock_after 1 clk) \<and>
      ae_unapplied ex = mk_money (m_amount (as_available source) - legs_total plans) (m_currency (as_available source)) \<and>
      legs_ok (as_available source) receivables plans)"

context allocation_strategy
begin

lemma execute_ok:
  assumes "admissible (as_available source) receivables"
    and "plan_for (as_available source) receivables = Inr plans"
  shows "\<exists>ex. execute_plan source strat clk existing plans = Inr ex \<and>
    execution_ok source receivables strat clk existing plans ex"
proof -
  have ok: "legs_ok (as_available source) receivables plans" by (rule plan_legs_ok[OF assms])
  have pos: "\<forall>p \<in> set plans. isPositive (sp_amount p)" using ok by (auto simp: legs_ok_def leg_fits_def)
  have total: "foldl (\<lambda>sum plan. sum + m_amount (sp_amount plan)) 0 plans = legs_total plans"
    by (simp add: legs_total_def foldl_plus_sum_list)
  show ?thesis
    using ok unfolding execute_plan_def total
    by (simp add: build_allocations[OF pos nextSequenceNo_ge_1] Let_def unappliedRemainder_eq
        active_total_planned legs_ok_def execution_ok_def)
qed

end

lemma execution_ok_row:
  assumes "execution_ok source receivables strat clk existing plans ex" and "row \<in> set (ae_allocations ex)"
  shows "isActive row \<and> isPositive (al_amountMinor row) \<and> al_sourceId row = as_sourceId source \<and>
    al_sourceType row = as_sourceType source \<and> m_currency (al_amountMinor row) = m_currency (as_available source) \<and>
    (\<exists>r \<in> set receivables. ar_receivableId r = al_receivableId row \<and>
      (\<exists>b. alloc_balanceOf r = Inr b \<and> m_amount (al_amountMinor row) \<le> m_amount b))"
proof -
  from assms obtain i p where row: "row = planned_row source strat (clk 0)
      (nextSequenceNo existing (as_sourceId source) (as_sourceType source)) (i, p)"
    and "(i, p) \<in> set (enumerate 0 plans)"
    by (auto simp: execution_ok_def Let_def)
  then have "p \<in> set plans" by (simp add: enumerate_eq_zip set_zip_rightD)
  with assms(1) have "leg_fits (m_currency (as_available source)) receivables p"
    by (simp add: execution_ok_def Let_def legs_ok_def)
  then show ?thesis by (auto simp: row planned_row_def isActive_def leg_fits_def)
qed

lemma execution_ok_total:
  "execution_ok source receivables strat clk existing plans ex \<Longrightarrow>
     active_total (ae_allocations ex) + m_amount (ae_unapplied ex) = m_amount (as_available source) \<and>
     0 \<le> m_amount (ae_unapplied ex)"
  by (auto simp: execution_ok_def Let_def active_total_planned legs_ok_def)

lemma execution_ok_sequence:
  "execution_ok source receivables strat clk existing plans ex \<Longrightarrow> i < length (ae_allocations ex) \<Longrightarrow>
     al_sequenceNo (ae_allocations ex ! i) =
       nextSequenceNo existing (as_sourceId source) (as_sourceType source) + int i"
  by (auto simp: execution_ok_def Let_def planned_row_def nth_enumerate_eq)

lemma execution_ok_legs:
  assumes "execution_ok source receivables strat clk existing plans ex"
  shows "map (\<lambda>row. (al_receivableId row, al_amountMinor row)) (ae_allocations ex) =
    map (\<lambda>p. (sp_receivableId p, sp_amount p)) plans"
proof -
  have "map (\<lambda>row. (al_receivableId row, al_amountMinor row)) (map (planned_row source strat t base) (enumerate k ps)) =
      map (\<lambda>p. (sp_receivableId p, sp_amount p)) ps" for t base k ps
    by (induction ps arbitrary: k) (simp_all add: planned_row_def)
  with assms show ?thesis by (simp add: execution_ok_def Let_def del: map_map)
qed

lemma execution_ok_receivables:
  assumes "execution_ok source receivables strat clk existing plans ex"
  shows "distinct (map al_receivableId (ae_allocations ex))"
proof -
  from execution_ok_legs[OF assms] have "map al_receivableId (ae_allocations ex) = map sp_receivableId plans"
    by (metis (no_types, lifting) comp_apply fst_conv list.map_comp map_eq_conv)
  with assms show ?thesis by (simp add: execution_ok_def Let_def legs_ok_def)
qed

text \<open>The inputs of an execution the contract covers, per strategy.\<close>

fun engine_admissible :: "strategy \<Rightarrow> money \<Rightarrow> allocatable list \<Rightarrow> declared_split option \<Rightarrow> bool" where
  "engine_admissible Fifo funds receivables declared = money_ok funds"
| "engine_admissible Pro_Rata funds receivables declared = pro_rata_admissible funds receivables"
| "engine_admissible Explicit funds receivables declared = (case declared of None \<Rightarrow> True | Some d \<Rightarrow> declared_ok d)"

lemma executeAllocation_planned:
  assumes "executeAllocation source receivables strat clk declared existing = Inr ex"
    and "engine_admissible strat (as_available source) receivables declared"
  obtains plans where "planWithStrategy strat (as_available source) receivables declared = Inr plans"
    and "execution_ok source receivables strat clk existing plans ex"
proof -
  from assms(1) obtain plans where plans: "planWithStrategy strat (as_available source) receivables declared = Inr plans"
    and run: "execute_plan source strat clk existing plans = Inr ex"
    by (auto simp: executeAllocation_def result_simps)
  have "\<exists>ex. execute_plan source strat clk existing plans = Inr ex \<and>
    execution_ok source receivables strat clk existing plans ex"
  proof (cases strat)
    case Fifo
    then show ?thesis using plans assms(2) by (intro fifo.execute_ok) (simp_all add: planWithStrategy_def)
  next
    case Explicit
    then show ?thesis using plans assms(2) explicit.execute_ok
      by (auto simp: planWithStrategy_def split: option.splits)
  next
    case Pro_Rata
    then show ?thesis using plans assms(2) by (intro pro_rata.execute_ok) (simp_all add: planWithStrategy_def)
  qed
  with run plans show ?thesis using that by auto
qed

lemma executeAllocation_ok:
  assumes "executeAllocation source receivables strat clk declared existing = Inr ex"
    and "engine_admissible strat (as_available source) receivables declared"
  obtains plans where "execution_ok source receivables strat clk existing plans ex"
  using executeAllocation_planned[OF assms] by blast

section \<open>Properties of the engine\<close>

text \<open>
  C2. Allocation safety (R1 and R2): whatever the strategy, an execution that returns carries
  out its plan, one row per planned leg with the receivable and the amount of the leg, in the
  order of the plan. Its rows and the unapplied rest are the available funds without losing a
  cent; every row is active, names the source, is positive, in the currency of the funds, goes
  to one of the receivables and fits its outstanding balance; no receivable is hit twice, and
  the rows carry consecutive sequence numbers above every number the source has used. The
  amounts are within \<open>2 ^ 52\<close> minor units for pro rata; a declared split has distinct keys.
\<close>

theorem executeAllocation_conserves:
  assumes "executeAllocation source receivables strat clk declared existing = Inr ex"
    and "engine_admissible strat (as_available source) receivables declared"
  shows "(\<exists>plans. planWithStrategy strat (as_available source) receivables declared = Inr plans \<and>
      map (\<lambda>row. (al_receivableId row, al_amountMinor row)) (ae_allocations ex) =
        map (\<lambda>p. (sp_receivableId p, sp_amount p)) plans) \<and>
    active_total (ae_allocations ex) + m_amount (ae_unapplied ex) = m_amount (as_available source) \<and>
    0 \<le> m_amount (ae_unapplied ex) \<and> distinct (map al_receivableId (ae_allocations ex)) \<and>
    (\<forall>row \<in> set (ae_allocations ex). isActive row \<and> al_sourceId row = as_sourceId source \<and>
      al_sourceType row = as_sourceType source \<and> isPositive (al_amountMinor row) \<and>
      m_currency (al_amountMinor row) = m_currency (as_available source) \<and>
      (\<exists>r \<in> set receivables. ar_receivableId r = al_receivableId row \<and>
        (\<exists>b. alloc_balanceOf r = Inr b \<and> m_amount (al_amountMinor row) \<le> m_amount b))) \<and>
    (\<forall>i < length (ae_allocations ex). al_sequenceNo (ae_allocations ex ! i) =
      nextSequenceNo existing (as_sourceId source) (as_sourceType source) + int i) \<and>
    (\<forall>old \<in> set existing. al_sourceId old = as_sourceId source \<and> al_sourceType old = as_sourceType source \<longrightarrow>
      al_sequenceNo old < nextSequenceNo existing (as_sourceId source) (as_sourceType source))"
proof -
  from executeAllocation_planned[OF assms] obtain plans where
    plans: "planWithStrategy strat (as_available source) receivables declared = Inr plans"
    and ok: "execution_ok source receivables strat clk existing plans ex" .
  show ?thesis
    using plans execution_ok_legs[OF ok] execution_ok_total[OF ok] execution_ok_receivables[OF ok] execution_ok_row[OF ok]
      execution_ok_sequence[OF ok] nextSequenceNo_fresh by blast
qed

definition sample_source :: allocation_source where
  "sample_source = \<lparr>as_sourceType = Payment_Source, as_sourceId = ''p'', as_currency = KES,
     as_available = mk_money 70 KES\<rparr>"

text \<open>An execution that plans within the contract always returns.\<close>

lemma executeAllocation_fifo_total:
  assumes "allocateOldestFirst (as_available source) receivables = Inr plans"
    and "money_ok (as_available source)" and "m_currency (as_available source) = as_currency source"
  shows "\<exists>ex. executeAllocation source receivables Fifo clk None existing = Inr ex"
  using fifo.execute_ok[OF assms(2,1), of Fifo clk existing] assms
  by (auto simp: executeAllocation_def planWithStrategy_def)

lemma sample_fifo_plan:
  "allocateOldestFirst (as_available sample_source) [sample_receivable ''b'' 50 None, sample_receivable ''a'' 60 (Some 5)] =
    Inr [\<lparr>sp_receivableId = ''a'', sp_amount = mk_money 60 KES\<rparr>, \<lparr>sp_receivableId = ''b'', sp_amount = mk_money 10 KES\<rparr>]"
  by code_simp

lemma sample_execution:
  "\<exists>ex. executeAllocation sample_source [sample_receivable ''b'' 50 None, sample_receivable ''a'' 60 (Some 5)]
      Fifo (\<lambda>_. 0) None [] = Inr ex"
  by (rule executeAllocation_fifo_total[OF sample_fifo_plan]) (simp_all add: sample_source_def)

theorem executeAllocation_conserves_witness:
  "\<exists>ex. executeAllocation sample_source [sample_receivable ''b'' 50 None, sample_receivable ''a'' 60 (Some 5)]
      Fifo (\<lambda>_. 0) None [] = Inr ex \<and> active_total (ae_allocations ex) + m_amount (ae_unapplied ex) = 70 \<and>
    map (\<lambda>row. (al_receivableId row, al_amountMinor row)) (ae_allocations ex) = [(''a'', mk_money 60 KES), (''b'', mk_money 10 KES)]"
proof -
  from sample_execution obtain ex where ex: "executeAllocation sample_source
      [sample_receivable ''b'' 50 None, sample_receivable ''a'' 60 (Some 5)] Fifo (\<lambda>_. 0) None [] = Inr ex" ..
  have "engine_admissible Fifo (as_available sample_source) [sample_receivable ''b'' 50 None, sample_receivable ''a'' 60 (Some 5)] None"
    by (simp add: sample_source_def)
  note c = executeAllocation_conserves[OF ex this]
  from c[THEN conjunct1] obtain plans where
    plans: "planWithStrategy Fifo (as_available sample_source)
      [sample_receivable ''b'' 50 None, sample_receivable ''a'' 60 (Some 5)] None = Inr plans"
    and rows: "map (\<lambda>row. (al_receivableId row, al_amountMinor row)) (ae_allocations ex) =
      map (\<lambda>p. (sp_receivableId p, sp_amount p)) plans" by (elim exE conjE)
  from plans have "plans = [\<lparr>sp_receivableId = ''a'', sp_amount = mk_money 60 KES\<rparr>,
      \<lparr>sp_receivableId = ''b'', sp_amount = mk_money 10 KES\<rparr>]"
    unfolding planWithStrategy_def sample_fifo_plan by (simp only: if_True sum.inject refl)
  with rows have "map (\<lambda>row. (al_receivableId row, al_amountMinor row)) (ae_allocations ex) =
      [(''a'', mk_money 60 KES), (''b'', mk_money 10 KES)]" by (simp only: list.map strategy_plan.simps)
  moreover from c[THEN conjunct2, THEN conjunct1] have "active_total (ae_allocations ex) + m_amount (ae_unapplied ex) = 70"
    by (simp only: sample_source_def allocation_source.simps money.simps)
  ultimately show ?thesis by (intro exI[of _ ex] conjI ex)
qed

text \<open>
  Reversal (R3): reversing an active row of a ledger with a non-blank reason returns the
  row stamped as reversed and a compensating row; putting them in place of the row and at the
  end takes exactly the row's amount out of the active total, nothing else, and neither of
  the two rows can be reversed again.
\<close>

theorem reverseAllocation_frees_funds:
  assumes "isActive row" and "isPositive (al_amountMinor row)" and "1 \<le> al_sequenceNo row"
    and "trim reason \<noteq> []" and "trim again \<noteq> []"
  shows "\<exists>rv. reverseAllocation row reason clk None = Inr rv \<and>
    active_total (before @ [rv_original rv] @ after @ [rv_compensating rv]) =
      active_total (before @ [row] @ after) - m_amount (al_amountMinor row) \<and>
    reverseAllocation (rv_original rv) again clk' None = throw ''ALLOCATION_ALREADY_REVERSED'' \<and>
    reverseAllocation (rv_compensating rv) again clk' None = throw ''ALLOCATION_REVERSAL_NOT_ALLOWED''"
  using assms by (simp add: reverseAllocation_def Let_def allocationOf_def isActive_def)

theorem reverseAllocation_frees_funds_witness:
  "\<exists>rv. reverseAllocation (planned_row sample_source Fifo 0 1 (0, \<lparr>sp_receivableId = ''a'', sp_amount = mk_money 60 KES\<rparr>))
      ''duplicate'' (\<lambda>_. 0) None = Inr rv \<and>
    active_total [rv_original rv, rv_compensating rv] = 0"
  using reverseAllocation_frees_funds[of
      "planned_row sample_source Fifo 0 1 (0, \<lparr>sp_receivableId = ''a'', sp_amount = mk_money 60 KES\<rparr>)"
      "''duplicate''" "''x''" "\<lambda>_. 0" "[]" "[]" "\<lambda>_. 0"]
  by (auto simp: planned_row_def isActive_def trim_def is_js_space_def)

end
