(* ===== verification/Payments.thy ===== *)
theory Payments
  imports Money Ids Js_Date Contracts
begin

text \<open>
  The payment aggregate of \<open>src/src/domain/payments/payment.ts\<close> with the events of
  \<open>events.ts\<close>: the confirmation life cycle, unapplied parking, and the append-only
  reservation rows that draw on the confirmed funds.
\<close>

section \<open>Data\<close>

datatype payment_channel = C2b | Stk | OtherChannel string

fun channel_code :: "payment_channel \<Rightarrow> string" where
  "channel_code C2b = ''c2b''"
| "channel_code Stk = ''stk''"
| "channel_code (OtherChannel s) = s"

datatype payment_state =
    Initiated | Pending_Confirmation | Confirmed | Partially_Allocated | Allocated | Unapplied
  | Failed | Reversed | Partially_Refunded | Refunded

definition TERMINAL_STATES :: "payment_state list" where
  "TERMINAL_STATES = [Failed, Reversed, Refunded]"

definition CONFIRMED_FAMILY :: "payment_state list" where
  "CONFIRMED_FAMILY = [Confirmed, Partially_Allocated, Allocated, Unapplied, Partially_Refunded, Refunded]"

record payment_allocation_row =
  pa_id :: uuid
  pa_paymentId :: uuid
  pa_receivableId :: uuid
  pa_amount :: money
  pa_recordedAt :: date

record payment_refund_row =
  pr_id :: uuid
  pr_paymentId :: uuid
  pr_amount :: money
  pr_reason :: string
  pr_recordedAt :: date

record payment =
  pm_id :: uuid
  pm_channel :: payment_channel
  pm_externalRef :: string
  pm_idempotencyKey :: string
  pm_customerId :: "uuid option"
  pm_state :: payment_state
  pm_currency :: currency
  pm_requestedMinor :: money
  pm_declaredRefs :: "string list"
  pm_confirmedMinor :: "money option"
  pm_initiatedAt :: date
  pm_confirmedAt :: "date option"
  pm_failedAt :: "date option"
  pm_failureCode :: "string option"
  pm_reversedAt :: "date option"
  pm_reversalReason :: "string option"
  pm_allocations :: "payment_allocation_row list"
  pm_refunds :: "payment_refund_row list"

datatype match_confidence = Auto | Manual | OtherConfidence string

section \<open>Events\<close>

datatype payment_payload =
    PaymentInitiated uuid payment_channel int
  | PaymentConfirmed uuid int string date
  | PaymentFailed uuid string
  | PaymentReversed uuid string uuid
  | DuplicateCallbackObserved uuid string date
  | PaymentMatched uuid uuid "string list" match_confidence
  | MatchReversed uuid string

type_synonym payment_event = "(payment_payload, date) domain_event"

definition paymentInitiatedEvent :: "uuid \<Rightarrow> payment_channel \<Rightarrow> money \<Rightarrow> date \<Rightarrow> payment_event" where
  "paymentInitiatedEvent paymentId channel requestedMinor now =
     \<lparr>ev_name = ''payment.initiated'', ev_version = 1, ev_aggregateId = paymentId,
      ev_payload = PaymentInitiated paymentId channel (m_amount requestedMinor), ev_occurredAt = now\<rparr>"

definition paymentConfirmedEvent :: "uuid \<Rightarrow> money \<Rightarrow> string \<Rightarrow> date \<Rightarrow> date \<Rightarrow> payment_event" where
  "paymentConfirmedEvent paymentId confirmedMinor externalRef confirmedAt now =
     \<lparr>ev_name = ''payment.confirmed'', ev_version = 1, ev_aggregateId = paymentId,
      ev_payload = PaymentConfirmed paymentId (m_amount confirmedMinor) externalRef confirmedAt, ev_occurredAt = now\<rparr>"

definition paymentFailedEvent :: "uuid \<Rightarrow> string \<Rightarrow> date \<Rightarrow> payment_event" where
  "paymentFailedEvent paymentId failureCode now =
     \<lparr>ev_name = ''payment.failed'', ev_version = 1, ev_aggregateId = paymentId,
      ev_payload = PaymentFailed paymentId failureCode, ev_occurredAt = now\<rparr>"

definition paymentReversedEvent :: "uuid \<Rightarrow> string \<Rightarrow> uuid \<Rightarrow> date \<Rightarrow> payment_event" where
  "paymentReversedEvent paymentId reason reversalOf now =
     \<lparr>ev_name = ''payment.reversed'', ev_version = 1, ev_aggregateId = paymentId,
      ev_payload = PaymentReversed paymentId reason reversalOf, ev_occurredAt = now\<rparr>"

definition duplicateCallbackObservedEvent :: "uuid \<Rightarrow> string \<Rightarrow> date \<Rightarrow> date \<Rightarrow> payment_event" where
  "duplicateCallbackObservedEvent paymentId externalRef seenAt now =
     \<lparr>ev_name = ''payments.duplicateCallbackObserved'', ev_version = 1, ev_aggregateId = paymentId,
      ev_payload = DuplicateCallbackObserved paymentId externalRef seenAt, ev_occurredAt = now\<rparr>"

definition paymentMatchedEvent :: "uuid \<Rightarrow> uuid \<Rightarrow> string list \<Rightarrow> match_confidence \<Rightarrow> date \<Rightarrow> payment_event" where
  "paymentMatchedEvent matchId paymentId declaredRefs confidence now =
     \<lparr>ev_name = ''reconciliation.paymentMatched'', ev_version = 1, ev_aggregateId = matchId,
      ev_payload = PaymentMatched matchId paymentId declaredRefs confidence, ev_occurredAt = now\<rparr>"

definition matchReversedEvent :: "uuid \<Rightarrow> string \<Rightarrow> date \<Rightarrow> payment_event" where
  "matchReversedEvent matchId reason now =
     \<lparr>ev_name = ''reconciliation.matchReversed'', ev_version = 1, ev_aggregateId = matchId,
      ev_payload = MatchReversed matchId reason, ev_occurredAt = now\<rparr>"

section \<open>Derived values and guards\<close>

definition payment_isTerminal :: "payment \<Rightarrow> bool" where
  "payment_isTerminal p \<longleftrightarrow> pm_state p \<in> set TERMINAL_STATES"

definition isConfirmedFamily :: "payment \<Rightarrow> bool" where
  "isConfirmedFamily p \<longleftrightarrow> pm_state p \<in> set CONFIRMED_FAMILY"

definition committed_rows :: "payment \<Rightarrow> money list" where
  "committed_rows p = map pa_amount (pm_allocations p) @ map pr_amount (pm_refunds p)"

definition committedOf :: "payment \<Rightarrow> money result" where
  "committedOf p = reduce add_money (zero_money (pm_currency p)) (committed_rows p)"

definition unappliedMinorOf :: "payment \<Rightarrow> money result" where
  "unappliedMinorOf p = (case pm_confirmedMinor p of
       None \<Rightarrow> Inr (zero_money (pm_currency p))
     | Some confirmed \<Rightarrow>
         and_then (committedOf p) (\<lambda>committed.
         and_then (compareTo committed confirmed) (\<lambda>cmp.
           if 0 \<le> cmp then Inr (zero_money (pm_currency p)) else subtract_money confirmed committed)))"

definition payment_assertSameCurrency :: "payment \<Rightarrow> money \<Rightarrow> unit result" where
  "payment_assertSameCurrency p amount =
     (if m_currency amount \<noteq> pm_currency p then throw ''CURRENCY_MISMATCH'' else Inr ())"

definition payment_assertPositive :: "money \<Rightarrow> unit result" where
  "payment_assertPositive amount = (if m_amount amount \<le> 0 then throw ''AMOUNT_MUST_BE_POSITIVE'' else Inr ())"

definition assertNotTerminal :: "payment \<Rightarrow> unit result" where
  "assertNotTerminal p = (if payment_isTerminal p then throw ''PAYMENT_TERMINAL'' else Inr ())"

definition assertConfirmedMinor :: "payment \<Rightarrow> money result" where
  "assertConfirmedMinor p = (case pm_confirmedMinor p of
     None \<Rightarrow> throw ''PAYMENT_STATE_CORRUPT'' | Some confirmed \<Rightarrow> Inr confirmed)"

section \<open>Transitions\<close>

type_synonym transition_result = "payment \<times> payment_event list"

definition awaitConfirmation :: "payment \<Rightarrow> transition_result result" where
  "awaitConfirmation p = and_then (assertNotTerminal p) (\<lambda>_.
     if pm_state p \<noteq> Initiated then throw ''INVALID_TRANSITION''
     else Inr (p\<lparr>pm_state := Pending_Confirmation\<rparr>, []))"

definition confirmPayment :: "payment \<Rightarrow> money \<Rightarrow> clock \<Rightarrow> transition_result result" where
  "confirmPayment p amount clk =
     and_then (payment_assertSameCurrency p amount) (\<lambda>_.
     and_then (assertNotTerminal p) (\<lambda>_.
       if pm_state p = Confirmed then
         and_then (assertConfirmedMinor p) (\<lambda>confirmed.
         and_then (equals_money confirmed amount) (\<lambda>same.
           if \<not> same then throw ''CONFIRMED_AMOUNT_MISMATCH'' else Inr (p, [])))
       else if pm_state p \<noteq> Pending_Confirmation then throw ''INVALID_TRANSITION''
       else let confirmedAt = clk 0 in
         Inr (p\<lparr>pm_state := Confirmed, pm_confirmedMinor := Some amount, pm_confirmedAt := Some confirmedAt\<rparr>,
              [paymentConfirmedEvent (pm_id p) amount (pm_externalRef p) confirmedAt (clk 1)])))"

definition failPayment :: "payment \<Rightarrow> string \<Rightarrow> clock \<Rightarrow> transition_result result" where
  "failPayment p failureCode clk =
     (let code = trim failureCode in
      if code = [] then throw ''FAILURE_CODE_REQUIRED''
      else if pm_state p = Failed then Inr (p, [])
      else and_then (assertNotTerminal p) (\<lambda>_.
        if pm_state p \<noteq> Initiated \<and> pm_state p \<noteq> Pending_Confirmation then throw ''INVALID_TRANSITION''
        else Inr (p\<lparr>pm_state := Failed, pm_failedAt := Some (clk 0), pm_failureCode := Some code\<rparr>,
                  [paymentFailedEvent (pm_id p) code (clk 1)])))"

definition reversePayment :: "payment \<Rightarrow> string \<Rightarrow> clock \<Rightarrow> transition_result result" where
  "reversePayment p reason clk =
     (let why = trim reason in
      if why = [] then throw ''REVERSAL_REASON_REQUIRED''
      else and_then (assertNotTerminal p) (\<lambda>_.
        if pm_state p \<noteq> Confirmed then throw ''INVALID_TRANSITION''
        else Inr (p\<lparr>pm_state := Reversed, pm_reversedAt := Some (clk 0), pm_reversalReason := Some why\<rparr>,
                  [paymentReversedEvent (pm_id p) why (pm_id p) (clk 1)])))"

definition identifyPayment :: "payment \<Rightarrow> uuid \<Rightarrow> transition_result result" where
  "identifyPayment p customerId = and_then (assertNotTerminal p) (\<lambda>_.
     if pm_state p = Unapplied then
       (if pm_customerId p = Some customerId then Inr (p, []) else throw ''PAYMENT_ALREADY_IDENTIFIED'')
     else if pm_state p \<noteq> Confirmed then throw ''INVALID_TRANSITION''
     else Inr (p\<lparr>pm_state := Unapplied, pm_customerId := Some customerId\<rparr>, []))"

definition recordAllocationReservation ::
  "payment \<Rightarrow> uuid \<Rightarrow> money \<Rightarrow> uuid option \<Rightarrow> clock \<Rightarrow> transition_result result" where
  "recordAllocationReservation p receivableId amount allocationId clk =
     and_then (payment_assertSameCurrency p amount) (\<lambda>_.
     and_then (payment_assertPositive amount) (\<lambda>_.
     and_then (assertNotTerminal p) (\<lambda>_.
       if \<not> isConfirmedFamily p then throw ''PAYMENT_NOT_CONFIRMED''
       else and_then (assertConfirmedMinor p) (\<lambda>confirmed.
         and_then (committedOf p) (\<lambda>committed.
         and_then (add_money committed amount) (\<lambda>next_committed.
         and_then (compareTo next_committed confirmed) (\<lambda>cmp.
           if cmp > 0 then throw ''ALLOCATION_EXCEEDS_CONFIRMED''
           else let recordedAt = clk 0 in
             and_then (case allocationId of Some i \<Rightarrow> Inr i
                 | None \<Rightarrow> uuidFromSeed (''allocation:'' @ pm_id p @ '':'' @ receivableId @ '':'' @
                     int_to_string (m_amount amount) @ '':'' @ toISOString recordedAt)) (\<lambda>rowId.
             and_then (subtract_money confirmed next_committed) (\<lambda>remaining.
               Inr (p\<lparr>pm_allocations := pm_allocations p @ [\<lparr>pa_id = rowId, pa_paymentId = pm_id p,
                         pa_receivableId = receivableId, pa_amount = amount, pa_recordedAt = recordedAt\<rparr>],
                      pm_state := (if isZero remaining then Allocated else Partially_Allocated)\<rparr>, []))))))))))"

definition recordRefundReservation ::
  "payment \<Rightarrow> money \<Rightarrow> string \<Rightarrow> uuid option \<Rightarrow> clock \<Rightarrow> transition_result result" where
  "recordRefundReservation p amount reason refundId clk =
     (let why = trim reason in
      if why = [] then throw ''REFUND_REASON_REQUIRED''
      else and_then (payment_assertSameCurrency p amount) (\<lambda>_.
      and_then (payment_assertPositive amount) (\<lambda>_.
      and_then (assertNotTerminal p) (\<lambda>_.
        if \<not> isConfirmedFamily p then throw ''PAYMENT_NOT_CONFIRMED''
        else and_then (assertConfirmedMinor p) (\<lambda>confirmed.
          and_then (committedOf p) (\<lambda>committed.
          and_then (add_money committed amount) (\<lambda>next_committed.
          and_then (compareTo next_committed confirmed) (\<lambda>cmp.
            if cmp > 0 then throw ''REFUND_EXCEEDS_AVAILABLE''
            else let recordedAt = clk 0 in
              and_then (case refundId of Some i \<Rightarrow> Inr i
                  | None \<Rightarrow> uuidFromSeed (''refund:'' @ pm_id p @ '':'' @ int_to_string (m_amount amount) @ '':'' @
                      toISOString recordedAt)) (\<lambda>rowId.
                Inr (p\<lparr>pm_refunds := pm_refunds p @ [\<lparr>pr_id = rowId, pr_paymentId = pm_id p,
                          pr_amount = amount, pr_reason = why, pr_recordedAt = recordedAt\<rparr>]\<rparr>, []))))))))))"

section \<open>What each transition does\<close>

definition committed_total :: "payment \<Rightarrow> int" where
  "committed_total p = sum_list (map m_amount (committed_rows p))"

lemmas payment_guard_defs =
  payment_assertSameCurrency_def payment_assertPositive_def assertNotTerminal_def assertConfirmedMinor_def

lemma committedOf_total:
  assumes "\<forall>m \<in> set (committed_rows p). m_currency m = pm_currency p"
  shows "committedOf p = Inr (mk_money (committed_total p) (pm_currency p))"
  using reduce_add_money[of "committed_rows p" "\<lambda>x. x" "zero_money (pm_currency p)"] assms
  by (simp add: committedOf_def committed_total_def)

lemma awaitConfirmation_Inr:
  "awaitConfirmation p = Inr r \<longleftrightarrow> pm_state p = Initiated \<and> r = (p\<lparr>pm_state := Pending_Confirmation\<rparr>, [])"
  by (auto simp: awaitConfirmation_def payment_guard_defs result_simps payment_isTerminal_def TERMINAL_STATES_def)

lemma confirmPayment_Inr:
  "confirmPayment p amount clk = Inr r \<longleftrightarrow> m_currency amount = pm_currency p \<and>
     (pm_state p = Confirmed \<and> pm_confirmedMinor p = Some amount \<and> r = (p, []) \<or>
      pm_state p = Pending_Confirmation \<and>
      r = (p\<lparr>pm_state := Confirmed, pm_confirmedMinor := Some amount, pm_confirmedAt := Some (clk 0)\<rparr>,
           [paymentConfirmedEvent (pm_id p) amount (pm_externalRef p) (clk 0) (clk 1)]))"
proof -
  have "confirmPayment p amount clk = Inr r \<longleftrightarrow> m_currency amount = pm_currency p \<and> \<not> payment_isTerminal p \<and>
     (if pm_state p = Confirmed then pm_confirmedMinor p = Some amount \<and> r = (p, [])
      else pm_state p = Pending_Confirmation \<and>
        r = (p\<lparr>pm_state := Confirmed, pm_confirmedMinor := Some amount, pm_confirmedAt := Some (clk 0)\<rparr>,
             [paymentConfirmedEvent (pm_id p) amount (pm_externalRef p) (clk 0) (clk 1)]))"
    by (auto simp: confirmPayment_def payment_guard_defs result_simps equals_money_Inr Let_def
        split: option.splits)
  then show ?thesis by (auto simp: payment_isTerminal_def TERMINAL_STATES_def)
qed

lemma failPayment_Inr:
  "failPayment p code clk = Inr r \<longleftrightarrow> trim code \<noteq> [] \<and>
     (pm_state p = Failed \<and> r = (p, []) \<or>
      (pm_state p = Initiated \<or> pm_state p = Pending_Confirmation) \<and>
      r = (p\<lparr>pm_state := Failed, pm_failedAt := Some (clk 0), pm_failureCode := Some (trim code)\<rparr>,
           [paymentFailedEvent (pm_id p) (trim code) (clk 1)]))"
  by (auto simp: failPayment_def payment_guard_defs result_simps Let_def payment_isTerminal_def TERMINAL_STATES_def)

lemma reversePayment_Inr:
  "reversePayment p reason clk = Inr r \<longleftrightarrow> trim reason \<noteq> [] \<and> pm_state p = Confirmed \<and>
     r = (p\<lparr>pm_state := Reversed, pm_reversedAt := Some (clk 0), pm_reversalReason := Some (trim reason)\<rparr>,
          [paymentReversedEvent (pm_id p) (trim reason) (pm_id p) (clk 1)])"
  by (auto simp: reversePayment_def payment_guard_defs result_simps Let_def payment_isTerminal_def TERMINAL_STATES_def)

lemma identifyPayment_Inr:
  "identifyPayment p c = Inr r \<longleftrightarrow>
     pm_state p = Unapplied \<and> pm_customerId p = Some c \<and> r = (p, []) \<or>
     pm_state p = Confirmed \<and> r = (p\<lparr>pm_state := Unapplied, pm_customerId := Some c\<rparr>, [])"
  by (auto simp: identifyPayment_def payment_guard_defs result_simps payment_isTerminal_def TERMINAL_STATES_def)

text \<open>A reservation that is accepted draws a positive amount the confirmed funds still cover.\<close>

definition drawable :: "payment \<Rightarrow> money \<Rightarrow> bool" where
  "drawable p amount \<longleftrightarrow> m_currency amount = pm_currency p \<and> 0 < m_amount amount \<and>
     isConfirmedFamily p \<and> \<not> payment_isTerminal p \<and>
     (\<exists>c. pm_confirmedMinor p = Some c \<and> m_currency c = pm_currency p \<and>
        committed_total p + m_amount amount \<le> m_amount c)"

text \<open>The ceiling check both reservations make.\<close>

lemma draw_check:
  assumes "\<forall>m \<in> set (committed_rows p). m_currency m = pm_currency p" and "m_currency amount = pm_currency p"
  shows "and_then (committedOf p) (\<lambda>committed. and_then (add_money committed amount) (\<lambda>n.
      and_then (compareTo n confirmed) (\<lambda>cmp. if cmp > 0 then Inl e else k n))) =
    (if m_currency confirmed \<noteq> pm_currency p then throw ''CURRENCY_MISMATCH''
     else if m_amount confirmed < committed_total p + m_amount amount then Inl e
     else k (mk_money (committed_total p + m_amount amount) (pm_currency p)))"
  using assms(2) unfolding committedOf_total[OF assms(1)]
  by (simp add: add_money_same compareTo_def assertSame_def)

lemma recordAllocationReservation_Inr:
  assumes rows: "\<forall>m \<in> set (committed_rows p). m_currency m = pm_currency p"
  shows "recordAllocationReservation p rid amount aid clk = Inr r \<longleftrightarrow> drawable p amount \<and>
    (\<exists>i c. pm_confirmedMinor p = Some c \<and>
      (case aid of Some j \<Rightarrow> i = j | None \<Rightarrow> i = seed_id (''allocation:'' @ pm_id p @ '':'' @ rid @ '':'' @
          int_to_string (m_amount amount) @ '':'' @ toISOString (clk 0))) \<and>
      r = (p\<lparr>pm_allocations := pm_allocations p @ [\<lparr>pa_id = i, pa_paymentId = pm_id p, pa_receivableId = rid,
               pa_amount = amount, pa_recordedAt = clk 0\<rparr>],
             pm_state := (if committed_total p + m_amount amount = m_amount c then Allocated else Partially_Allocated)\<rparr>, []))"
proof (cases "pm_confirmedMinor p")
  case None
  then show ?thesis
    by (auto simp: recordAllocationReservation_def drawable_def payment_guard_defs result_simps)
next
  case (Some c)
  show ?thesis
  proof (cases "m_currency amount = pm_currency p")
    case True
    note check = draw_check[OF rows this, of c]
    show ?thesis
      unfolding recordAllocationReservation_def assertConfirmedMinor_def Some option.case and_then.simps check Let_def
      using True Some by (auto simp: drawable_def payment_guard_defs result_simps subtract_money_def
          assertSame_def not_less split: option.splits)
  qed (simp add: recordAllocationReservation_def drawable_def payment_guard_defs)
qed

lemma recordRefundReservation_Inr:
  assumes rows: "\<forall>m \<in> set (committed_rows p). m_currency m = pm_currency p"
  shows "recordRefundReservation p amount reason rfid clk = Inr r \<longleftrightarrow> trim reason \<noteq> [] \<and> drawable p amount \<and>
    (\<exists>i. (case rfid of Some j \<Rightarrow> i = j | None \<Rightarrow> i = seed_id (''refund:'' @ pm_id p @ '':'' @
          int_to_string (m_amount amount) @ '':'' @ toISOString (clk 0))) \<and>
      r = (p\<lparr>pm_refunds := pm_refunds p @ [\<lparr>pr_id = i, pr_paymentId = pm_id p, pr_amount = amount,
               pr_reason = trim reason, pr_recordedAt = clk 0\<rparr>]\<rparr>, []))"
proof (cases "pm_confirmedMinor p")
  case None
  then show ?thesis
    by (auto simp: recordRefundReservation_def drawable_def payment_guard_defs result_simps Let_def)
next
  case (Some c)
  show ?thesis
  proof (cases "m_currency amount = pm_currency p")
    case True
    note check = draw_check[OF rows this, of c]
    show ?thesis
      unfolding recordRefundReservation_def assertConfirmedMinor_def Some option.case and_then.simps check Let_def
      using True Some by (auto simp: drawable_def payment_guard_defs result_simps not_less split: option.splits)
  qed (simp add: recordRefundReservation_def drawable_def payment_guard_defs Let_def)
qed

section \<open>The payment machine\<close>

datatype payment_command =
    AwaitConfirmation
  | ConfirmPayment money clock
  | FailPayment string clock
  | ReversePayment string clock
  | IdentifyPayment uuid
  | ReserveAllocation uuid money "uuid option" clock
  | ReserveRefund money string "uuid option" clock

fun payment_run :: "payment \<Rightarrow> payment_command \<Rightarrow> transition_result result" where
  "payment_run p AwaitConfirmation = awaitConfirmation p"
| "payment_run p (ConfirmPayment amount clk) = confirmPayment p amount clk"
| "payment_run p (FailPayment code clk) = failPayment p code clk"
| "payment_run p (ReversePayment reason clk) = reversePayment p reason clk"
| "payment_run p (IdentifyPayment customerId) = identifyPayment p customerId"
| "payment_run p (ReserveAllocation rid amount aid clk) = recordAllocationReservation p rid amount aid clk"
| "payment_run p (ReserveRefund amount reason rfid clk) = recordRefundReservation p amount reason rfid clk"

definition payment_step :: "payment \<Rightarrow> payment_command \<Rightarrow> payment result" where
  "payment_step p cmd = and_then (payment_run p cmd) (\<lambda>r. Inr (fst r))"

fun payment_command_ok :: "payment_command \<Rightarrow> bool" where
  "payment_command_ok (ConfirmPayment amount _) = money_ok amount"
| "payment_command_ok (ReserveAllocation _ amount _ _) = money_ok amount"
| "payment_command_ok (ReserveRefund amount _ _ _) = money_ok amount"
| "payment_command_ok _ = True"

text \<open>
  The invariant of the aggregate: reservation rows are positive and in its currency; a
  confirmed amount exists exactly in the states that imply landed money, and covers the
  rows; an allocated payment is fully committed, a parked one has a customer.
\<close>

definition payment_rows_ok :: "payment \<Rightarrow> bool" where
  "payment_rows_ok p \<longleftrightarrow> (\<forall>m \<in> set (committed_rows p). m_currency m = pm_currency p \<and> 0 < m_amount m)"

definition payment_funds_ok :: "payment \<Rightarrow> bool" where
  "payment_funds_ok p \<longleftrightarrow> (case pm_confirmedMinor p of
       None \<Rightarrow> pm_state p \<in> {Initiated, Pending_Confirmation, Failed} \<and> committed_rows p = []
     | Some c \<Rightarrow> (isConfirmedFamily p \<or> pm_state p = Reversed) \<and> m_currency c = pm_currency p \<and>
         money_ok c \<and> committed_total p \<le> m_amount c \<and>
         (pm_state p = Allocated \<longrightarrow> committed_total p = m_amount c))"

definition payment_ok :: "payment \<Rightarrow> bool" where
  "payment_ok p \<longleftrightarrow> payment_rows_ok p \<and> payment_funds_ok p \<and>
     (pm_state p = Unapplied \<longrightarrow> pm_customerId p \<noteq> None) \<and>
     (pm_allocations p = [] \<or> pm_state p \<in> {Partially_Allocated, Allocated})"

lemma payment_ok_currency: "payment_ok p \<Longrightarrow> \<forall>m \<in> set (committed_rows p). m_currency m = pm_currency p"
  by (simp add: payment_ok_def payment_rows_ok_def)

lemma committed_rows_update [simp]:
  "committed_rows (p\<lparr>pm_state := s\<rparr>) = committed_rows p"
  "committed_rows (p\<lparr>pm_confirmedMinor := m\<rparr>) = committed_rows p"
  "committed_rows (p\<lparr>pm_confirmedAt := d\<rparr>) = committed_rows p"
  "committed_rows (p\<lparr>pm_failedAt := d\<rparr>) = committed_rows p"
  "committed_rows (p\<lparr>pm_failureCode := t\<rparr>) = committed_rows p"
  "committed_rows (p\<lparr>pm_reversedAt := d\<rparr>) = committed_rows p"
  "committed_rows (p\<lparr>pm_reversalReason := t\<rparr>) = committed_rows p"
  "committed_rows (p\<lparr>pm_customerId := u\<rparr>) = committed_rows p"
  by (simp_all add: committed_rows_def)

lemmas payment_invariant_defs = payment_ok_def payment_rows_ok_def payment_funds_ok_def
  committed_total_def isConfirmedFamily_def CONFIRMED_FAMILY_def

lemma awaitConfirmation_ok: "payment_ok p \<Longrightarrow> awaitConfirmation p = Inr r \<Longrightarrow> payment_ok (fst r)"
  by (auto simp: payment_invariant_defs awaitConfirmation_Inr split: option.splits)

lemma confirmPayment_ok:
  "payment_ok p \<Longrightarrow> money_ok amount \<Longrightarrow> confirmPayment p amount clk = Inr r \<Longrightarrow> payment_ok (fst r)"
  unfolding confirmPayment_Inr
  by (elim conjE disjE) (simp_all add: payment_invariant_defs money_ok_def split: option.splits)

lemma failPayment_ok: "payment_ok p \<Longrightarrow> failPayment p code clk = Inr r \<Longrightarrow> payment_ok (fst r)"
  unfolding failPayment_Inr
  by (elim conjE disjE) (simp_all add: payment_invariant_defs split: option.splits)

lemma reversePayment_ok: "payment_ok p \<Longrightarrow> reversePayment p reason clk = Inr r \<Longrightarrow> payment_ok (fst r)"
  unfolding reversePayment_Inr
  by (elim conjE disjE) (simp_all add: payment_invariant_defs split: option.splits)

lemma identifyPayment_ok: "payment_ok p \<Longrightarrow> identifyPayment p c = Inr r \<Longrightarrow> payment_ok (fst r)"
  unfolding identifyPayment_Inr
  by (elim conjE disjE) (simp_all add: payment_invariant_defs split: option.splits)

lemmas payment_lifecycle_ok =
  awaitConfirmation_ok confirmPayment_ok failPayment_ok reversePayment_ok identifyPayment_ok

lemma allocation_reservation_ok:
  assumes "payment_ok p" and "recordAllocationReservation p rid amount aid clk = Inr r"
  shows "payment_ok (fst r) \<and> committed_total (fst r) = committed_total p + m_amount amount \<and>
    pm_confirmedMinor (fst r) = pm_confirmedMinor p \<and> 0 < m_amount amount"
proof -
  from assms(2) recordAllocationReservation_Inr[OF payment_ok_currency[OF assms(1)]] obtain i c where
    d: "drawable p amount" and c: "pm_confirmedMinor p = Some c"
    and r: "fst r = p\<lparr>pm_allocations := pm_allocations p @ [\<lparr>pa_id = i, pa_paymentId = pm_id p, pa_receivableId = rid,
        pa_amount = amount, pa_recordedAt = clk 0\<rparr>],
      pm_state := (if committed_total p + m_amount amount = m_amount c then Allocated else Partially_Allocated)\<rparr>"
    by auto
  have total: "committed_total (fst r) = committed_total p + m_amount amount"
    by (simp add: r committed_total_def committed_rows_def)
  have rows: "set (committed_rows (fst r)) = insert amount (set (committed_rows p))"
    by (auto simp: r committed_rows_def)
  from d c have "m_currency amount = pm_currency p" "0 < m_amount amount"
    "committed_total p + m_amount amount \<le> m_amount c" by (auto simp: drawable_def)
  then have "payment_ok (fst r)"
    using assms(1) c total rows
    by (auto simp: payment_ok_def payment_rows_ok_def payment_funds_ok_def r isConfirmedFamily_def CONFIRMED_FAMILY_def)
  with total d show ?thesis by (simp add: r drawable_def)
qed

lemma refund_reservation_ok:
  assumes "payment_ok p" and "recordRefundReservation p amount reason rfid clk = Inr r"
  shows "payment_ok (fst r) \<and> committed_total (fst r) = committed_total p + m_amount amount \<and>
    pm_confirmedMinor (fst r) = pm_confirmedMinor p \<and> 0 < m_amount amount"
proof -
  from assms(2) recordRefundReservation_Inr[OF payment_ok_currency[OF assms(1)]] obtain i where
    d: "drawable p amount"
    and r: "fst r = p\<lparr>pm_refunds := pm_refunds p @ [\<lparr>pr_id = i, pr_paymentId = pm_id p, pr_amount = amount,
        pr_reason = trim reason, pr_recordedAt = clk 0\<rparr>]\<rparr>"
    by auto
  have total: "committed_total (fst r) = committed_total p + m_amount amount"
    by (simp add: r committed_total_def committed_rows_def)
  have rows: "set (committed_rows (fst r)) = insert amount (set (committed_rows p))"
    by (auto simp: r committed_rows_def)
  from d obtain c where c: "pm_confirmedMinor p = Some c" "m_currency amount = pm_currency p" "0 < m_amount amount"
    "committed_total p + m_amount amount \<le> m_amount c" by (auto simp: drawable_def)
  with assms(1) have "pm_state p \<noteq> Allocated" by (auto simp: payment_ok_def payment_funds_ok_def)
  then have "payment_ok (fst r)"
    using assms(1) c total rows
    by (auto simp: payment_ok_def payment_rows_ok_def payment_funds_ok_def r isConfirmedFamily_def CONFIRMED_FAMILY_def)
  with total d show ?thesis by (simp add: r drawable_def)
qed

lemma payment_step_ok:
  assumes "payment_ok p" and "payment_command_ok cmd" and "payment_step p cmd = Inr p'"
  shows "payment_ok p'"
proof -
  from assms(3) obtain r where r: "payment_run p cmd = Inr r" "p' = fst r"
    by (auto simp: payment_step_def result_simps)
  with assms(1,2) show ?thesis
    by (cases cmd) (auto dest: payment_lifecycle_ok allocation_reservation_ok refund_reservation_ok)
qed

interpretation payment_machine: guarded_machine payment_step payment_ok payment_command_ok
  by unfold_locales (rule payment_step_ok)

section \<open>Confirmed once, rows only appended, terminal states final\<close>

lemma payment_step_keeps:
  assumes "payment_ok p" and "payment_step p cmd = Inr p'"
  shows "(pm_confirmedMinor p = Some m \<longrightarrow> pm_confirmedMinor p' = Some m) \<and>
    (\<exists>xs. pm_allocations p' = pm_allocations p @ xs) \<and> (\<exists>xs. pm_refunds p' = pm_refunds p @ xs)"
proof -
  from assms(2) obtain r where r: "payment_run p cmd = Inr r" "p' = fst r"
    by (auto simp: payment_step_def result_simps)
  note rows = payment_ok_currency[OF assms(1)]
  have pend: "pm_state p = Pending_Confirmation \<Longrightarrow> pm_confirmedMinor p = None"
    using assms(1) by (auto simp: payment_ok_def payment_funds_ok_def isConfirmedFamily_def CONFIRMED_FAMILY_def
        split: option.splits)
  from r show ?thesis
    using pend by (cases cmd) (auto simp: awaitConfirmation_Inr confirmPayment_Inr failPayment_Inr reversePayment_Inr
        identifyPayment_Inr recordAllocationReservation_Inr[OF rows] recordRefundReservation_Inr[OF rows])
qed

lemma payment_step_terminal:
  assumes "payment_isTerminal p" and "payment_step p cmd = Inr p'"
  shows "p' = p"
proof -
  from assms(1) have t: "assertNotTerminal p = throw ''PAYMENT_TERMINAL''" by (simp add: assertNotTerminal_def)
  from assms(2) obtain r where r: "payment_run p cmd = Inr r" "p' = fst r"
    by (auto simp: payment_step_def result_simps)
  from r t show ?thesis
    by (cases cmd) (auto simp: awaitConfirmation_def confirmPayment_def failPayment_def reversePayment_def
        identifyPayment_def recordAllocationReservation_def recordRefundReservation_def result_simps Let_def
        split: if_splits)
qed

interpretation payment_final: absorbing_machine payment_step payment_isTerminal
  by unfold_locales (rule payment_step_terminal)

definition extends_payment :: "payment \<Rightarrow> payment \<Rightarrow> bool" where
  "extends_payment p q \<longleftrightarrow> payment_ok q \<and> (\<forall>m. pm_confirmedMinor p = Some m \<longrightarrow> pm_confirmedMinor q = Some m) \<and>
     (\<exists>xs. pm_allocations q = pm_allocations p @ xs) \<and> (\<exists>xs. pm_refunds q = pm_refunds p @ xs)"

interpretation payment_history: guarded_machine payment_step "extends_payment p" payment_command_ok for p
proof
  fix s c s'
  assume ext: "extends_payment p s" and "payment_command_ok c" and step: "payment_step s c = Inr s'"
  then have "payment_ok s'" by (auto simp: extends_payment_def intro: payment_step_ok)
  with ext payment_step_keeps[OF _ step] show "extends_payment p s'"
    by (fastforce simp: extends_payment_def)
qed

section \<open>The confirmed funds as a pool\<close>

datatype payment_draw = DrawAllocation uuid money "uuid option" clock | DrawRefund money string "uuid option" clock

fun draw_command :: "payment_draw \<Rightarrow> payment_command" where
  "draw_command (DrawAllocation rid amount aid clk) = ReserveAllocation rid amount aid clk"
| "draw_command (DrawRefund amount reason rfid clk) = ReserveRefund amount reason rfid clk"

fun draw_amount :: "payment_draw \<Rightarrow> int" where
  "draw_amount (DrawAllocation _ amount _ _) = m_amount amount"
| "draw_amount (DrawRefund amount _ _ _) = m_amount amount"

definition payment_draw_step :: "payment \<Rightarrow> payment_draw \<Rightarrow> payment result" where
  "payment_draw_step p d = payment_step p (draw_command d)"

definition unapplied_total :: "payment \<Rightarrow> int" where
  "unapplied_total p = (case pm_confirmedMinor p of None \<Rightarrow> 0 | Some c \<Rightarrow> m_amount c - committed_total p)"

lemma unappliedMinorOf_total:
  assumes "payment_ok p"
  shows "unappliedMinorOf p = Inr (mk_money (unapplied_total p) (pm_currency p))" and "0 \<le> unapplied_total p"
proof -
  have funds: "payment_funds_ok p" using assms by (simp add: payment_ok_def)
  then show "0 \<le> unapplied_total p"
    by (auto simp: payment_funds_ok_def unapplied_total_def split: option.splits)
  from funds show "unappliedMinorOf p = Inr (mk_money (unapplied_total p) (pm_currency p))"
    by (cases "pm_confirmedMinor p")
      (auto simp: unappliedMinorOf_def payment_funds_ok_def unapplied_total_def zero_money_def
        committedOf_total[OF payment_ok_currency[OF assms]] compareTo_same subtract_money_same)
qed

lemma payment_draw_facts:
  assumes "payment_ok p" and "payment_draw_step p d = Inr p'"
  shows "payment_ok p' \<and> unapplied_total p' = unapplied_total p - draw_amount d \<and> 0 < draw_amount d"
proof -
  from assms(2) obtain r where r: "payment_run p (draw_command d) = Inr r" "p' = fst r"
    by (auto simp: payment_draw_step_def payment_step_def result_simps)
  have ok: "payment_ok p' \<and> committed_total p' = committed_total p + draw_amount d \<and>
      pm_confirmedMinor p' = pm_confirmedMinor p \<and> 0 < draw_amount d"
    using r assms(1) by (cases d) (auto dest: allocation_reservation_ok refund_reservation_ok)
  have "pm_confirmedMinor p \<noteq> None"
    using r by (cases d) (auto simp: recordAllocationReservation_Inr[OF payment_ok_currency[OF assms(1)]]
        recordRefundReservation_Inr[OF payment_ok_currency[OF assms(1)]] drawable_def)
  with ok show ?thesis by (auto simp: unapplied_total_def)
qed

interpretation payment_pool: funds_pool payment_draw_step payment_ok "\<lambda>_. True" unapplied_total draw_amount
  by unfold_locales (auto dest: payment_draw_facts unappliedMinorOf_total)

section \<open>Properties of payments\<close>

definition fresh_payment :: "payment \<Rightarrow> bool" where
  "fresh_payment p \<longleftrightarrow> pm_state p = Initiated \<and> pm_confirmedMinor p = None \<and> pm_allocations p = [] \<and> pm_refunds p = []"

lemma fresh_payment_ok: "fresh_payment p \<Longrightarrow> payment_ok p"
  by (simp add: fresh_payment_def payment_ok_def payment_rows_ok_def payment_funds_ok_def committed_rows_def)

text \<open>
  C3. A payment is never overcommitted (R2 and R6): whatever commands a freshly initiated
  payment receives, in any order and any number, allocations and refunds together never
  exceed the confirmed amount, the derived unapplied balance is exactly the difference, and
  no row exists before money is confirmed.
\<close>

theorem payment_never_overcommitted:
  assumes "fresh_payment p" and "\<forall>c \<in> set cmds. payment_command_ok c"
  shows "case pm_confirmedMinor (drive payment_step p cmds) of
      None \<Rightarrow> pm_allocations (drive payment_step p cmds) = [] \<and> pm_refunds (drive payment_step p cmds) = []
    | Some c \<Rightarrow> committed_total (drive payment_step p cmds) \<le> m_amount c \<and>
        unappliedMinorOf (drive payment_step p cmds) =
          Inr (mk_money (m_amount c - committed_total (drive payment_step p cmds)) (pm_currency (drive payment_step p cmds)))"
proof -
  have ok: "payment_ok (drive payment_step p cmds)"
    by (rule payment_machine.drive_inv[OF fresh_payment_ok[OF assms(1)] assms(2)])
  from unappliedMinorOf_total[OF ok] ok show ?thesis
    by (auto simp: payment_ok_def payment_funds_ok_def unapplied_total_def committed_rows_def split: option.splits)
qed

definition sample_payment :: payment where
  "sample_payment = \<lparr>pm_id = ''p'', pm_channel = C2b, pm_externalRef = ''X1'', pm_idempotencyKey = ''k'',
     pm_customerId = None, pm_state = Initiated, pm_currency = KES, pm_requestedMinor = mk_money 100 KES,
     pm_declaredRefs = [], pm_confirmedMinor = None, pm_initiatedAt = 0, pm_confirmedAt = None,
     pm_failedAt = None, pm_failureCode = None, pm_reversedAt = None, pm_reversalReason = None,
     pm_allocations = [], pm_refunds = []\<rparr>"

definition sample_commands :: "payment_command list" where
  "sample_commands = [AwaitConfirmation, ConfirmPayment (mk_money 100 KES) (\<lambda>_. 0),
     ReserveAllocation ''r1'' (mk_money 60 KES) (Some ''a1'') (\<lambda>_. 0),
     ReserveAllocation ''r2'' (mk_money 60 KES) (Some ''a2'') (\<lambda>_. 0)]"

lemma sample_commands_run:
  "committed_total (drive payment_step sample_payment sample_commands) = 60 \<and>
   pm_confirmedMinor (drive payment_step sample_payment sample_commands) = Some (mk_money 100 KES) \<and>
   pm_state (drive payment_step sample_payment sample_commands) = Partially_Allocated \<and>
   pm_currency (drive payment_step sample_payment sample_commands) = KES"
  by code_simp

theorem payment_never_overcommitted_witness:
  "unappliedMinorOf (drive payment_step sample_payment sample_commands) = Inr (mk_money 40 KES)"
  using payment_never_overcommitted[of sample_payment sample_commands] sample_commands_run
  by (simp add: sample_payment_def fresh_payment_def sample_commands_def)

text \<open>
  Confirmed once, history append-only (R3): once a payment carries a confirmed amount no
  command changes it, and the allocation and refund rows a payment has stay, in place, under
  every sequence of commands.
\<close>

theorem payment_history_append_only:
  assumes "payment_ok p" and "pm_confirmedMinor p = Some m" and "\<forall>c \<in> set cmds. payment_command_ok c"
  shows "pm_confirmedMinor (drive payment_step p cmds) = Some m \<and>
    (\<exists>rows. pm_allocations (drive payment_step p cmds) = pm_allocations p @ rows) \<and>
    (\<exists>rows. pm_refunds (drive payment_step p cmds) = pm_refunds p @ rows)"
proof -
  have "extends_payment p p" using assms(1) by (simp add: extends_payment_def)
  from payment_history.drive_inv[OF this assms(3)] assms(2) show ?thesis
    by (simp add: extends_payment_def)
qed

lemma sample_payment_ok: "payment_ok (drive payment_step sample_payment sample_commands)"
  by (rule payment_machine.drive_inv) (simp_all add: fresh_payment_ok fresh_payment_def sample_payment_def sample_commands_def)

theorem payment_history_append_only_witness:
  "pm_confirmedMinor (drive payment_step (drive payment_step sample_payment sample_commands)
      [ConfirmPayment (mk_money 1 KES) (\<lambda>_. 0), FailPayment ''x'' (\<lambda>_. 0)]) = Some (mk_money 100 KES)"
  using payment_history_append_only[OF sample_payment_ok, of "mk_money 100 KES"
      "[ConfirmPayment (mk_money 1 KES) (\<lambda>_. 0), FailPayment ''x'' (\<lambda>_. 0)]"] sample_commands_run
  by simp

text \<open>
  Failed, reversed and refunded payments are final: no sequence of commands changes
  anything of such a payment.
\<close>

theorem payment_terminal_final:
  assumes "payment_isTerminal p"
  shows "drive payment_step p cmds = p"
  using assms by (rule payment_final.drive_terminal)

theorem payment_terminal_final_witness:
  "drive payment_step (sample_payment\<lparr>pm_state := Failed\<rparr>) [FailPayment ''again'' (\<lambda>_. 0), AwaitConfirmation] =
     sample_payment\<lparr>pm_state := Failed\<rparr>"
  by (rule payment_terminal_final) (simp add: payment_isTerminal_def TERMINAL_STATES_def)

text \<open>
  Conservation of confirmed funds: over any sequence of reservation attempts, the amounts
  accepted and what is left unapplied at the end add up to what was unapplied at the
  start; attempts that do not fit are refused whole.
\<close>

theorem payment_draws_conserve:
  assumes "payment_ok p"
  shows "unapplied_total (drive payment_draw_step p draws) +
      sum_list (map draw_amount (accepted payment_draw_step p draws)) = unapplied_total p \<and>
    0 \<le> unapplied_total (drive payment_draw_step p draws)"
  using payment_pool.drive_conserves[OF assms, of draws] payment_pool.drive_inv[OF assms, of draws]
    payment_pool.avail_nonneg by simp

theorem payment_draws_conserve_witness:
  "unapplied_total (drive payment_draw_step (drive payment_step sample_payment sample_commands)
      [DrawRefund (mk_money 10 KES) ''goodwill'' (Some ''f'') (\<lambda>_. 0)]) +
   sum_list (map draw_amount (accepted payment_draw_step (drive payment_step sample_payment sample_commands)
      [DrawRefund (mk_money 10 KES) ''goodwill'' (Some ''f'') (\<lambda>_. 0)])) = 40"
  using payment_draws_conserve[OF sample_payment_ok, of "[DrawRefund (mk_money 10 KES) ''goodwill'' (Some ''f'') (\<lambda>_. 0)]"]
    sample_commands_run by (simp add: unapplied_total_def)

end
