(* ===== verification/Invoice.thy ===== *)
theory Invoice
  imports Money Ids Js_Date Contracts
begin

text \<open>
  The invoice document of the receivables lane (\<open>src/src/domain/receivables/invoice.ts\<close>) and
  the event envelope of the lane (\<open>events.ts\<close>). Lines accumulate on a draft, issuing
  freezes the total, and an issued or sent invoice can be voided.
\<close>

section \<open>Events of the receivables lane\<close>

datatype aging_bucket = Days_0_30 | Days_31_60 | Days_61_90 | Days_90_Plus

datatype receivable_payload =
    ReceivableOpened uuid uuid js_num string
  | ReceivablePartiallySettled uuid js_num js_num
  | ReceivableSettled uuid string
  | ReceivableOverdue uuid int aging_bucket
  | ReceivableWrittenOff uuid string string
  | ReceivableRecovered uuid js_num

datatype invoice_payload =
    InvoiceIssued uuid uuid js_num currency string
  | InvoiceSent uuid string string
  | InvoiceVoided uuid string string

type_synonym receivable_event = "(receivable_payload, string) domain_event"
type_synonym invoice_event = "(invoice_payload, string) domain_event"

definition domainEvent :: "string \<Rightarrow> uuid \<Rightarrow> 'p \<Rightarrow> date \<Rightarrow> ('p, string) domain_event" where
  "domainEvent name aggregateId payload now =
     \<lparr>ev_name = name, ev_version = 1, ev_aggregateId = aggregateId, ev_payload = payload,
      ev_occurredAt = toISOString now\<rparr>"

definition minorToNumber :: "money \<Rightarrow> js_num result" where
  "minorToNumber amount = (let n = number_of (m_amount amount) in
     if \<not> is_safe_integer n then throw ''EVENT_AMOUNT_NOT_SAFE_INTEGER'' else Inr n)"

section \<open>Data\<close>

datatype invoice_status = I_Draft | I_Issued | I_Sent | I_Voided

record invoice_line =
  il_description :: string
  il_amount :: money

record invoice =
  iv_id :: uuid
  iv_customerId :: uuid
  iv_status :: invoice_status
  iv_currency :: currency
  iv_lines :: "invoice_line list"
  iv_total :: money
  iv_invoiceNumber :: "string option"
  iv_issuedAt :: "date option"
  iv_dueDate :: date
  iv_sentAt :: "date option"
  iv_sentChannel :: "string option"
  iv_voidedAt :: "date option"
  iv_voidReason :: "string option"
  iv_voidedBy :: "string option"
  iv_receivableId :: "uuid option"

section \<open>Operations\<close>

definition createInvoice :: "uuid \<Rightarrow> uuid \<Rightarrow> currency \<Rightarrow> date \<Rightarrow> invoice" where
  "createInvoice invId customerId c dueDate =
     \<lparr>iv_id = invId, iv_customerId = customerId, iv_status = I_Draft, iv_currency = c, iv_lines = [],
      iv_total = zero_money c, iv_invoiceNumber = None, iv_issuedAt = None, iv_dueDate = dueDate,
      iv_sentAt = None, iv_sentChannel = None, iv_voidedAt = None, iv_voidReason = None,
      iv_voidedBy = None, iv_receivableId = None\<rparr>"

definition addInvoiceLine :: "invoice \<Rightarrow> invoice_line \<Rightarrow> invoice result" where
  "addInvoiceLine iv line =
     (if iv_status iv \<noteq> I_Draft then throw ''INVOICE_LINES_FROZEN''
      else if trim (il_description line) = [] \<or> \<not> isPositive (il_amount line) then throw ''INVOICE_LINE_INVALID''
      else if m_currency (il_amount line) \<noteq> iv_currency iv then throw ''CURRENCY_MISMATCH''
      else and_then (add_money (iv_total iv) (il_amount line)) (\<lambda>total.
        Inr (iv\<lparr>iv_lines := iv_lines iv @ [\<lparr>il_description = trim (il_description line), il_amount = il_amount line\<rparr>],
                iv_total := total\<rparr>)))"

definition issueInvoice ::
  "invoice \<Rightarrow> js_num \<Rightarrow> (js_num \<Rightarrow> string) \<Rightarrow> clock \<Rightarrow> (invoice \<times> invoice_event) result" where
  "issueInvoice iv sequenceNo reserveNumber clk =
     (if iv_status iv = I_Issued then throw ''INVOICE_ALREADY_ISSUED''
      else if iv_status iv \<noteq> I_Draft then throw ''INVALID_INVOICE_TRANSITION''
      else if \<not> is_safe_integer sequenceNo \<or> js_less sequenceNo 1 then throw ''INVOICE_SEQUENCE_INVALID''
      else let invoiceNumber = trim (reserveNumber sequenceNo) in
        if invoiceNumber = [] then throw ''INVOICE_NUMBER_INVALID''
        else let issued = iv\<lparr>iv_status := I_Issued, iv_invoiceNumber := Some invoiceNumber, iv_issuedAt := Some (clk 0)\<rparr> in
          and_then (minorToNumber (iv_total iv)) (\<lambda>totalMinor.
            Inr (issued, domainEvent ''invoicing.invoiceIssued'' (iv_id iv)
              (InvoiceIssued (iv_id iv) (iv_customerId iv) totalMinor (iv_currency iv) (toISOString (iv_dueDate iv))) (clk 1))))"

definition markInvoiceSent :: "invoice \<Rightarrow> string \<Rightarrow> clock \<Rightarrow> (invoice \<times> invoice_event) result" where
  "markInvoiceSent iv channel clk = (let deliveredVia = trim channel in
     if deliveredVia = [] then throw ''INVOICE_CHANNEL_INVALID''
     else if iv_status iv \<noteq> I_Issued then throw ''INVOICE_NOT_ISSUED''
     else let sentAt = clk 0 in
       Inr (iv\<lparr>iv_status := I_Sent, iv_sentAt := Some sentAt, iv_sentChannel := Some deliveredVia\<rparr>,
            domainEvent ''invoicing.invoiceSent'' (iv_id iv) (InvoiceSent (iv_id iv) deliveredVia (toISOString sentAt)) (clk 1)))"

definition voidInvoice :: "invoice \<Rightarrow> string \<Rightarrow> string \<Rightarrow> clock \<Rightarrow> (invoice \<times> invoice_event) result" where
  "voidInvoice iv reason0 actorId0 clk = (let reason = trim reason0; actorId = trim actorId0 in
     if reason = [] then throw ''INVOICE_VOID_REASON_REQUIRED''
     else if actorId = [] then throw ''INVOICE_VOID_ACTOR_REQUIRED''
     else if iv_status iv \<noteq> I_Issued \<and> iv_status iv \<noteq> I_Sent then throw ''INVALID_INVOICE_TRANSITION''
     else Inr (iv\<lparr>iv_status := I_Voided, iv_voidedAt := Some (clk 0), iv_voidReason := Some reason, iv_voidedBy := Some actorId\<rparr>,
               domainEvent ''invoicing.invoiceVoided'' (iv_id iv) (InvoiceVoided (iv_id iv) reason actorId) (clk 1)))"

section \<open>The invoice machine\<close>

datatype invoice_command =
    AddLine invoice_line
  | IssueInvoice js_num "js_num \<Rightarrow> string" clock
  | MarkSent string clock
  | VoidInvoice string string clock

fun invoice_step :: "invoice \<Rightarrow> invoice_command \<Rightarrow> invoice result" where
  "invoice_step iv (AddLine line) = addInvoiceLine iv line"
| "invoice_step iv (IssueInvoice n f clk) = and_then (issueInvoice iv n f clk) (\<lambda>r. Inr (fst r))"
| "invoice_step iv (MarkSent ch clk) = and_then (markInvoiceSent iv ch clk) (\<lambda>r. Inr (fst r))"
| "invoice_step iv (VoidInvoice reason actor clk) = and_then (voidInvoice iv reason actor clk) (\<lambda>r. Inr (fst r))"

text \<open>
  The total is the sum of the lines, all of them positive amounts of the invoice currency
  with a description; a number exists exactly once the invoice has left the draft state.
\<close>

definition invoice_ok :: "invoice \<Rightarrow> bool" where
  "invoice_ok iv \<longleftrightarrow>
     (\<forall>l \<in> set (iv_lines iv). il_description l \<noteq> [] \<and> isPositive (il_amount l) \<and> m_currency (il_amount l) = iv_currency iv) \<and>
     iv_total iv = mk_money (sum_list (map (\<lambda>l. m_amount (il_amount l)) (iv_lines iv))) (iv_currency iv) \<and>
     (iv_invoiceNumber iv = None \<longleftrightarrow> iv_status iv = I_Draft)"

lemma createInvoice_ok: "invoice_ok (createInvoice i c cur d)"
  by (simp add: createInvoice_def invoice_ok_def zero_money_def)

lemma addInvoiceLine_ok:
  assumes "invoice_ok iv" and "addInvoiceLine iv line = Inr iv'"
  shows "invoice_ok iv'"
proof -
  from assms(2) obtain total where a: "add_money (iv_total iv) (il_amount line) = Inr total"
    "trim (il_description line) \<noteq> []" "isPositive (il_amount line)" "m_currency (il_amount line) = iv_currency iv"
    and r: "iv' = iv\<lparr>iv_lines := iv_lines iv @ [\<lparr>il_description = trim (il_description line), il_amount = il_amount line\<rparr>],
      iv_total := total\<rparr>"
    by (auto simp: addInvoiceLine_def result_simps)
  from a(1) assms(1) have "total = mk_money (m_amount (iv_total iv) + m_amount (il_amount line)) (iv_currency iv)"
    by (simp add: add_money_Inr invoice_ok_def)
  with a assms(1) show ?thesis by (auto simp: invoice_ok_def r)
qed

lemma invoice_step_ok:
  assumes "invoice_ok iv" and "invoice_step iv c = Inr iv'"
  shows "invoice_ok iv'"
  using assms(2)
proof (cases c)
  case (AddLine line)
  with assms addInvoiceLine_ok show ?thesis by simp
qed (use assms in \<open>auto simp: issueInvoice_def markInvoiceSent_def voidInvoice_def result_simps Let_def invoice_ok_def\<close>)

interpretation invoice_machine: guarded_machine invoice_step invoice_ok "\<lambda>_. True"
  by unfold_locales (rule invoice_step_ok)

text \<open>Once issued, the lines, the total, the number and the currency are frozen.\<close>

definition frozen_as :: "invoice \<Rightarrow> invoice \<Rightarrow> bool" where
  "frozen_as iv iv' \<longleftrightarrow> iv_status iv' \<noteq> I_Draft \<and> iv_lines iv' = iv_lines iv \<and> iv_total iv' = iv_total iv \<and>
     iv_invoiceNumber iv' = iv_invoiceNumber iv \<and> iv_currency iv' = iv_currency iv \<and> iv_dueDate iv' = iv_dueDate iv"

interpretation invoice_frozen: guarded_machine invoice_step "frozen_as iv" "\<lambda>_. True" for iv
proof
  fix s c s'
  assume "frozen_as iv s" and "invoice_step s c = Inr s'"
  then show "frozen_as iv s'"
    by (cases c) (auto simp: frozen_as_def addInvoiceLine_def issueInvoice_def markInvoiceSent_def voidInvoice_def
        result_simps Let_def)
qed

text \<open>
  An invoice's total is always the sum of its lines, and is frozen by issuing: from a new
  invoice, whatever commands follow, the total equals the sum of positive lines of the
  invoice currency; and from an invoice that has left the draft state no command changes its
  lines, total, number, currency or due date.
\<close>

theorem invoice_total_frozen:
  assumes "iv = drive invoice_step (createInvoice i c cur d) cmds"
  shows "iv_total iv = mk_money (sum_list (map (\<lambda>l. m_amount (il_amount l)) (iv_lines iv))) (iv_currency iv) \<and>
    (\<forall>l \<in> set (iv_lines iv). isPositive (il_amount l) \<and> m_currency (il_amount l) = iv_currency iv) \<and>
    (iv_status iv \<noteq> I_Draft \<longrightarrow> frozen_as iv (drive invoice_step iv later))"
proof -
  have "invoice_ok iv" unfolding assms by (rule invoice_machine.drive_inv) (simp_all add: createInvoice_ok)
  moreover have "frozen_as iv (drive invoice_step iv later)" if "iv_status iv \<noteq> I_Draft"
    by (rule invoice_frozen.drive_inv) (use that in \<open>simp_all add: frozen_as_def\<close>)
  ultimately show ?thesis by (simp add: invoice_ok_def)
qed

definition sample_invoice :: invoice where
  "sample_invoice = drive invoice_step (createInvoice ''i'' ''c'' KES 0)
     [AddLine \<lparr>il_description = ''rent'', il_amount = mk_money 300 KES\<rparr>,
      AddLine \<lparr>il_description = ''  '', il_amount = mk_money 1 KES\<rparr>,
      AddLine \<lparr>il_description = ''water'', il_amount = mk_money 50 KES\<rparr>,
      IssueInvoice (Fin 1) (\<lambda>_. ''INV-1'') (\<lambda>_. 0)]"

theorem invoice_total_frozen_witness:
  "iv_total sample_invoice =
     mk_money (sum_list (map (\<lambda>l. m_amount (il_amount l)) (iv_lines sample_invoice))) (iv_currency sample_invoice)"
  using invoice_total_frozen[OF sample_invoice_def] by blast

end
