(* ===== verification/Receivable.thy ===== *)
theory Receivable
  imports Invoice
begin

text \<open>
  The receivable, the debt position behind an issued invoice
  (\<open>src/src/domain/receivables/receivable.ts\<close>), with its aging buckets (\<open>aging.ts\<close>):
  opening, applying allocations, the overdue flag, write-off, uncollectible, void.
\<close>

section \<open>Data\<close>

datatype receivable_state =
  R_Draft | R_Open | R_Partially_Paid | R_Settled | R_Written_Off | R_Recovered | R_Uncollectible | R_Voided

record receivable_write_off =
  wo_reason :: string
  wo_approvedBy :: string
  wo_writtenOffAt :: date

record receivable =
  rc_id :: uuid
  rc_invoiceId :: uuid
  rc_customerId :: uuid
  rc_currency :: currency
  rc_original :: money
  rc_applied :: money
  rc_state :: receivable_state
  rc_overdue :: bool
  rc_openedAt :: "date option"
  rc_dueDate :: date
  rc_settledAt :: "date option"
  rc_voidedAt :: "date option"
  rc_writeOff :: "receivable_write_off option"
  rc_uncollectibleReason :: "string option"
  rc_uncollectibleAt :: "date option"
  rc_recoveredAt :: "date option"

definition receivable_balanceOf :: "receivable \<Rightarrow> money result" where
  "receivable_balanceOf r = subtract_money (rc_original r) (rc_applied r)"

section \<open>Aging\<close>

definition daysPastDue :: "receivable \<Rightarrow> date \<Rightarrow> int" where
  "daysPastDue r now = max 0 (floor_quotient (now - rc_dueDate r) 86400000)"

definition agingBucket :: "receivable \<Rightarrow> date \<Rightarrow> aging_bucket result" where
  "agingBucket r now =
     (if rc_state r = R_Settled then throw ''AGING_NOT_APPLICABLE''
      else let days = daysPastDue r now in
        Inr (if days \<le> 30 then Days_0_30 else if days \<le> 60 then Days_31_60
             else if days \<le> 90 then Days_61_90 else Days_90_Plus))"

section \<open>Opening\<close>

definition buildReceivable :: "uuid \<Rightarrow> invoice \<Rightarrow> receivable_state \<Rightarrow> receivable" where
  "buildReceivable rid iv st =
     \<lparr>rc_id = rid, rc_invoiceId = iv_id iv, rc_customerId = iv_customerId iv, rc_currency = iv_currency iv,
      rc_original = iv_total iv, rc_applied = zero_money (iv_currency iv), rc_state = st, rc_overdue = False,
      rc_openedAt = None, rc_dueDate = iv_dueDate iv, rc_settledAt = None, rc_voidedAt = None, rc_writeOff = None,
      rc_uncollectibleReason = None, rc_uncollectibleAt = None, rc_recoveredAt = None\<rparr>"

definition draftReceivableFor :: "invoice \<Rightarrow> uuid \<Rightarrow> (invoice \<times> receivable) result" where
  "draftReceivableFor iv receivableId =
     (if iv_status iv \<noteq> I_Draft then throw ''INVOICE_NOT_DRAFT''
      else if iv_receivableId iv \<noteq> None then throw ''RECEIVABLE_ALREADY_OPEN''
      else Inr (iv\<lparr>iv_receivableId := Some receivableId\<rparr>, buildReceivable receivableId iv R_Draft))"

text \<open>The transition mode of \<open>openReceivable\<close>: re-validate a paired draft.\<close>

definition open_draft :: "invoice \<Rightarrow> uuid \<Rightarrow> receivable \<Rightarrow> date \<Rightarrow> receivable result" where
  "open_draft iv receivableId draft now =
     (if rc_id draft \<noteq> receivableId then throw ''RECEIVABLE_INVOICE_MISMATCH''
      else if rc_invoiceId draft \<noteq> iv_id iv then throw ''RECEIVABLE_INVOICE_MISMATCH''
      else if rc_state draft \<noteq> R_Draft then throw ''RECEIVABLE_ALREADY_OPEN''
      else if rc_currency draft \<noteq> iv_currency iv then throw ''RECEIVABLE_INVOICE_MISMATCH''
      else and_then (equals_money (rc_original draft) (iv_total iv)) (\<lambda>same.
        if \<not> same \<or> rc_customerId draft \<noteq> iv_customerId iv \<or> rc_dueDate draft \<noteq> iv_dueDate iv
        then throw ''RECEIVABLE_INVOICE_MISMATCH''
        else if iv_receivableId iv \<noteq> None \<and> iv_receivableId iv \<noteq> Some (rc_id draft) then throw ''RECEIVABLE_ALREADY_OPEN''
        else Inr (draft\<lparr>rc_state := R_Open, rc_openedAt := Some now\<rparr>)))"

definition openReceivable ::
  "invoice \<Rightarrow> uuid \<Rightarrow> clock \<Rightarrow> receivable option \<Rightarrow> (invoice \<times> receivable \<times> receivable_event) result" where
  "openReceivable iv receivableId clk draft =
     (if iv_status iv \<noteq> I_Issued then throw ''INVOICE_NOT_ISSUED''
      else if \<not> isPositive (iv_total iv) then throw ''INVOICE_TOTAL_ZERO''
      else and_then (case draft of
          Some d \<Rightarrow> open_draft iv receivableId d (clk 0)
        | None \<Rightarrow> if iv_receivableId iv \<noteq> None then throw ''RECEIVABLE_ALREADY_OPEN''
            else Inr ((buildReceivable receivableId iv R_Open)\<lparr>rc_openedAt := Some (clk 0)\<rparr>)) (\<lambda>opened.
        and_then (minorToNumber (iv_total iv)) (\<lambda>originalMinor.
          Inr (if iv_receivableId iv = Some (rc_id opened) then iv else iv\<lparr>iv_receivableId := Some (rc_id opened)\<rparr>,
               opened,
               domainEvent ''receivable.opened'' (rc_id opened)
                 (ReceivableOpened (rc_id opened) (iv_id iv) originalMinor (toISOString (iv_dueDate iv))) (clk 1)))))"

section \<open>Operations on the debt\<close>

definition applyAllocation :: "receivable \<Rightarrow> money \<Rightarrow> clock \<Rightarrow> (receivable \<times> receivable_event) result" where
  "applyAllocation r amount clk =
     (if m_currency amount \<noteq> rc_currency r then throw ''CURRENCY_MISMATCH''
      else if \<not> isPositive amount then throw ''ALLOCATION_AMOUNT_INVALID''
      else and_then (receivable_balanceOf r) (\<lambda>balance.
        if rc_state r = R_Written_Off then
          and_then (compareTo amount balance) (\<lambda>cmp.
            if cmp > 0 then throw ''ALLOCATION_EXCEEDS_BALANCE''
            else and_then (add_money (rc_applied r) amount) (\<lambda>applied.
              and_then (minorToNumber amount) (\<lambda>amountMinor.
                Inr (r\<lparr>rc_applied := applied, rc_state := R_Recovered, rc_recoveredAt := Some (clk 0)\<rparr>,
                     domainEvent ''receivable.recovered'' (rc_id r) (ReceivableRecovered (rc_id r) amountMinor) (clk 1)))))
        else if rc_state r \<noteq> R_Open \<and> rc_state r \<noteq> R_Partially_Paid then throw ''INVALID_RECEIVABLE_TRANSITION''
        else and_then (compareTo amount balance) (\<lambda>cmp.
          if cmp > 0 then throw ''ALLOCATION_EXCEEDS_BALANCE''
          else and_then (add_money (rc_applied r) amount) (\<lambda>applied.
            and_then (equals_money applied (rc_original r)) (\<lambda>settledNow.
              if settledNow then
                Inr (r\<lparr>rc_applied := applied, rc_state := R_Settled, rc_overdue := False, rc_settledAt := Some (clk 0)\<rparr>,
                     domainEvent ''receivable.settled'' (rc_id r) (ReceivableSettled (rc_id r) (toISOString (clk 0))) (clk 1))
              else
                and_then (minorToNumber amount) (\<lambda>amountMinor.
                and_then (subtract_money (rc_original r) applied) (\<lambda>remaining.
                and_then (minorToNumber remaining) (\<lambda>remainingMinor.
                  Inr (r\<lparr>rc_applied := applied, rc_state := R_Partially_Paid\<rparr>,
                       domainEvent ''receivable.partiallySettled'' (rc_id r)
                         (ReceivablePartiallySettled (rc_id r) amountMinor remainingMinor) (clk 0))))))))))"

definition markOverdue :: "receivable \<Rightarrow> clock \<Rightarrow> (receivable \<times> receivable_event) result" where
  "markOverdue r clk =
     (if rc_state r \<noteq> R_Open \<and> rc_state r \<noteq> R_Partially_Paid then throw ''INVALID_RECEIVABLE_TRANSITION''
      else if rc_overdue r then throw ''OVERDUE_ALREADY_MARKED''
      else if clk 0 \<le> rc_dueDate r then throw ''RECEIVABLE_NOT_DUE''
      else let daysLate = daysPastDue r (clk 1) in
        and_then (agingBucket r (clk 2)) (\<lambda>bucket.
          Inr (r\<lparr>rc_overdue := True\<rparr>,
               domainEvent ''receivable.overdue'' (rc_id r) (ReceivableOverdue (rc_id r) daysLate bucket) (clk 3))))"

definition writeOff :: "receivable \<Rightarrow> string \<Rightarrow> string \<Rightarrow> clock \<Rightarrow> (receivable \<times> receivable_event) result" where
  "writeOff r reason0 approvedBy0 clk = (let reason = trim reason0; approvedBy = trim approvedBy0 in
     if reason = [] then throw ''WRITE_OFF_REASON_REQUIRED''
     else if approvedBy = [] then throw ''WRITE_OFF_APPROVER_REQUIRED''
     else if rc_state r \<noteq> R_Open \<and> rc_state r \<noteq> R_Partially_Paid then throw ''INVALID_RECEIVABLE_TRANSITION''
     else if \<not> rc_overdue r then throw ''WRITE_OFF_REQUIRES_OVERDUE''
     else Inr (r\<lparr>rc_state := R_Written_Off,
                  rc_writeOff := Some \<lparr>wo_reason = reason, wo_approvedBy = approvedBy, wo_writtenOffAt = clk 0\<rparr>\<rparr>,
               domainEvent ''receivable.writtenOff'' (rc_id r) (ReceivableWrittenOff (rc_id r) reason approvedBy) (clk 1)))"

definition markUncollectible :: "receivable \<Rightarrow> string \<Rightarrow> clock \<Rightarrow> receivable result" where
  "markUncollectible r reason0 clk = (let reason = trim reason0 in
     if reason = [] then throw ''UNCOLLECTIBLE_REASON_REQUIRED''
     else if rc_state r \<noteq> R_Open \<and> rc_state r \<noteq> R_Partially_Paid then throw ''INVALID_RECEIVABLE_TRANSITION''
     else if \<not> rc_overdue r then throw ''UNCOLLECTIBLE_REQUIRES_OVERDUE''
     else Inr (r\<lparr>rc_state := R_Uncollectible, rc_uncollectibleReason := Some reason, rc_uncollectibleAt := Some (clk 0)\<rparr>))"

definition voidReceivable :: "receivable \<Rightarrow> clock \<Rightarrow> receivable result" where
  "voidReceivable r clk =
     (if rc_state r = R_Partially_Paid then throw ''RECEIVABLE_VOID_REQUIRES_ZERO_APPLIED''
      else if rc_state r \<noteq> R_Open then throw ''INVALID_RECEIVABLE_TRANSITION''
      else if \<not> isZero (rc_applied r) then throw ''RECEIVABLE_VOID_REQUIRES_ZERO_APPLIED''
      else Inr (r\<lparr>rc_state := R_Voided, rc_overdue := False, rc_voidedAt := Some (clk 0)\<rparr>))"

section \<open>The receivable machine\<close>

datatype receivable_command =
    ApplyAllocation money clock
  | MarkOverdue clock
  | WriteOff string string clock
  | MarkUncollectible string clock
  | VoidReceivable clock

fun receivable_step :: "receivable \<Rightarrow> receivable_command \<Rightarrow> receivable result" where
  "receivable_step r (ApplyAllocation amount clk) = and_then (applyAllocation r amount clk) (\<lambda>x. Inr (fst x))"
| "receivable_step r (MarkOverdue clk) = and_then (markOverdue r clk) (\<lambda>x. Inr (fst x))"
| "receivable_step r (WriteOff reason approvedBy clk) = and_then (writeOff r reason approvedBy clk) (\<lambda>x. Inr (fst x))"
| "receivable_step r (MarkUncollectible reason clk) = markUncollectible r reason clk"
| "receivable_step r (VoidReceivable clk) = voidReceivable r clk"


text \<open>The outstanding balance, as a number of minor units.\<close>

definition open_minor :: "receivable \<Rightarrow> int" where
  "open_minor r = m_amount (rc_original r) - m_amount (rc_applied r)"

text \<open>
  The invariant (R1): one currency, \<open>0 \<le> applied \<le> original\<close>; nothing is applied while
  draft, open or voided, partially paid means strictly between, settled means all of it;
  a write-off, an uncollectible verdict and a recovery only happen to an overdue debt.
\<close>

definition receivable_money_ok :: "receivable \<Rightarrow> bool" where
  "receivable_money_ok r \<longleftrightarrow> m_currency (rc_original r) = rc_currency r \<and> m_currency (rc_applied r) = rc_currency r \<and>
     0 \<le> m_amount (rc_applied r) \<and> m_amount (rc_applied r) \<le> m_amount (rc_original r) \<and> 0 < m_amount (rc_original r)"

fun receivable_state_ok :: "receivable_state \<Rightarrow> receivable \<Rightarrow> bool" where
  "receivable_state_ok R_Draft r = (m_amount (rc_applied r) = 0 \<and> \<not> rc_overdue r)"
| "receivable_state_ok R_Open r = (m_amount (rc_applied r) = 0)"
| "receivable_state_ok R_Partially_Paid r = (0 < m_amount (rc_applied r) \<and> 0 < open_minor r)"
| "receivable_state_ok R_Settled r = (open_minor r = 0 \<and> \<not> rc_overdue r \<and> rc_settledAt r \<noteq> None)"
| "receivable_state_ok R_Written_Off r = (0 < open_minor r \<and> rc_overdue r \<and> rc_writeOff r \<noteq> None)"
| "receivable_state_ok R_Recovered r = (0 < m_amount (rc_applied r) \<and> rc_overdue r \<and> rc_writeOff r \<noteq> None)"
| "receivable_state_ok R_Uncollectible r = (0 < open_minor r \<and> rc_overdue r \<and> rc_uncollectibleReason r \<noteq> None)"
| "receivable_state_ok R_Voided r = (m_amount (rc_applied r) = 0 \<and> \<not> rc_overdue r)"

definition receivable_ok :: "receivable \<Rightarrow> bool" where
  "receivable_ok r \<longleftrightarrow> receivable_money_ok r \<and> receivable_state_ok (rc_state r) r"

lemma receivable_balanceOf_minor:
  "receivable_ok r \<Longrightarrow> receivable_balanceOf r = Inr (mk_money (open_minor r) (rc_currency r))"
  by (simp add: receivable_balanceOf_def receivable_ok_def receivable_money_ok_def subtract_money_same open_minor_def)

lemma applyAllocation_facts:
  assumes ok: "receivable_ok r" and run: "applyAllocation r amount clk = Inr (r', e)"
  shows "m_currency amount = rc_currency r \<and> 0 < m_amount amount \<and> m_amount amount \<le> open_minor r \<and>
    (rc_state r = R_Written_Off \<and> r' = r\<lparr>rc_applied := mk_money (m_amount (rc_applied r) + m_amount amount) (rc_currency r),
        rc_state := R_Recovered, rc_recoveredAt := Some (clk 0)\<rparr> \<or>
     rc_state r \<in> {R_Open, R_Partially_Paid} \<and> m_amount amount = open_minor r \<and>
       r' = r\<lparr>rc_applied := mk_money (m_amount (rc_applied r) + m_amount amount) (rc_currency r),
        rc_state := R_Settled, rc_overdue := False, rc_settledAt := Some (clk 0)\<rparr> \<or>
     rc_state r \<in> {R_Open, R_Partially_Paid} \<and> m_amount amount < open_minor r \<and>
       r' = r\<lparr>rc_applied := mk_money (m_amount (rc_applied r) + m_amount amount) (rc_currency r),
        rc_state := R_Partially_Paid\<rparr>)"
proof -
  note cur = ok[unfolded receivable_ok_def receivable_money_ok_def]
  from run have g: "m_currency amount = rc_currency r" "0 < m_amount amount"
    by (auto simp: applyAllocation_def isPositive_def split: if_splits)
  show ?thesis
  proof (cases "rc_state r = R_Written_Off")
    case True
    with run g cur show ?thesis
      by (auto simp: applyAllocation_def receivable_balanceOf_minor[OF ok] result_simps compareTo_same
          add_money_same isPositive_def split: if_splits)
  next
    case False
    with run have st: "rc_state r \<in> {R_Open, R_Partially_Paid}"
      by (auto simp: applyAllocation_def result_simps split: if_splits)
    with False run g cur show ?thesis
      by (auto simp: applyAllocation_def receivable_balanceOf_minor[OF ok] result_simps compareTo_same
          add_money_same equals_money_same isPositive_def open_minor_def money_eq_iff split: if_splits)
  qed
qed

lemma applyAllocation_ok:
  assumes "receivable_ok r" and "applyAllocation r amount clk = Inr (r', e)"
  shows "receivable_ok r' \<and> open_minor r' = open_minor r - m_amount amount \<and> 0 < m_amount amount"
  using applyAllocation_facts[OF assms] assms(1)
  by (elim conjE disjE) (auto simp: receivable_ok_def receivable_money_ok_def open_minor_def)

lemma receivable_step_ok:
  assumes ok: "receivable_ok r" and step: "receivable_step r c = Inr r'"
  shows "receivable_ok r'"
proof (cases c)
  case (ApplyAllocation amount clk)
  with step obtain e where "applyAllocation r amount clk = Inr (r', e)" by (auto simp: result_simps)
  with applyAllocation_ok[OF ok this] show ?thesis by simp
qed (use assms in \<open>auto simp: markOverdue_def writeOff_def markUncollectible_def voidReceivable_def result_simps Let_def
      receivable_ok_def receivable_money_ok_def open_minor_def isZero_def\<close>)

interpretation receivable_machine: guarded_machine receivable_step receivable_ok "\<lambda>_. True"
  by unfold_locales (rule receivable_step_ok)

definition apply_step :: "receivable \<Rightarrow> money \<times> clock \<Rightarrow> receivable result" where
  "apply_step r c = receivable_step r (ApplyAllocation (fst c) (snd c))"

interpretation receivable_pool: funds_pool apply_step receivable_ok "\<lambda>_. True" open_minor "\<lambda>c. m_amount (fst c)"
proof unfold_locales
  fix s c s'
  assume ok: "receivable_ok s"
  show "0 \<le> open_minor s" using ok by (simp add: receivable_ok_def receivable_money_ok_def open_minor_def)
  assume "apply_step s c = Inr s'"
  then obtain e where "applyAllocation s (fst c) (snd c) = Inr (s', e)" by (auto simp: apply_step_def result_simps)
  from applyAllocation_ok[OF ok this]
  show "receivable_ok s'" "open_minor s' = open_minor s - m_amount (fst c)" "0 < m_amount (fst c)" by simp_all
qed

definition receivable_terminal :: "receivable \<Rightarrow> bool" where
  "receivable_terminal r \<longleftrightarrow> rc_state r \<in> {R_Settled, R_Recovered, R_Uncollectible, R_Voided}"

interpretation receivable_final: absorbing_machine receivable_step receivable_terminal
proof
  fix r c r'
  assume "receivable_terminal r" and "receivable_step r c = Inr r'"
  then show "r' = r"
    by (cases c) (auto simp: receivable_terminal_def applyAllocation_def markOverdue_def writeOff_def
        markUncollectible_def voidReceivable_def result_simps Let_def)
qed

section \<open>Opening keeps the exactly-one rule\<close>

lemma open_draft_Inr:
  assumes "open_draft iv rid d now = Inr r"
  shows "rc_id d = rid \<and> rc_currency d = iv_currency iv \<and> rc_original d = iv_total iv \<and>
    (iv_receivableId iv = None \<or> iv_receivableId iv = Some rid) \<and> r = d\<lparr>rc_state := R_Open, rc_openedAt := Some now\<rparr>"
  using assms unfolding open_draft_def by (simp add: result_simps equals_money_Inr) auto

lemma openReceivable_Inr:
  assumes "openReceivable iv rid clk draft = Inr (iv', r, e)"
  shows "iv_status iv = I_Issued \<and> isPositive (iv_total iv) \<and> iv_receivableId iv' = Some (rc_id r) \<and>
    (case draft of Some d \<Rightarrow> open_draft iv rid d (clk 0) = Inr r
     | None \<Rightarrow> iv_receivableId iv = None \<and> r = (buildReceivable rid iv R_Open)\<lparr>rc_openedAt := Some (clk 0)\<rparr>)"
  using assms by (cases draft) (simp_all add: openReceivable_def result_simps, auto)

text \<open>A paired draft as \<open>draftReceivableFor\<close> builds it has nothing applied and is not overdue.\<close>

definition untouched :: "receivable \<Rightarrow> bool" where
  "untouched d \<longleftrightarrow> rc_applied d = zero_money (rc_currency d) \<and> \<not> rc_overdue d"

lemma draftReceivableFor_untouched: "draftReceivableFor iv rid = Inr (iv', d) \<Longrightarrow> untouched d"
  by (auto simp: draftReceivableFor_def buildReceivable_def untouched_def split: if_splits)

lemma openReceivable_ok:
  assumes "openReceivable iv rid clk draft = Inr (iv', r, e)" and "invoice_ok iv"
    and "\<And>d. draft = Some d \<Longrightarrow> untouched d"
  shows "receivable_ok r \<and> rc_state r = R_Open \<and> rc_original r = iv_total iv \<and> rc_id r = rid \<and>
    iv_receivableId iv' = Some rid \<and> (iv_receivableId iv = None \<or> iv_receivableId iv = Some rid)"
proof -
  note o = openReceivable_Inr[OF assms(1)]
  have tot: "m_currency (iv_total iv) = iv_currency iv" using assms(2) by (simp add: invoice_ok_def)
  show ?thesis
  proof (cases draft)
    case None
    with o tot show ?thesis
      by (auto simp: buildReceivable_def receivable_ok_def receivable_money_ok_def isPositive_def)
  next
    case (Some d)
    with o have "open_draft iv rid d (clk 0) = Inr r" by simp
    from open_draft_Inr[OF this] assms(3)[OF Some] o tot show ?thesis
      by (auto simp: receivable_ok_def receivable_money_ok_def isPositive_def untouched_def)
  qed
qed

lemma receivable_step_original:
  assumes ok: "receivable_ok r" and step: "receivable_step r c = Inr r'"
  shows "rc_original r' = rc_original r"
proof (cases c)
  case (ApplyAllocation amount clk)
  with step obtain e where "applyAllocation r amount clk = Inr (r', e)" by (auto simp: result_simps)
  from applyAllocation_facts[OF ok this] show ?thesis by auto
qed (use assms in \<open>auto simp: markOverdue_def writeOff_def markUncollectible_def voidReceivable_def result_simps Let_def\<close>)

interpretation receivable_original: guarded_machine receivable_step "\<lambda>r. receivable_ok r \<and> rc_original r = m" "\<lambda>_. True" for m
  by unfold_locales (auto intro: receivable_step_ok dest: receivable_step_original)

section \<open>Properties of receivables\<close>

text \<open>
  C4. R1 for every history of a receivable: from its opening on, whatever commands follow, the
  original amount stays the invoice total, the balance is original minus applied, never negative
  and never above the total, and the state agrees with it: the whole total is outstanding on a
  draft, open or voided receivable, nothing on a settled one, part of it strictly between on a
  partially paid one, something on a written-off or uncollectible one, and less than the total
  on a recovered one.
\<close>

theorem receivable_R1:
  assumes "openReceivable iv rid clk None = Inr (iv', r0, e)" and "invoice_ok iv"
    and "r = drive receivable_step r0 cmds"
  shows "rc_original r = iv_total iv \<and> receivable_balanceOf r = Inr (mk_money (open_minor r) (rc_currency r)) \<and>
    0 \<le> open_minor r \<and> open_minor r \<le> m_amount (iv_total iv) \<and>
    (rc_state r = R_Settled \<longrightarrow> open_minor r = 0) \<and>
    (rc_state r = R_Partially_Paid \<longrightarrow> 0 < open_minor r \<and> open_minor r < m_amount (iv_total iv)) \<and>
    (rc_state r \<in> {R_Draft, R_Open, R_Voided} \<longrightarrow> open_minor r = m_amount (iv_total iv)) \<and>
    (rc_state r \<in> {R_Written_Off, R_Uncollectible} \<longrightarrow> 0 < open_minor r) \<and>
    (rc_state r = R_Recovered \<longrightarrow> open_minor r < m_amount (iv_total iv))"
proof -
  from openReceivable_ok[OF assms(1,2)] have r0: "receivable_ok r0" "rc_original r0 = iv_total iv" by auto
  have ok: "receivable_ok r" unfolding assms(3) by (rule receivable_machine.drive_inv[OF r0(1)]) simp
  have orig: "rc_original r = iv_total iv"
    using receivable_original.drive_inv[of r0 "iv_total iv" cmds] r0 by (simp add: assms(3))
  from receivable_balanceOf_minor[OF ok] ok orig show ?thesis
    by (auto simp: receivable_ok_def receivable_money_ok_def open_minor_def)
qed

lemma sample_invoice_facts:
  "invoice_ok sample_invoice \<and> iv_status sample_invoice = I_Issued \<and> iv_total sample_invoice = mk_money 350 KES \<and>
   iv_receivableId sample_invoice = None"
proof -
  have "number_of 350 = Fin 350" using number_of_int[of 350] by simp
  then show ?thesis
    by (simp add: sample_invoice_def createInvoice_def addInvoiceLine_def issueInvoice_def minorToNumber_def
        trim_def is_js_space_def money_simps zero_money_def Let_def max_safe_integer_def invoice_ok_def isPositive_def)
qed

lemma sample_open:
  "\<exists>iv' r e. openReceivable sample_invoice ''r'' (\<lambda>_. 0) None = Inr (iv', r, e)"
proof -
  have "number_of 350 = Fin 350" using number_of_int[of 350] by simp
  then show ?thesis
    using sample_invoice_facts by (simp add: openReceivable_def minorToNumber_def Let_def max_safe_integer_def)
qed

theorem receivable_R1_witness:
  "\<exists>iv' r e. openReceivable sample_invoice ''r'' (\<lambda>_. 0) None = Inr (iv', r, e) \<and>
     0 \<le> open_minor (drive receivable_step r [ApplyAllocation (mk_money 100 KES) (\<lambda>_. 0), MarkOverdue (\<lambda>_. 9)])"
proof -
  from sample_open obtain iv' r e where o: "openReceivable sample_invoice ''r'' (\<lambda>_. 0) None = Inr (iv', r, e)" by blast
  from receivable_R1[OF o _ refl, of "[ApplyAllocation (mk_money 100 KES) (\<lambda>_. 0), MarkOverdue (\<lambda>_. 9)]"]
    sample_invoice_facts o show ?thesis by blast
qed

text \<open>
  Allocations to a receivable conserve the debt: over any sequence of attempted
  allocations, the amounts accepted add up to exactly what the balance went down by, so they
  never exceed the balance; the rest is refused.
\<close>

theorem receivable_allocations_conserve:
  assumes "receivable_ok r"
  shows "open_minor (drive apply_step r attempts) +
      sum_list (map (\<lambda>c. m_amount (fst c)) (accepted apply_step r attempts)) = open_minor r \<and>
    0 \<le> open_minor (drive apply_step r attempts)"
  using receivable_pool.drive_conserves[OF assms, of attempts] receivable_pool.drive_inv[OF assms, of attempts]
    receivable_pool.avail_nonneg by simp

definition sample_receivable_open :: receivable where
  "sample_receivable_open = \<lparr>rc_id = ''r'', rc_invoiceId = ''i'', rc_customerId = ''c'', rc_currency = KES,
     rc_original = mk_money 350 KES, rc_applied = mk_money 0 KES, rc_state = R_Open, rc_overdue = False,
     rc_openedAt = Some 0, rc_dueDate = 10, rc_settledAt = None, rc_voidedAt = None, rc_writeOff = None,
     rc_uncollectibleReason = None, rc_uncollectibleAt = None, rc_recoveredAt = None\<rparr>"

theorem receivable_allocations_conserve_witness:
  "open_minor (drive apply_step sample_receivable_open [(mk_money 300 KES, \<lambda>_. 0), (mk_money 300 KES, \<lambda>_. 0)]) +
     sum_list (map (\<lambda>c. m_amount (fst c))
       (accepted apply_step sample_receivable_open [(mk_money 300 KES, \<lambda>_. 0), (mk_money 300 KES, \<lambda>_. 0)])) = 350"
  using receivable_allocations_conserve[of sample_receivable_open "[(mk_money 300 KES, \<lambda>_. 0), (mk_money 300 KES, \<lambda>_. 0)]"]
  by (simp add: sample_receivable_open_def receivable_ok_def receivable_money_ok_def open_minor_def)

text \<open>
  C23. Aging: for a date less than \<open>2 ^ 53\<close> milliseconds after the due date the floating-point
  day count is the exact number of whole days, and the bucket changes exactly after days 30,
  60 and 90; before the due date it is zero days.
\<close>

theorem agingBucket_boundaries:
  assumes "now - rc_dueDate r < 2 ^ 53" and "rc_state r \<noteq> R_Settled"
  shows "daysPastDue r now = max 0 ((now - rc_dueDate r) div 86400000) \<and>
    agingBucket r now = Inr
      (if now - rc_dueDate r < 31 * 86400000 then Days_0_30
       else if now - rc_dueDate r < 61 * 86400000 then Days_31_60
       else if now - rc_dueDate r < 91 * 86400000 then Days_61_90 else Days_90_Plus)"
proof -
  let ?e = "now - rc_dueDate r"
  have days: "daysPastDue r now = max 0 (?e div 86400000)"
  proof (cases "0 \<le> ?e")
    case True
    then show ?thesis using floor_quotient_div[OF True assms(1)] by (simp add: daysPastDue_def)
  next
    case False
    then have "?e div 86400000 < 0" by (simp add: pos_imp_zdiv_neg_iff)
    with False show ?thesis using floor_quotient_nonpos[of ?e 86400000] by (simp add: daysPastDue_def)
  qed
  have le: "daysPastDue r now \<le> k \<longleftrightarrow> ?e < (k + 1) * 86400000" if "0 \<le> k" for k
    using that div_le_iff[of 86400000 ?e k] by (simp add: days)
  show ?thesis
    using assms(2) days le[of 30] le[of 60] le[of 90] by (simp only: agingBucket_def Let_def) simp
qed

theorem agingBucket_boundaries_witness:
  "daysPastDue sample_receivable_open (10 + 31 * 86400000) = 31 \<and>
   agingBucket sample_receivable_open (10 + 31 * 86400000) = Inr Days_31_60"
  using agingBucket_boundaries[of "10 + 31 * 86400000" sample_receivable_open]
  by (simp add: sample_receivable_open_def)

text \<open>
  Exactly one receivable per invoice: an invoice whose receivable has been opened, with or
  without a paired draft, refuses to open another one.
\<close>

theorem openReceivable_once:
  assumes "openReceivable iv rid clk draft = Inr (iv', r, e)"
  shows "openReceivable iv' rid' clk' None = throw ''RECEIVABLE_ALREADY_OPEN''"
proof -
  from assms have "iv' = iv \<or> iv' = iv\<lparr>iv_receivableId := Some (rc_id r)\<rparr>"
    by (auto simp: openReceivable_def result_simps)
  with openReceivable_Inr[OF assms] show ?thesis by (auto simp: openReceivable_def)
qed

theorem openReceivable_once_witness:
  "\<exists>iv' r e. openReceivable sample_invoice ''r'' (\<lambda>_. 0) None = Inr (iv', r, e) \<and>
     openReceivable iv' ''s'' (\<lambda>_. 0) None = throw ''RECEIVABLE_ALREADY_OPEN''"
proof -
  from sample_open obtain iv' r e where o: "openReceivable sample_invoice ''r'' (\<lambda>_. 0) None = Inr (iv', r, e)" by blast
  from openReceivable_once[OF o] o show ?thesis by blast
qed

text \<open>
  A write-off has an owner and erases nothing: it succeeds only on a live, overdue
  receivable with a non-blank reason and approver, keeps the amounts, and keeps the overdue
  flag set although the debt is no longer live.
\<close>

theorem writeOff_guarded:
  assumes "writeOff r reason approver clk = Inr (r', e)"
  shows "rc_state r \<in> {R_Open, R_Partially_Paid} \<and> rc_overdue r \<and> trim reason \<noteq> [] \<and> trim approver \<noteq> [] \<and>
    rc_state r' = R_Written_Off \<and> rc_overdue r' \<and> rc_original r' = rc_original r \<and> rc_applied r' = rc_applied r \<and>
    rc_writeOff r' = Some \<lparr>wo_reason = trim reason, wo_approvedBy = trim approver, wo_writtenOffAt = clk 0\<rparr>"
  using assms by (auto simp: writeOff_def Let_def split: if_splits)

theorem writeOff_guarded_witness:
  "\<exists>r' e. writeOff (sample_receivable_open\<lparr>rc_overdue := True\<rparr>) ''gone'' ''cfo'' (\<lambda>_. 0) = Inr (r', e) \<and>
     rc_state r' = R_Written_Off \<and> rc_overdue r'"
proof -
  have "\<exists>r' e. writeOff (sample_receivable_open\<lparr>rc_overdue := True\<rparr>) ''gone'' ''cfo'' (\<lambda>_. 0) = Inr (r', e)"
    by (simp add: sample_receivable_open_def writeOff_def trim_def is_js_space_def Let_def)
  then obtain r' e where w: "writeOff (sample_receivable_open\<lparr>rc_overdue := True\<rparr>) ''gone'' ''cfo'' (\<lambda>_. 0) = Inr (r', e)"
    by blast
  from writeOff_guarded[OF w] w show ?thesis by blast
qed

end
