(* ===== verification/Settlement.thy ===== *)
theory Settlement
  imports Engine Payments Receivable
begin

text \<open>
  How the lanes fit together: what the allocation engine plans out of the unapplied funds of a
  payment is what the payment reserves and what the receivables book. The lanes do not import
  each other; the caller hands the derived amounts from one to the next.
\<close>

section \<open>What the caller projects\<close>

text \<open>The unapplied funds of a payment as a source, and an open receivable as a target, of an allocation.\<close>

definition payment_source :: "payment \<Rightarrow> allocation_source" where
  "payment_source p = \<lparr>as_sourceType = Payment_Source, as_sourceId = pm_id p, as_currency = pm_currency p,
     as_available = mk_money (unapplied_total p) (pm_currency p)\<rparr>"

definition allocatable_of :: "receivable \<Rightarrow> allocatable" where
  "allocatable_of r = \<lparr>ar_receivableId = rc_id r, ar_currency = rc_currency r,
     ar_balanceMinor = MoneyBalance (mk_money (open_minor r) (rc_currency r)), ar_dueDate = Some (rc_dueDate r)\<rparr>"

definition reserve_row :: "clock \<Rightarrow> allocation \<Rightarrow> payment_command" where
  "reserve_row clk row = ReserveAllocation (al_receivableId row) (al_amountMinor row) (Some (al_id row)) clk"

text \<open>A payment that can still be drawn on, and a receivable that takes money.\<close>

definition spendable :: "payment \<Rightarrow> bool" where
  "spendable p \<longleftrightarrow> payment_ok p \<and> isConfirmedFamily p \<and> \<not> payment_isTerminal p"

definition collectable :: "currency \<Rightarrow> receivable \<Rightarrow> bool" where
  "collectable c r \<longleftrightarrow> receivable_ok r \<and> rc_state r \<in> {R_Open, R_Partially_Paid} \<and> rc_currency r = c \<and>
     m_amount (rc_original r) \<le> max_safe_integer"

section \<open>The payment takes every row\<close>

lemma reserve_row_accepted:
  assumes "spendable p" and "isPositive (al_amountMinor row)" and "m_currency (al_amountMinor row) = pm_currency p"
    and "m_amount (al_amountMinor row) \<le> unapplied_total p"
  shows "\<exists>p'. payment_step p (reserve_row clk row) = Inr p' \<and> spendable p' \<and> pm_currency p' = pm_currency p \<and>
    unapplied_total p' = unapplied_total p - m_amount (al_amountMinor row)"
proof -
  have ok: "payment_ok p" and fam: "isConfirmedFamily p" "\<not> payment_isTerminal p" using assms(1) by (simp_all add: spendable_def)
  have pos: "0 < m_amount (al_amountMinor row)" using assms(2) by (simp add: isPositive_def)
  with assms(4) obtain c where c: "pm_confirmedMinor p = Some c" "committed_total p + m_amount (al_amountMinor row) \<le> m_amount c"
    by (cases "pm_confirmedMinor p") (simp_all add: unapplied_total_def)
  moreover have "m_currency c = pm_currency p" using ok c(1) by (simp add: payment_ok_def payment_funds_ok_def)
  ultimately have "drawable p (al_amountMinor row)" using assms(3) pos fam by (simp add: drawable_def)
  then obtain r where r: "recordAllocationReservation p (al_receivableId row) (al_amountMinor row) (Some (al_id row)) clk = Inr r"
    "pm_state (fst r) \<in> {Allocated, Partially_Allocated}" "pm_currency (fst r) = pm_currency p"
    using c(1) recordAllocationReservation_Inr[OF payment_ok_currency[OF ok], of "al_receivableId row" "al_amountMinor row" "Some (al_id row)" clk]
    by auto
  then have "payment_draw_step p (DrawAllocation (al_receivableId row) (al_amountMinor row) (Some (al_id row)) clk) = Inr (fst r)"
    by (simp add: payment_draw_step_def payment_step_def)
  from payment_draw_facts[OF ok this] r show ?thesis
    by (auto simp: reserve_row_def payment_step_def spendable_def isConfirmedFamily_def CONFIRMED_FAMILY_def
        payment_isTerminal_def TERMINAL_STATES_def)
qed

lemma reserve_rows_accepted:
  assumes "spendable p" and "\<forall>row \<in> set rows. isPositive (al_amountMinor row) \<and> m_currency (al_amountMinor row) = pm_currency p"
    and "sum_list (map (\<lambda>row. m_amount (al_amountMinor row)) rows) \<le> unapplied_total p"
  shows "accepted payment_step p (map (reserve_row clk) rows) = map (reserve_row clk) rows \<and>
    payment_ok (drive payment_step p (map (reserve_row clk) rows)) \<and>
    pm_currency (drive payment_step p (map (reserve_row clk) rows)) = pm_currency p \<and>
    unapplied_total (drive payment_step p (map (reserve_row clk) rows)) =
      unapplied_total p - sum_list (map (\<lambda>row. m_amount (al_amountMinor row)) rows)"
  using assms
proof (induction rows arbitrary: p)
  case (Cons row rows)
  have "0 \<le> sum_list (map (\<lambda>row. m_amount (al_amountMinor row)) rows)"
    using Cons.prems(2) by (intro sum_list_nonneg_int) (auto simp: isPositive_def intro: less_imp_le)
  with Cons.prems(3) have "m_amount (al_amountMinor row) \<le> unapplied_total p" by simp
  with reserve_row_accepted[OF Cons.prems(1), of row clk] Cons.prems(2) obtain p' where
    p': "payment_step p (reserve_row clk row) = Inr p'" "spendable p'" "pm_currency p' = pm_currency p"
    "unapplied_total p' = unapplied_total p - m_amount (al_amountMinor row)" by auto
  with Cons.IH[OF p'(2)] Cons.prems(2,3) show ?case by simp
qed (simp add: spendable_def)

section \<open>The receivables take every row\<close>

lemma minorToNumber_safe:
  assumes "0 \<le> m_amount m" and "m_amount m \<le> max_safe_integer"
  shows "\<exists>x. minorToNumber m = Inr x"
proof -
  have "\<bar>m_amount m\<bar> \<le> 2 ^ 53" using assms by (simp add: max_safe_integer_def)
  then have "number_of (m_amount m) = Fin (of_int (m_amount m))" by (rule number_of_int)
  with assms show ?thesis by (simp add: minorToNumber_def)
qed

lemma applyAllocation_accepted:
  assumes "collectable (m_currency amount) r" and "0 < m_amount amount" and "m_amount amount \<le> open_minor r"
  shows "\<exists>r' e. applyAllocation r amount clk = Inr (r', e)"
proof -
  have ok: "receivable_ok r" and st: "rc_state r \<in> {R_Open, R_Partially_Paid}" and cur: "rc_currency r = m_currency amount"
    and top: "m_amount (rc_original r) \<le> max_safe_integer" using assms(1) by (simp_all add: collectable_def)
  have mon: "m_currency (rc_original r) = rc_currency r" "m_currency (rc_applied r) = rc_currency r" "0 \<le> m_amount (rc_applied r)"
    using ok by (simp_all add: receivable_ok_def receivable_money_ok_def)
  define applied where "applied = mk_money (m_amount (rc_applied r) + m_amount amount) (rc_currency r)"
  have sum: "add_money (rc_applied r) amount = Inr applied" using mon cur by (simp add: add_money_same applied_def)
  obtain x where x: "minorToNumber amount = Inr x"
    using minorToNumber_safe[of amount] assms(2,3) top mon(3) by (auto simp: open_minor_def)
  have rest: "subtract_money (rc_original r) applied = Inr (mk_money (open_minor r - m_amount amount) (rc_currency r))"
    using mon assms(3) by (simp add: subtract_money_same applied_def open_minor_def algebra_simps)
  obtain y where y: "minorToNumber (mk_money (open_minor r - m_amount amount) (rc_currency r)) = Inr y"
    using minorToNumber_safe[of "mk_money (open_minor r - m_amount amount) (rc_currency r)"] assms(2,3) top mon(3) by (auto simp: open_minor_def)
  obtain k where k: "compareTo amount (mk_money (open_minor r) (rc_currency r)) = Inr k" "\<not> k > 0"
    using assms(3) cur by (simp add: compareTo_same)
  obtain settled where settled: "equals_money applied (rc_original r) = Inr settled"
    using mon by (simp add: equals_money_same applied_def)
  show ?thesis
    using st cur assms(2) k x y
    by (cases settled) (auto simp: applyAllocation_def isPositive_def receivable_balanceOf_minor[OF ok] sum settled rest)
qed

lemma active_total_all:
  "(\<And>row. row \<in> set rows \<Longrightarrow> isActive row) \<Longrightarrow> active_total rows = sum_list (map (\<lambda>row. m_amount (al_amountMinor row)) rows)"
  by (induction rows) simp_all

section \<open>Properties across the lanes\<close>

text \<open>
  C20. What the engine plans, the payment and the receivables book: allocating the unapplied funds
  of a payment to open receivables of its currency, under any strategy, gives rows that the
  payment reserves one after the other without a refusal, until exactly the unapplied rest of
  the execution is left; and each row is accepted by the receivable it names, whose balance falls
  by the amount of the row.
\<close>

theorem allocation_books_through:
  assumes "spendable p" and "\<forall>r \<in> set rs. collectable (pm_currency p) r"
    and "executeAllocation (payment_source p) (map allocatable_of rs) strat clk declared existing = Inr ex"
    and "engine_admissible strat (as_available (payment_source p)) (map allocatable_of rs) declared"
  shows "let cmds = map (reserve_row rclk) (ae_allocations ex) in
    accepted payment_step p cmds = cmds \<and> unappliedMinorOf (drive payment_step p cmds) = Inr (ae_unapplied ex) \<and>
    (\<forall>row \<in> set (ae_allocations ex). \<exists>r \<in> set rs. rc_id r = al_receivableId row \<and>
      (\<exists>r' e. applyAllocation r (al_amountMinor row) aclk = Inr (r', e) \<and>
        open_minor r' = open_minor r - m_amount (al_amountMinor row)))"
proof -
  from executeAllocation_ok[OF assms(3,4)] obtain plans where
    ok: "execution_ok (payment_source p) (map allocatable_of rs) strat clk existing plans ex" .
  have avail: "as_available (payment_source p) = mk_money (unapplied_total p) (pm_currency p)" by (simp add: payment_source_def)
  have rows: "isActive row \<and> isPositive (al_amountMinor row) \<and> m_currency (al_amountMinor row) = pm_currency p \<and>
      (\<exists>r \<in> set rs. rc_id r = al_receivableId row \<and> m_amount (al_amountMinor row) \<le> open_minor r)"
    if "row \<in> set (ae_allocations ex)" for row
    using execution_ok_row[OF ok that] avail by (fastforce simp: allocatable_of_def alloc_balanceOf_def)
  have "active_total (ae_allocations ex) = sum_list (map (\<lambda>row. m_amount (al_amountMinor row)) (ae_allocations ex))"
    using rows by (intro active_total_all) blast
  with execution_ok_total[OF ok] avail have total:
    "sum_list (map (\<lambda>row. m_amount (al_amountMinor row)) (ae_allocations ex)) = unapplied_total p - m_amount (ae_unapplied ex)"
    "0 \<le> m_amount (ae_unapplied ex)" by simp_all
  have rest: "ae_unapplied ex = mk_money (m_amount (ae_unapplied ex)) (pm_currency p)"
    using ok avail by (simp add: execution_ok_def Let_def)
  note booked = reserve_rows_accepted[OF assms(1), of "ae_allocations ex" rclk]
  have "\<exists>r \<in> set rs. rc_id r = al_receivableId row \<and> (\<exists>r' e. applyAllocation r (al_amountMinor row) aclk = Inr (r', e) \<and>
      open_minor r' = open_minor r - m_amount (al_amountMinor row))" if "row \<in> set (ae_allocations ex)" for row
  proof -
    from rows[OF that] obtain r where r: "r \<in> set rs" "rc_id r = al_receivableId row" "m_amount (al_amountMinor row) \<le> open_minor r"
      "isPositive (al_amountMinor row)" "m_currency (al_amountMinor row) = pm_currency p" by blast
    with assms(2) have c: "collectable (m_currency (al_amountMinor row)) r" by simp
    from applyAllocation_accepted[OF c _ r(3), of aclk] r(4) obtain r' e where
      "applyAllocation r (al_amountMinor row) aclk = Inr (r', e)" by (auto simp: isPositive_def)
    moreover from this c have "open_minor r' = open_minor r - m_amount (al_amountMinor row)"
      using applyAllocation_ok by (fastforce simp: collectable_def)
    ultimately show ?thesis using r(1,2) by blast
  qed
  moreover have "\<forall>row \<in> set (ae_allocations ex). isPositive (al_amountMinor row) \<and> m_currency (al_amountMinor row) = pm_currency p"
    using rows by blast
  with booked total unappliedMinorOf_total rest have "accepted payment_step p (map (reserve_row rclk) (ae_allocations ex)) =
      map (reserve_row rclk) (ae_allocations ex) \<and>
      unappliedMinorOf (drive payment_step p (map (reserve_row rclk) (ae_allocations ex))) = Inr (ae_unapplied ex)" by auto
  ultimately show ?thesis unfolding Let_def by blast
qed

definition sample_funds :: payment where
  "sample_funds = sample_payment\<lparr>pm_state := Confirmed, pm_confirmedMinor := Some (mk_money 70 KES)\<rparr>"

definition sample_debt :: "uuid \<Rightarrow> int \<Rightarrow> date \<Rightarrow> receivable" where
  "sample_debt i n due = \<lparr>rc_id = i, rc_invoiceId = ''i'', rc_customerId = ''c'', rc_currency = KES, rc_original = mk_money n KES,
     rc_applied = mk_money 0 KES, rc_state = R_Open, rc_overdue = False, rc_openedAt = Some 0, rc_dueDate = due, rc_settledAt = None,
     rc_voidedAt = None, rc_writeOff = None, rc_uncollectibleReason = None, rc_uncollectibleAt = None, rc_recoveredAt = None\<rparr>"

lemma sample_funds_spendable: "spendable sample_funds"
  by (simp add: spendable_def sample_funds_def sample_payment_def payment_invariant_defs committed_rows_def money_ok_def
      payment_isTerminal_def TERMINAL_STATES_def)

lemma sample_debts_collectable: "\<forall>r \<in> set [sample_debt ''b'' 50 9, sample_debt ''a'' 60 5]. collectable (pm_currency sample_funds) r"
  by (simp add: collectable_def sample_debt_def sample_funds_def sample_payment_def receivable_ok_def receivable_money_ok_def
      max_safe_integer_def)

lemma sample_booking: "\<exists>ex. executeAllocation (payment_source sample_funds)
    (map allocatable_of [sample_debt ''b'' 50 9, sample_debt ''a'' 60 5]) Fifo (\<lambda>_. 0) None [] = Inr ex"
proof (rule executeAllocation_fifo_total)
  show "allocateOldestFirst (as_available (payment_source sample_funds))
      (map allocatable_of [sample_debt ''b'' 50 9, sample_debt ''a'' 60 5]) =
    Inr [\<lparr>sp_receivableId = ''a'', sp_amount = mk_money 60 KES\<rparr>, \<lparr>sp_receivableId = ''b'', sp_amount = mk_money 10 KES\<rparr>]"
    by code_simp
  show "money_ok (as_available (payment_source sample_funds))"
    by (simp add: payment_source_def money_ok_def sample_funds_def sample_payment_def unapplied_total_def committed_total_def committed_rows_def)
qed (simp add: payment_source_def)

theorem allocation_books_through_witness:
  "\<exists>ex. executeAllocation (payment_source sample_funds) (map allocatable_of [sample_debt ''b'' 50 9, sample_debt ''a'' 60 5])
      Fifo (\<lambda>_. 0) None [] = Inr ex \<and>
    accepted payment_step sample_funds (map (reserve_row (\<lambda>_. 1)) (ae_allocations ex)) = map (reserve_row (\<lambda>_. 1)) (ae_allocations ex)"
proof -
  from sample_booking obtain ex where ex: "executeAllocation (payment_source sample_funds)
    (map allocatable_of [sample_debt ''b'' 50 9, sample_debt ''a'' 60 5]) Fifo (\<lambda>_. 0) None [] = Inr ex" ..
  have "engine_admissible Fifo (as_available (payment_source sample_funds))
      (map allocatable_of [sample_debt ''b'' 50 9, sample_debt ''a'' 60 5]) None"
    by (simp add: payment_source_def money_ok_def sample_funds_def sample_payment_def unapplied_total_def committed_total_def committed_rows_def)
  from allocation_books_through[OF sample_funds_spendable sample_debts_collectable ex this, of "\<lambda>_. 1"] ex
  show ?thesis unfolding Let_def by blast
qed

end
