(* ===== verification/Intake.thy ===== *)
theory Intake
  imports Payments
begin

text \<open>
  Payment intake (\<open>src/src/domain/payments/intake.ts\<close>): the single creation funnel for
  at-least-once callbacks, idempotent on the external reference per channel and on the
  idempotency key.
\<close>

record intake_command =
  ic_channel :: payment_channel
  ic_externalRef :: string
  ic_idempotencyKey :: string
  ic_amount :: money
  ic_customerId :: "uuid option"
  ic_declaredRefs :: "string list option"
  ic_paymentId :: "uuid option"

record intake_result =
  ir_payment :: payment
  ir_duplicate :: bool
  ir_events :: "payment_event list"

text \<open>The loop of \<open>normalizeDeclaredRefs\<close>: trim, reject blanks, keep first occurrences.\<close>

definition push_ref :: "string \<Rightarrow> string list \<Rightarrow> string \<Rightarrow> string list result" where
  "push_ref code out raw = (let ref = trim raw in
     if ref = [] then throw code else Inr (if ref \<in> set out then out else out @ [ref]))"

definition intake_normalizeDeclaredRefs :: "string list option \<Rightarrow> string list result" where
  "intake_normalizeDeclaredRefs refs = (case refs of None \<Rightarrow> Inr []
     | Some rs \<Rightarrow> if rs = [] then Inr [] else reduce (push_ref ''INTAKE_DECLARED_REF_BLANK'') [] rs)"

definition same_payment :: "payment_channel \<Rightarrow> string \<Rightarrow> string \<Rightarrow> payment \<Rightarrow> bool" where
  "same_payment channel externalRef idempotencyKey p \<longleftrightarrow>
     (pm_channel p = channel \<and> pm_externalRef p = externalRef) \<or> pm_idempotencyKey p = idempotencyKey"

definition intakePayment :: "intake_command \<Rightarrow> clock \<Rightarrow> payment list \<Rightarrow> intake_result result" where
  "intakePayment cmd clk existing =
     (if ic_channel cmd \<noteq> C2b \<and> ic_channel cmd \<noteq> Stk then throw ''INTAKE_CHANNEL_INVALID''
      else let externalRef = trim (ic_externalRef cmd) in
      if externalRef = [] then throw ''INTAKE_EXTERNAL_REF_REQUIRED''
      else let idempotencyKey = trim (ic_idempotencyKey cmd) in
      if idempotencyKey = [] then throw ''INTAKE_IDEMPOTENCY_KEY_REQUIRED''
      else if m_amount (ic_amount cmd) \<le> 0 then throw ''AMOUNT_MUST_BE_POSITIVE''
      else and_then (intake_normalizeDeclaredRefs (ic_declaredRefs cmd)) (\<lambda>declaredRefs.
        case find (same_payment (ic_channel cmd) externalRef idempotencyKey) existing of
          Some prior \<Rightarrow>
            if pm_currency prior \<noteq> m_currency (ic_amount cmd) then throw ''CURRENCY_MISMATCH''
            else and_then (equals_money (pm_requestedMinor prior) (ic_amount cmd)) (\<lambda>same.
              if \<not> same then throw ''DUPLICATE_AMOUNT_MISMATCH''
              else Inr \<lparr>ir_payment = prior, ir_duplicate = True,
                ir_events = [duplicateCallbackObservedEvent (pm_id prior) (pm_externalRef prior) (clk 0) (clk 1)]\<rparr>)
        | None \<Rightarrow>
            and_then (case ic_paymentId cmd of Some i \<Rightarrow> Inr i
              | None \<Rightarrow> uuidFromSeed (''payment:'' @ channel_code (ic_channel cmd) @ '':'' @ idempotencyKey)) (\<lambda>pid.
              Inr \<lparr>ir_payment = \<lparr>pm_id = pid, pm_channel = ic_channel cmd, pm_externalRef = externalRef,
                  pm_idempotencyKey = idempotencyKey, pm_customerId = ic_customerId cmd, pm_state = Initiated,
                  pm_currency = m_currency (ic_amount cmd), pm_requestedMinor = ic_amount cmd,
                  pm_declaredRefs = declaredRefs, pm_confirmedMinor = None, pm_initiatedAt = clk 0,
                  pm_confirmedAt = None, pm_failedAt = None, pm_failureCode = None, pm_reversedAt = None,
                  pm_reversalReason = None, pm_allocations = [], pm_refunds = []\<rparr>,
                ir_duplicate = False,
                ir_events = [paymentInitiatedEvent pid (ic_channel cmd) (ic_amount cmd) (clk 1)]\<rparr>)))"

section \<open>Declared references\<close>

lemma push_refs:
  assumes "reduce (push_ref code) out rs = Inr out'" and "distinct out" and "\<forall>r \<in> set out. r \<noteq> []"
  shows "distinct out' \<and> (\<forall>r \<in> set out'. r \<noteq> []) \<and> set out' = set out \<union> trim ` set rs"
  using assms
proof (induction rs arbitrary: out)
  case (Cons r rs)
  then obtain o1 where o1: "push_ref code out r = Inr o1" "reduce (push_ref code) o1 rs = Inr out'"
    by (auto simp: result_simps)
  then have "distinct o1" "\<forall>r \<in> set o1. r \<noteq> []" "set o1 = insert (trim r) (set out)"
    using Cons.prems by (auto simp: push_ref_def Let_def split: if_splits)
  from Cons.IH[OF o1(2) this(1,2)] this(3) show ?case by simp
qed simp

section \<open>Intake creates a payment once\<close>

definition intake_submit :: "payment list \<Rightarrow> intake_command \<times> clock \<Rightarrow> js_error + payment \<times> bool" where
  "intake_submit existing c = and_then (intakePayment (fst c) (snd c) existing)
     (\<lambda>r. Inr (ir_payment r, ir_duplicate r))"

text \<open>Two payments clash when one callback could stand for both.\<close>

definition payments_clash :: "payment \<Rightarrow> payment \<Rightarrow> bool" where
  "payments_clash p q \<longleftrightarrow>
     (pm_channel p = pm_channel q \<and> pm_externalRef p = pm_externalRef q) \<or> pm_idempotencyKey p = pm_idempotencyKey q"

text \<open>The payment the incoming callback stands for, if it is known.\<close>

abbreviation prior_payment :: "intake_command \<Rightarrow> payment list \<Rightarrow> payment option" where
  "prior_payment cmd existing \<equiv>
     find (same_payment (ic_channel cmd) (trim (ic_externalRef cmd)) (trim (ic_idempotencyKey cmd))) existing"

lemma intakePayment_known:
  assumes "intakePayment cmd clk existing = Inr r" and "prior_payment cmd existing = Some prior"
  shows "ir_duplicate r \<and> ir_payment r = prior \<and> pm_requestedMinor prior = ic_amount cmd"
  using assms by (auto simp: intakePayment_def Let_def result_simps equals_money_Inr)

lemma intakePayment_unknown:
  assumes "intakePayment cmd clk existing = Inr r" and "prior_payment cmd existing = None"
  shows "\<not> ir_duplicate r \<and> fresh_payment (ir_payment r) \<and> 0 < m_amount (ic_amount cmd) \<and>
    pm_requestedMinor (ir_payment r) = ic_amount cmd \<and> pm_currency (ir_payment r) = m_currency (ic_amount cmd) \<and>
    pm_channel (ir_payment r) = ic_channel cmd \<and> pm_externalRef (ir_payment r) = trim (ic_externalRef cmd) \<and>
    pm_idempotencyKey (ir_payment r) = trim (ic_idempotencyKey cmd)"
  using assms by (auto simp: intakePayment_def Let_def result_simps fresh_payment_def)

lemma intakePayment_new:
  assumes "intakePayment cmd clk existing = Inr r" and "\<not> ir_duplicate r"
  shows "prior_payment cmd existing = None \<and> (\<forall>p \<in> set existing. \<not> payments_clash p (ir_payment r))"
proof (cases "prior_payment cmd existing")
  case None
  with intakePayment_unknown[OF assms(1) None] show ?thesis
    by (auto simp: find_None_iff payments_clash_def same_payment_def)
qed (use assms intakePayment_known in blast)

lemma intakePayment_duplicate:
  assumes "intakePayment cmd clk existing = Inr r" and "ir_duplicate r"
  shows "ir_payment r \<in> set existing"
proof (cases "prior_payment cmd existing")
  case (Some prior)
  with intakePayment_known[OF assms(1) Some] find_SomeD[OF Some] show ?thesis by simp
qed (use assms intakePayment_unknown in blast)

interpretation intake: idempotent_log intake_submit payments_clash
proof
  fix known c r x
  show "intake_submit known c = Inr (r, True) \<Longrightarrow> r \<in> set known"
    by (auto simp: intake_submit_def result_simps dest: intakePayment_duplicate)
  show "intake_submit known c = Inr (r, False) \<Longrightarrow> x \<in> set known \<Longrightarrow> \<not> payments_clash x r"
    by (auto simp: intake_submit_def result_simps dest: intakePayment_new)
qed

text \<open>
  C7. Idempotent intake (R9): however often and in whatever order callbacks are delivered, the
  payments created never clash: no two of them share a channel and external reference or an
  idempotency key, and the payments known before stay in place.
\<close>

theorem intake_no_double_payment:
  "sorted_wrt (\<lambda>p q. \<not> payments_clash p q) (feed intake_submit [] callbacks) \<and>
   (\<exists>created. feed intake_submit known callbacks = known @ created)"
  using intake.feed_clash_free[of "[]" callbacks] intake.feed_extends[of known callbacks] by simp

text \<open>
  Replay: once a callback has created a payment, delivering it again, at any later time and
  with any other payments recorded around it that do not clash with it, returns that payment
  as a duplicate and creates nothing.
\<close>

theorem intake_replay:
  assumes "intakePayment cmd clk existing = Inr r" and "\<not> ir_duplicate r"
    and "\<forall>p \<in> set before. \<not> payments_clash p (ir_payment r)"
  shows "\<exists>r'. intakePayment cmd clk' (before @ ir_payment r # after) = Inr r' \<and>
    ir_duplicate r' \<and> ir_payment r' = ir_payment r"
proof -
  let ?same = "same_payment (ic_channel cmd) (trim (ic_externalRef cmd)) (trim (ic_idempotencyKey cmd))"
  from intakePayment_new[OF assms(1,2)] have none: "prior_payment cmd existing = None" ..
  note new = intakePayment_unknown[OF assms(1) none]
  then have same: "?same (ir_payment r)" by (simp add: same_payment_def)
  have "\<forall>p \<in> set before. \<not> ?same p"
    using assms(3) new by (auto simp: payments_clash_def same_payment_def)
  then have "find ?same (before @ ir_payment r # after) = Some (ir_payment r)"
    using same by (induction before) auto
  with assms(1) new none show ?thesis
    by (auto simp: intakePayment_def Let_def result_simps equals_money_same)
qed

definition sample_intake :: intake_command where
  "sample_intake = \<lparr>ic_channel = C2b, ic_externalRef = '' QK1 '', ic_idempotencyKey = ''k1'',
     ic_amount = mk_money 500 KES, ic_customerId = None, ic_declaredRefs = Some [''INV-1'', '' INV-1''],
     ic_paymentId = Some ''p1''\<rparr>"

lemma sample_intake_run: "\<exists>r. intakePayment sample_intake (\<lambda>_. 0) [] = Inr r \<and> \<not> ir_duplicate r"
  by (simp add: sample_intake_def intakePayment_def intake_normalizeDeclaredRefs_def push_ref_def Let_def
      trim_def is_js_space_def)

theorem intake_replay_witness:
  "\<exists>r r'. intakePayment sample_intake (\<lambda>_. 0) [] = Inr r \<and>
     intakePayment sample_intake (\<lambda>_. 7) [ir_payment r] = Inr r' \<and> ir_duplicate r' \<and> ir_payment r' = ir_payment r"
proof -
  from sample_intake_run obtain r where r: "intakePayment sample_intake (\<lambda>_. 0) [] = Inr r" "\<not> ir_duplicate r" by blast
  from intake_replay[OF r, of "[]" "\<lambda>_. 7" "[]"] r(1) show ?thesis by auto
qed

end
