(* ===== verification/Matching.thy ===== *)
theory Matching
  imports Intake
begin

text \<open>
  Payment matching (\<open>src/src/domain/payments/reconciliation.ts\<close>): matches record which
  references explain a payment, are reversed by a new object, and \<open>matchDecision\<close> proposes
  open invoices for a payment. A match never allocates.
\<close>

section \<open>Data\<close>

fun confidence_code :: "match_confidence \<Rightarrow> string" where
  "confidence_code Auto = ''auto''"
| "confidence_code Manual = ''manual''"
| "confidence_code (OtherConfidence s) = s"

record reconciliation_match =
  rm_id :: uuid
  rm_paymentId :: uuid
  rm_declaredRefs :: "string list"
  rm_confidence :: match_confidence
  rm_matchedAt :: date
  rm_reversedAt :: "date option"
  rm_reversalReason :: "string option"

record open_invoice =
  oi_receivableId :: uuid
  oi_invoiceNumber :: string
  oi_dueDate :: date

datatype match_basis = Exact | Fuzzy

datatype match_decision = Matched match_basis uuid "open_invoice list" | Unapplied_Decision uuid

section \<open>Operations\<close>

definition match_normalizeDeclaredRefs :: "string list \<Rightarrow> string list result" where
  "match_normalizeDeclaredRefs refs =
     and_then (reduce (push_ref ''MATCH_REF_BLANK'') [] refs) (\<lambda>out.
       if out = [] then throw ''MATCH_REFS_REQUIRED'' else Inr out)"

definition assertMatchablePayment :: "payment \<Rightarrow> unit result" where
  "assertMatchablePayment p =
     (if payment_isTerminal p then throw ''PAYMENT_TERMINAL''
      else if \<not> isConfirmedFamily p then throw ''PAYMENT_NOT_CONFIRMED'' else Inr ())"

fun join_with :: "string \<Rightarrow> string list \<Rightarrow> string" where
  "join_with sep [] = []"
| "join_with sep [x] = x"
| "join_with sep (x # y # ys) = x @ sep @ join_with sep (y # ys)"

definition recordMatch ::
  "payment \<Rightarrow> string list \<Rightarrow> match_confidence \<Rightarrow> clock \<Rightarrow> uuid option \<Rightarrow> (reconciliation_match \<times> payment_event list) result" where
  "recordMatch p declaredRefs confidence clk matchId =
     (if confidence \<noteq> Auto \<and> confidence \<noteq> Manual then throw ''MATCH_CONFIDENCE_INVALID''
      else and_then (assertMatchablePayment p) (\<lambda>_.
        and_then (match_normalizeDeclaredRefs declaredRefs) (\<lambda>refs.
        let matchedAt = clk 0 in
        and_then (case matchId of Some i \<Rightarrow> Inr i
          | None \<Rightarrow> uuidFromSeed (''match:'' @ pm_id p @ '':'' @ join_with ''|'' refs @ '':'' @
              confidence_code confidence @ '':'' @ toISOString matchedAt)) (\<lambda>mid.
          Inr (\<lparr>rm_id = mid, rm_paymentId = pm_id p, rm_declaredRefs = refs, rm_confidence = confidence,
                 rm_matchedAt = matchedAt, rm_reversedAt = None, rm_reversalReason = None\<rparr>,
               [paymentMatchedEvent mid (pm_id p) refs confidence (clk 1)])))))"

definition reverseMatch ::
  "reconciliation_match \<Rightarrow> string \<Rightarrow> clock \<Rightarrow> (reconciliation_match \<times> payment_event list) result" where
  "reverseMatch m reason clk = (let why = trim reason in
     if why = [] then throw ''REVERSAL_REASON_REQUIRED''
     else if rm_reversedAt m \<noteq> None then throw ''MATCH_ALREADY_REVERSED''
     else Inr (m\<lparr>rm_reversedAt := Some (clk 0), rm_reversalReason := Some why\<rparr>,
               [matchReversedEvent (rm_id m) why (clk 1)]))"

definition is_alnum :: "char \<Rightarrow> bool" where
  "is_alnum c \<longleftrightarrow> (let n = (of_char c :: nat) in
     (48 \<le> n \<and> n \<le> 57) \<or> (97 \<le> n \<and> n \<le> 122) \<or> (65 \<le> n \<and> n \<le> 90))"

definition upper_char :: "char \<Rightarrow> char" where
  "upper_char c = (let n = (of_char c :: nat) in if 97 \<le> n \<and> n \<le> 122 then char_of (n - 32) else c)"

definition normalizeRef :: "string \<Rightarrow> string" where
  "normalizeRef v = map upper_char (filter is_alnum v)"

definition ends_with :: "string \<Rightarrow> string \<Rightarrow> bool" where
  "ends_with s suf \<longleftrightarrow> length suf \<le> length s \<and> drop (length s - length suf) s = suf"

definition fuzzyRefMatch :: "string \<Rightarrow> string \<Rightarrow> bool" where
  "fuzzyRefMatch declared invoiceNumber = (let ref = normalizeRef declared; iv = normalizeRef invoiceNumber in
     if ref = [] \<or> iv = [] then False
     else if ref = iv then True
     else if 3 \<le> length ref \<and> ends_with iv ref then True
     else if 3 \<le> length iv \<and> ends_with ref iv then True
     else False)"

definition byDueDate :: "open_invoice list \<Rightarrow> open_invoice list" where
  "byDueDate ivs = sort_key (\<lambda>iv. (oi_dueDate iv, oi_receivableId iv)) ivs"

definition matchDecision :: "payment \<Rightarrow> open_invoice list \<Rightarrow> match_decision result" where
  "matchDecision p openInvoices =
     and_then (assertMatchablePayment p) (\<lambda>_.
       let external = normalizeRef (pm_externalRef p);
           exact = byDueDate (filter (\<lambda>iv. normalizeRef (oi_invoiceNumber iv) = external) openInvoices);
           fuzzy = byDueDate (filter (\<lambda>iv. \<exists>ref \<in> set (pm_declaredRefs p). fuzzyRefMatch ref (oi_invoiceNumber iv)) openInvoices)
       in if external \<noteq> [] \<and> exact \<noteq> [] then Inr (Matched Exact (pm_id p) exact)
          else if fuzzy \<noteq> [] then Inr (Matched Fuzzy (pm_id p) fuzzy)
          else Inr (Unapplied_Decision (pm_id p)))"

section \<open>Properties\<close>

lemma byDueDate_facts [simp]:
  "set (byDueDate ivs) = set ivs" "mset (byDueDate ivs) = mset ivs" "byDueDate ivs = [] \<longleftrightarrow> ivs = []"
  "sorted (map (\<lambda>iv. (oi_dueDate iv, oi_receivableId iv)) (byDueDate ivs))"
proof -
  show "byDueDate ivs = [] \<longleftrightarrow> ivs = []" by (metis byDueDate_def length_0_conv length_sort)
qed (simp_all add: byDueDate_def)

definition explains :: "payment \<Rightarrow> match_basis \<Rightarrow> open_invoice \<Rightarrow> bool" where
  "explains p basis iv \<longleftrightarrow> (case basis of
       Exact \<Rightarrow> normalizeRef (pm_externalRef p) \<noteq> [] \<and> normalizeRef (oi_invoiceNumber iv) = normalizeRef (pm_externalRef p)
     | Fuzzy \<Rightarrow> (\<exists>ref \<in> set (pm_declaredRefs p). fuzzyRefMatch ref (oi_invoiceNumber iv)))"

text \<open>
  C22. Matching a confirmed, not terminal payment always reaches a decision: either it names,
  each once and in order of due date and receivable, exactly the open invoices whose number the
  payment refers to, by its external reference if any invoice carries it and by a fuzzy match of
  one of its declared references otherwise, or no invoice is referred to either way and the
  payment is to be parked as unapplied. The decision is advice: amounts play no part in it.
\<close>

theorem matchDecision_complete:
  assumes "isConfirmedFamily p" and "\<not> payment_isTerminal p"
  shows "\<exists>d. matchDecision p ivs = Inr d \<and>
    (case d of
       Matched basis pid cands \<Rightarrow> pid = pm_id p \<and> cands \<noteq> [] \<and>
         set cands = {iv \<in> set ivs. explains p basis iv} \<and> mset cands = mset (filter (explains p basis) ivs) \<and>
         sorted (map (\<lambda>iv. (oi_dueDate iv, oi_receivableId iv)) cands) \<and>
         (basis = Fuzzy \<longrightarrow> (\<forall>iv \<in> set ivs. \<not> explains p Exact iv))
     | Unapplied_Decision pid \<Rightarrow> pid = pm_id p \<and> (\<forall>iv \<in> set ivs. \<forall>basis. \<not> explains p basis iv))"
proof -
  let ?ex = "filter (\<lambda>iv. normalizeRef (oi_invoiceNumber iv) = normalizeRef (pm_externalRef p)) ivs"
  let ?fz = "filter (\<lambda>iv. \<exists>ref \<in> set (pm_declaredRefs p). fuzzyRefMatch ref (oi_invoiceNumber iv)) ivs"
  have g: "assertMatchablePayment p = Inr ()" using assms by (simp add: assertMatchablePayment_def)
  have fz: "filter (explains p Fuzzy) ivs = ?fz" by (intro filter_cong) (simp_all add: explains_def)
  have ex: "filter (explains p Exact) ivs = ?ex" if "normalizeRef (pm_externalRef p) \<noteq> []"
    using that by (intro filter_cong) (simp_all add: explains_def)
  show ?thesis
  proof (cases "normalizeRef (pm_externalRef p) \<noteq> [] \<and> ?ex \<noteq> []")
    case True
    then have "matchDecision p ivs = Inr (Matched Exact (pm_id p) (byDueDate ?ex))"
      by (simp add: matchDecision_def g)
    then show ?thesis using True ex by (auto simp: explains_def)
  next
    case no_exact: False
    then have no: "\<forall>iv \<in> set ivs. \<not> explains p Exact iv" by (auto simp: explains_def filter_empty_conv)
    show ?thesis
    proof (cases "?fz = []")
      case True
      then have "\<forall>iv \<in> set ivs. \<not> explains p Fuzzy iv" by (auto simp: explains_def filter_empty_conv)
      then have "\<forall>iv \<in> set ivs. \<forall>basis. \<not> explains p basis iv" using no by (metis match_basis.exhaust)
      moreover have "matchDecision p ivs = Inr (Unapplied_Decision (pm_id p))"
        using no_exact True by (auto simp: matchDecision_def g Let_def)
      ultimately show ?thesis by simp
    next
      case False
      then have "matchDecision p ivs = Inr (Matched Fuzzy (pm_id p) (byDueDate ?fz))"
        using no_exact by (auto simp: matchDecision_def g Let_def)
      then show ?thesis using False no fz by (auto simp: explains_def)
    qed
  qed
qed

theorem matchDecision_complete_witness:
  "\<exists>d. matchDecision (sample_payment\<lparr>pm_state := Confirmed, pm_declaredRefs := [''inv 7'']\<rparr>)
      [\<lparr>oi_receivableId = ''r'', oi_invoiceNumber = ''INV-7'', oi_dueDate = 3\<rparr>] = Inr d"
  using matchDecision_complete[of "sample_payment\<lparr>pm_state := Confirmed, pm_declaredRefs := [''inv 7'']\<rparr>"
      "[\<lparr>oi_receivableId = ''r'', oi_invoiceNumber = ''INV-7'', oi_dueDate = 3\<rparr>]"]
  by (auto simp: isConfirmedFamily_def CONFIRMED_FAMILY_def payment_isTerminal_def TERMINAL_STATES_def)

text \<open>A recorded match carries trimmed, non-blank, distinct references; reversing it twice is refused.\<close>

lemma recordMatch_refs:
  assumes "recordMatch p refs confidence clk mid = Inr (m, evs)"
  shows "rm_paymentId m = pm_id p \<and> rm_declaredRefs m \<noteq> [] \<and> distinct (rm_declaredRefs m) \<and>
    set (rm_declaredRefs m) = trim ` set refs \<and> [] \<notin> set (rm_declaredRefs m) \<and> rm_reversedAt m = None"
proof -
  from assms obtain out where out: "reduce (push_ref ''MATCH_REF_BLANK'') [] refs = Inr out" "out \<noteq> []"
    and m: "rm_declaredRefs m = out" "rm_paymentId m = pm_id p" "rm_reversedAt m = None"
    by (auto simp: recordMatch_def match_normalizeDeclaredRefs_def result_simps Let_def)
  from push_refs[OF out(1)] out(2) m show ?thesis by auto
qed

lemma reverseMatch_once:
  assumes "reverseMatch m reason clk = Inr (m', evs)" and "trim again \<noteq> []"
  shows "rm_reversedAt m' \<noteq> None \<and> rm_declaredRefs m' = rm_declaredRefs m \<and>
    reverseMatch m' again clk' = throw ''MATCH_ALREADY_REVERSED''"
  using assms by (auto simp: reverseMatch_def Let_def split: if_splits)

end
