(* ===== verification/Late_Fee.thy ===== *)
theory Late_Fee
  imports Invoice
begin

text \<open>
  Late fee accrual (\<open>src/src/domain/receivables/late-fee.ts\<close>): a validated policy, a fee per
  (receivable, period key) that is flat or a share of the balance in basis points, capped,
  after a grace window, and charged once however often the accrual job runs.
\<close>

section \<open>Data\<close>

datatype late_fee_kind = Flat | Percent | OtherKind string

record late_fee_policy =
  lp_kind :: late_fee_kind
  lp_flatMinor :: "money_input option"
  lp_percentBps :: "js_num option"
  lp_capMinor :: "money_input option"
  lp_graceDays :: js_num

text \<open>A validated policy: safe integers are kept as integers.\<close>

record resolved_policy =
  rp_kind :: late_fee_kind
  rp_flatMinor :: "int option"
  rp_percentBps :: "int option"
  rp_capMinor :: "int option"
  rp_graceDays :: int

record late_fee_receivable =
  lr_id :: uuid
  lr_currency :: currency
  lr_dueDate :: date
  lr_overdue :: bool
  lr_original :: money
  lr_applied :: money
  lr_state :: "string option"

record late_fee_posting =
  po_debit :: string
  po_credit :: string

record late_fee =
  lf_receivableId :: uuid
  lf_periodKey :: string
  lf_amount :: money
  lf_currency :: currency
  lf_policyKind :: late_fee_kind
  lf_percentBps :: "int option"
  lf_flatMinor :: "int option"
  lf_capMinor :: "int option"
  lf_balanceMinor :: int
  lf_daysLate :: int
  lf_graceDays :: int
  lf_accruedAt :: date
  lf_posting :: late_fee_posting

text \<open>\<open>LateFeeAccruedPayload\<close>, in the order of its fields.\<close>

datatype late_fee_payload =
  LateFeeAccrued uuid string js_num currency late_fee_kind "int option" "js_num option" js_num int int late_fee_posting

type_synonym late_fee_event = "(late_fee_payload, string) domain_event"

datatype accrual_outcome = Accrued | Already_Accrued

record late_fee_accrual =
  lc_outcome :: accrual_outcome
  lc_fee :: late_fee
  lc_events :: "late_fee_event list"

section \<open>Validating a policy\<close>

fun nonNegativeMinor :: "money_input \<Rightarrow> string \<Rightarrow> int result" where
  "nonNegativeMinor (NumberIn x) code =
     (if \<not> is_safe_integer x \<or> js_neg x then throw code else bigint_of x)"
| "nonNegativeMinor (BigIntIn v) code = (if v < 0 then throw code else Inr v)"

definition nonNegativeInt :: "js_num \<Rightarrow> string \<Rightarrow> int result" where
  "nonNegativeInt x code = (if \<not> is_safe_integer x \<or> js_neg x then throw code else bigint_of x)"

definition validateLateFeePolicy :: "late_fee_policy \<Rightarrow> resolved_policy result" where
  "validateLateFeePolicy policy =
     (if lp_kind policy \<noteq> Flat \<and> lp_kind policy \<noteq> Percent then throw ''LATE_FEE_POLICY_KIND_INVALID''
      else if lp_flatMinor policy \<noteq> None \<and> lp_percentBps policy \<noteq> None then throw ''LATE_FEE_POLICY_FLAT_AND_PERCENT''
      else and_then
        (if lp_kind policy = Flat
         then (case lp_flatMinor policy of None \<Rightarrow> throw ''LATE_FEE_POLICY_FLAT_REQUIRED''
               | Some v \<Rightarrow> and_then (nonNegativeMinor v ''LATE_FEE_POLICY_FLAT_INVALID'') (\<lambda>f. Inr (Some f, None)))
         else (case lp_percentBps policy of None \<Rightarrow> throw ''LATE_FEE_POLICY_PERCENT_REQUIRED''
               | Some v \<Rightarrow> and_then (nonNegativeInt v ''LATE_FEE_POLICY_BPS_INVALID'') (\<lambda>b. Inr (None, Some b))))
        (\<lambda>(flatMinor, percentBps).
        and_then (case lp_capMinor policy of None \<Rightarrow> Inr None
            | Some v \<Rightarrow> and_then (nonNegativeMinor v ''LATE_FEE_POLICY_CAP_INVALID'') (\<lambda>c. Inr (Some c))) (\<lambda>capMinor.
        and_then (nonNegativeInt (lp_graceDays policy) ''LATE_FEE_POLICY_GRACE_INVALID'') (\<lambda>graceDays.
          Inr \<lparr>rp_kind = lp_kind policy, rp_flatMinor = flatMinor, rp_percentBps = percentBps,
            rp_capMinor = capMinor, rp_graceDays = graceDays\<rparr>))))"

section \<open>Computing a fee\<close>

definition wholeDaysLate :: "date \<Rightarrow> date \<Rightarrow> int" where
  "wholeDaysLate dueDate now = max 0 (floor_quotient (now - dueDate) 86400000)"

definition feeAmountOf :: "resolved_policy \<Rightarrow> int \<Rightarrow> int" where
  "feeAmountOf resolved balanceMinor =
     (let uncapped = (if rp_kind resolved = Flat then the (rp_flatMinor resolved)
                      else bdiv (balanceMinor * the (rp_percentBps resolved)) 10000)
      in case rp_capMinor resolved of
           Some cap \<Rightarrow> if uncapped > cap then cap else uncapped
         | None \<Rightarrow> uncapped)"

definition feePosting :: late_fee_posting where
  "feePosting = \<lparr>po_debit = ''ar_control'', po_credit = ''fee_income''\<rparr>"

definition buildFeeRow ::
  "late_fee_receivable \<Rightarrow> resolved_policy \<Rightarrow> string \<Rightarrow> int \<Rightarrow> int \<Rightarrow> int \<Rightarrow> date \<Rightarrow> late_fee result" where
  "buildFeeRow r resolved periodKey amountMinor balanceMinor daysLate now =
     and_then (ofMinorB amountMinor (lr_currency r)) (\<lambda>amount.
       Inr \<lparr>lf_receivableId = lr_id r, lf_periodKey = periodKey, lf_amount = amount, lf_currency = lr_currency r,
         lf_policyKind = rp_kind resolved, lf_percentBps = rp_percentBps resolved, lf_flatMinor = rp_flatMinor resolved,
         lf_capMinor = rp_capMinor resolved, lf_balanceMinor = balanceMinor, lf_daysLate = daysLate,
         lf_graceDays = rp_graceDays resolved, lf_accruedAt = now, lf_posting = feePosting\<rparr>)"

definition fee_live :: "late_fee_receivable \<Rightarrow> bool" where
  "fee_live r \<longleftrightarrow> (case lr_state r of None \<Rightarrow> True | Some s \<Rightarrow> s = ''open'' \<or> s = ''partially_paid'')"

text \<open>The inner function of \<open>accrueLateFee\<close>; it reads the clock only for a live receivable.\<close>

definition chargeableBalance :: "late_fee_receivable \<Rightarrow> resolved_policy \<Rightarrow> date \<Rightarrow> money option" where
  "chargeableBalance r resolved now =
     (if \<not> fee_live r then None
      else if \<not> lr_overdue r \<and> now \<le> lr_dueDate r then None
      else if wholeDaysLate (lr_dueDate r) now \<le> rp_graceDays resolved then None
      else case subtract_money (lr_original r) (lr_applied r) of
          Inl _ \<Rightarrow> None
        | Inr balance \<Rightarrow> if isZero balance then None else Some balance)"

definition late_fee_event_of ::
  "late_fee_receivable \<Rightarrow> resolved_policy \<Rightarrow> late_fee \<Rightarrow> money \<Rightarrow> int \<Rightarrow> date \<Rightarrow> late_fee_event result" where
  "late_fee_event_of r resolved fee balance daysLate now =
     and_then (minorToNumber (lf_amount fee)) (\<lambda>amountMinor.
     and_then (case rp_flatMinor resolved of None \<Rightarrow> Inr None
         | Some f \<Rightarrow> and_then (ofMinorB f (lr_currency r)) (\<lambda>m. and_then (minorToNumber m) (\<lambda>n. Inr (Some n)))) (\<lambda>flatMinor.
     and_then (minorToNumber balance) (\<lambda>balanceMinor.
       Inr (domainEvent ''receivable.lateFeeAccrued'' (lr_id r)
         (LateFeeAccrued (lr_id r) (lf_periodKey fee) amountMinor (lr_currency r) (rp_kind resolved) (rp_percentBps resolved)
           flatMinor balanceMinor daysLate (rp_graceDays resolved) (lf_posting fee)) now))))"

text \<open>The branch for a period that was charged before.\<close>

definition already_accrued ::
  "late_fee_receivable \<Rightarrow> resolved_policy \<Rightarrow> string \<Rightarrow> late_fee option \<Rightarrow> clock \<Rightarrow> late_fee_accrual result" where
  "already_accrued r resolved periodKey verbatim clk = (case verbatim of
       Some fee \<Rightarrow> Inr \<lparr>lc_outcome = Already_Accrued, lc_fee = fee, lc_events = []\<rparr>
     | None \<Rightarrow>
         let daysLate = wholeDaysLate (lr_dueDate r) (clk 0);
             balance = chargeableBalance r resolved (clk 1) in
         and_then (buildFeeRow r resolved periodKey
             (case balance of None \<Rightarrow> 0 | Some b \<Rightarrow> feeAmountOf resolved (m_amount b))
             (case balance of None \<Rightarrow> 0 | Some b \<Rightarrow> m_amount b)
             daysLate (if fee_live r then clk 2 else clk 1)) (\<lambda>marker.
           Inr \<lparr>lc_outcome = Already_Accrued, lc_fee = marker, lc_events = []\<rparr>))"

definition accrueLateFee ::
  "late_fee_receivable \<Rightarrow> late_fee_policy \<Rightarrow> clock \<Rightarrow> string \<Rightarrow> string list \<Rightarrow> late_fee list \<Rightarrow> late_fee_accrual result" where
  "accrueLateFee r policy clk periodKey0 postedKeys postedFees =
     and_then (validateLateFeePolicy policy) (\<lambda>resolved.
       let periodKey = trim periodKey0 in
       if periodKey = [] then throw ''LATE_FEE_PERIOD_KEY_REQUIRED''
       else let verbatim = find (\<lambda>fee. lf_periodKey fee = periodKey) postedFees in
         if verbatim \<noteq> None \<or> periodKey \<in> set postedKeys then already_accrued r resolved periodKey verbatim clk
         else if \<not> fee_live r then throw ''LATE_FEE_RECEIVABLE_NOT_LIVE''
         else let now = clk 0 in
           if \<not> lr_overdue r \<and> now \<le> lr_dueDate r then throw ''LATE_FEE_NOT_OVERDUE''
           else let daysLate = wholeDaysLate (lr_dueDate r) now in
             if daysLate \<le> rp_graceDays resolved then throw ''LATE_FEE_WITHIN_GRACE''
             else and_then (subtract_money (lr_original r) (lr_applied r)) (\<lambda>balance.
               if isZero balance then throw ''LATE_FEE_ZERO_BALANCE''
               else and_then (buildFeeRow r resolved periodKey (feeAmountOf resolved (m_amount balance))
                   (m_amount balance) daysLate (clk 1)) (\<lambda>fee.
                 and_then (late_fee_event_of r resolved fee balance daysLate (clk 2)) (\<lambda>event.
                   Inr \<lparr>lc_outcome = Accrued, lc_fee = fee, lc_events = [event]\<rparr>))))"

section \<open>What a validated policy guarantees\<close>

definition policy_ok :: "resolved_policy \<Rightarrow> bool" where
  "policy_ok p \<longleftrightarrow> 0 \<le> rp_graceDays p \<and> (\<forall>c. rp_capMinor p = Some c \<longrightarrow> 0 \<le> c) \<and>
     (rp_kind p = Flat \<and> (\<exists>f. rp_flatMinor p = Some f \<and> 0 \<le> f) \<and> rp_percentBps p = None \<or>
      rp_kind p = Percent \<and> (\<exists>b. rp_percentBps p = Some b \<and> 0 \<le> b) \<and> rp_flatMinor p = None)"

lemma bigint_of_nonneg: "bigint_of x = Inr v \<Longrightarrow> \<not> js_neg x \<Longrightarrow> 0 \<le> v"
  by (cases x) (auto split: if_splits)

lemma nonNegativeMinor_nonneg: "nonNegativeMinor v code = Inr n \<Longrightarrow> 0 \<le> n"
  by (cases v) (auto simp: result_simps dest: bigint_of_nonneg split: if_splits)

lemma nonNegativeInt_nonneg: "nonNegativeInt v code = Inr n \<Longrightarrow> 0 \<le> n"
  by (auto simp: nonNegativeInt_def dest: bigint_of_nonneg split: if_splits)

lemma validateLateFeePolicy_ok:
  assumes "validateLateFeePolicy policy = Inr p"
  shows "policy_ok p"
proof -
  from assms have kind: "lp_kind policy = Flat \<or> lp_kind policy = Percent"
    by (auto simp: validateLateFeePolicy_def split: if_splits)
  then show ?thesis
    using assms unfolding validateLateFeePolicy_def policy_ok_def
    by (elim disjE) (auto simp: result_simps dest: nonNegativeMinor_nonneg nonNegativeInt_nonneg split: option.splits)
qed

lemma feeAmountOf_bounds:
  assumes "policy_ok p" and "0 \<le> b"
  shows "0 \<le> feeAmountOf p b" and "\<And>c. rp_capMinor p = Some c \<Longrightarrow> feeAmountOf p b \<le> c"
proof -
  show "0 \<le> feeAmountOf p b"
    using assms by (auto simp: policy_ok_def feeAmountOf_def Let_def pos_imp_zdiv_nonneg_iff split: option.split)
  show "feeAmountOf p b \<le> c" if "rp_capMinor p = Some c" for c
    using that by (simp add: feeAmountOf_def Let_def)
qed

section \<open>Accruals\<close>

lemma already_accrued_Inr:
  assumes "already_accrued r p key v clk = Inr a"
  shows "lc_outcome a = Already_Accrued \<and> lc_events a = [] \<and> (\<forall>fee. v = Some fee \<longrightarrow> lc_fee a = fee)"
  using assms by (cases v) (auto simp: already_accrued_def Let_def result_simps)

lemma accrueLateFee_known:
  assumes "accrueLateFee r policy clk key keys fees = Inr a"
    and "find (\<lambda>fee. lf_periodKey fee = trim key) fees \<noteq> None \<or> trim key \<in> set keys"
  shows "lc_outcome a = Already_Accrued \<and> lc_events a = [] \<and>
    (\<forall>fee. find (\<lambda>fee. lf_periodKey fee = trim key) fees = Some fee \<longrightarrow> lc_fee a = fee)"
  using assms by (auto simp: accrueLateFee_def Let_def result_simps dest: already_accrued_Inr)

lemma accrueLateFee_fresh:
  assumes "accrueLateFee r policy clk key keys fees = Inr a"
    and "find (\<lambda>fee. lf_periodKey fee = trim key) fees = None" and "trim key \<notin> set keys"
  obtains p balance e where "validateLateFeePolicy policy = Inr p" and "trim key \<noteq> []" and "fee_live r"
    and "lr_overdue r \<or> lr_dueDate r < clk 0" and "rp_graceDays p < wholeDaysLate (lr_dueDate r) (clk 0)"
    and "subtract_money (lr_original r) (lr_applied r) = Inr balance" and "\<not> isZero balance"
    and "buildFeeRow r p (trim key) (feeAmountOf p (m_amount balance)) (m_amount balance)
      (wholeDaysLate (lr_dueDate r) (clk 0)) (clk 1) = Inr (lc_fee a)"
    and "a = \<lparr>lc_outcome = Accrued, lc_fee = lc_fee a, lc_events = [e]\<rparr>"
proof -
  from assms show thesis
    by (auto simp: accrueLateFee_def Let_def result_simps not_le intro: that)
qed

lemma buildFeeRow_Inr:
  assumes "buildFeeRow r p key amountMinor balanceMinor daysLate now = Inr fee"
  shows "lf_receivableId fee = lr_id r \<and> lf_periodKey fee = key \<and> lf_amount fee = mk_money amountMinor (lr_currency r) \<and>
    lf_balanceMinor fee = balanceMinor \<and> lf_daysLate fee = daysLate \<and> lf_posting fee = feePosting \<and> lf_accruedAt fee = now"
  using assms by (auto simp: buildFeeRow_def result_simps ofMinorB_Inr)

text \<open>A run of the accrual job for one receivable: the rows it knows are the ones it posted.\<close>

definition accrual_submit ::
  "late_fee_receivable \<Rightarrow> late_fee list \<Rightarrow> late_fee_policy \<times> clock \<times> string \<Rightarrow> js_error + late_fee \<times> bool" where
  "accrual_submit r fees run = (case run of (policy, clk, key) \<Rightarrow>
     and_then (accrueLateFee r policy clk key [] fees) (\<lambda>a. Inr (lc_fee a, lc_outcome a = Already_Accrued)))"

lemma accrual_submit_cases:
  assumes "accrual_submit r fees run = Inr (fee, dup)"
  shows "if dup then fee \<in> set fees else \<forall>x \<in> set fees. lf_periodKey x \<noteq> lf_periodKey fee"
proof -
  obtain policy clk key where run: "run = (policy, clk, key)" by (cases run)
  with assms obtain a where a: "accrueLateFee r policy clk key [] fees = Inr a"
    and fee: "fee = lc_fee a" and dup: "dup \<longleftrightarrow> lc_outcome a = Already_Accrued"
    by (auto simp: accrual_submit_def result_simps)
  show ?thesis
  proof (cases "find (\<lambda>fee. lf_periodKey fee = trim key) fees")
    case (Some x)
    with accrueLateFee_known[OF a] find_SomeD[OF Some] fee dup show ?thesis by simp
  next
    case None
    from accrueLateFee_fresh[OF a None] obtain p b d n where
      "buildFeeRow r p (trim key) b d n (clk 1) = Inr fee" and "lc_outcome a = Accrued"
      unfolding fee by (metis empty_iff list.set(1) late_fee_accrual.select_convs(1))
    with buildFeeRow_Inr None dup show ?thesis by (auto simp: find_None_iff)
  qed
qed

interpretation accruals: idempotent_log "accrual_submit r" "\<lambda>x y. lf_periodKey x = lf_periodKey y" for r
proof (unfold_locales, goal_cases)
  case (1 known c fee)
  from accrual_submit_cases[OF 1] show ?case by simp
next
  case (2 known c fee x)
  from accrual_submit_cases[OF 2(1)] 2(2) show ?case by simp
qed

text \<open>
  C21. One charge per period (H4): however often the accrual job runs over a receivable, under
  whatever policies and clocks and in whatever order of periods, no two fees it posts have
  the same period key, and no posted fee is ever replaced.
\<close>

theorem late_fee_once_per_period:
  "distinct (map lf_periodKey (feed (accrual_submit r) [] runs)) \<and>
   (\<exists>fees. feed (accrual_submit r) posted runs = posted @ fees)"
proof
  have "sorted_wrt (\<lambda>x y. lf_periodKey x \<noteq> lf_periodKey y) (feed (accrual_submit r) [] runs)"
    by (rule accruals.feed_clash_free) simp
  then show "distinct (map lf_periodKey (feed (accrual_submit r) [] runs))"
    by (simp add: distinct_map_sorted_wrt)
qed (rule accruals.feed_extends)

text \<open>
  What a fresh fee amounts to: it is charged on a live debt past its due date by more than
  the grace window and with a positive balance; a percentage fee is the floor of balance times
  basis points over 10000, a flat fee the flat amount, both cut at the cap; it posts to AR
  control against fee income with exactly one event.
\<close>

theorem late_fee_amount:
  assumes "accrueLateFee r policy clk key keys fees = Inr a" and "lc_outcome a = Accrued"
  shows "\<exists>p. validateLateFeePolicy policy = Inr p \<and> fee_live r \<and> rp_graceDays p < lf_daysLate (lc_fee a) \<and>
    lf_balanceMinor (lc_fee a) = m_amount (lr_original r) - m_amount (lr_applied r) \<and> 0 < lf_balanceMinor (lc_fee a) \<and>
    (let uncapped = (if rp_kind p = Flat then the (rp_flatMinor p)
                     else lf_balanceMinor (lc_fee a) * the (rp_percentBps p) div 10000)
     in m_amount (lf_amount (lc_fee a)) = (case rp_capMinor p of None \<Rightarrow> uncapped | Some c \<Rightarrow> min c uncapped)) \<and>
    0 \<le> m_amount (lf_amount (lc_fee a)) \<and> lf_posting (lc_fee a) = feePosting \<and> length (lc_events a) = 1"
proof -
  have "\<not> (find (\<lambda>fee. lf_periodKey fee = trim key) fees \<noteq> None \<or> trim key \<in> set keys)"
  proof
    assume "find (\<lambda>fee. lf_periodKey fee = trim key) fees \<noteq> None \<or> trim key \<in> set keys"
    from accrueLateFee_known[OF assms(1) this] assms(2) show False by simp
  qed
  then have fresh: "find (\<lambda>fee. lf_periodKey fee = trim key) fees = None" "trim key \<notin> set keys" by simp_all
  obtain p balance e where p: "validateLateFeePolicy policy = Inr p" and live: "fee_live r"
    and late: "rp_graceDays p < wholeDaysLate (lr_dueDate r) (clk 0)"
    and b: "subtract_money (lr_original r) (lr_applied r) = Inr balance" and nz: "\<not> isZero balance"
    and row: "buildFeeRow r p (trim key) (feeAmountOf p (m_amount balance)) (m_amount balance)
      (wholeDaysLate (lr_dueDate r) (clk 0)) (clk 1) = Inr (lc_fee a)"
    and a: "a = \<lparr>lc_outcome = Accrued, lc_fee = lc_fee a, lc_events = [e]\<rparr>"
    by (rule accrueLateFee_fresh[OF assms(1) fresh])
  have bal: "m_amount balance = m_amount (lr_original r) - m_amount (lr_applied r)" "0 < m_amount balance"
    using b nz by (auto simp: subtract_money_def result_simps isZero_def)
  note ok = validateLateFeePolicy_ok[OF p]
  have amount: "let uncapped = (if rp_kind p = Flat then the (rp_flatMinor p) else m_amount balance * the (rp_percentBps p) div 10000)
     in feeAmountOf p (m_amount balance) = (case rp_capMinor p of None \<Rightarrow> uncapped | Some c \<Rightarrow> min c uncapped)"
    using ok bal(2) by (auto simp: feeAmountOf_def policy_ok_def Let_def split: option.split)
  have "length (lc_events a) = 1" by (subst a) simp
  then show ?thesis
    using p live late bal buildFeeRow_Inr[OF row] feeAmountOf_bounds(1)[OF ok, of "m_amount balance"] amount[unfolded bal(1)]
    by (intro exI[of _ p] conjI) (simp_all only: money.select_convs order_less_imp_le)
qed

definition sample_fee_debt :: late_fee_receivable where
  "sample_fee_debt = \<lparr>lr_id = ''r1'', lr_currency = KES, lr_dueDate = 0, lr_overdue = True,
     lr_original = mk_money 123457 KES, lr_applied = mk_money 0 KES, lr_state = Some ''open''\<rparr>"

definition sample_fee_policy :: late_fee_policy where
  "sample_fee_policy = \<lparr>lp_kind = Percent, lp_flatMinor = None, lp_percentBps = Some (Fin 333),
     lp_capMinor = None, lp_graceDays = Fin 3\<rparr>"

lemma sample_fee_run:
  "\<exists>a. accrueLateFee sample_fee_debt sample_fee_policy (\<lambda>_. 10 * 86400000) ''2026-01'' [] [] = Inr a \<and>
     lc_outcome a = Accrued \<and> m_amount (lf_amount (lc_fee a)) = 4111"
proof -
  have "wholeDaysLate 0 (10 * 86400000) = 10"
    by (simp add: wholeDaysLate_def floor_quotient_div)
  moreover have "trim ''2026-01'' = ''2026-01''" by code_simp
  ultimately show ?thesis
    by (simp add: accrueLateFee_def sample_fee_debt_def sample_fee_policy_def validateLateFeePolicy_def nonNegativeInt_def
        fee_live_def subtract_money_def assertSame_def isZero_def buildFeeRow_def feeAmountOf_def ofMinorB_nonneg
        late_fee_event_of_def minorToNumber_def number_of_int max_safe_integer_def Let_def)
qed

theorem late_fee_amount_witness:
  "\<exists>a. accrueLateFee sample_fee_debt sample_fee_policy (\<lambda>_. 10 * 86400000) ''2026-01'' [] [] = Inr a \<and>
     lf_balanceMinor (lc_fee a) = 123457 \<and> length (lc_events a) = 1"
proof -
  obtain a where a: "accrueLateFee sample_fee_debt sample_fee_policy (\<lambda>_. 10 * 86400000) ''2026-01'' [] [] = Inr a"
    "lc_outcome a = Accrued" using sample_fee_run by blast
  from late_fee_amount[OF a] a(1) show ?thesis by (auto simp: sample_fee_debt_def)
qed

end
