(* ===== verification/Payment_Plan.thy ===== *)
theory Payment_Plan
  imports Invoice
begin

text \<open>
  Payment plans (\<open>src/src/domain/receivables/payment-plan.ts\<close> and \<open>plan-events.ts\<close>): a
  debt restructured into monthly installments split to the cent, an append-only log of the
  payments against them, and completion, default and cancellation.
\<close>

section \<open>Data\<close>

datatype plan_state = P_Active | P_Completed | P_Defaulted | P_Cancelled

record plan_installment =
  in_no :: int
  in_dueDate :: date
  in_amountMinor :: int
  in_paidMinor :: int
  in_paidAt :: "date option"

record plan_payment_record =
  pr_installmentNo :: int
  pr_amountMinor :: int
  pr_recordedAt :: date

record payment_plan =
  pp_id :: uuid
  pp_customerId :: uuid
  pp_receivableIds :: "uuid list"
  pp_currency :: currency
  pp_totalMinor :: int
  pp_installmentCount :: int
  pp_state :: plan_state
  pp_installments :: "plan_installment list"
  pp_paymentLog :: "plan_payment_record list"
  pp_createdAt :: "date option"
  pp_completedAt :: "date option"
  pp_defaultedAt :: "date option"
  pp_cancelledAt :: "date option"
  pp_cancelReason :: "string option"

record plan_args =
  pa_id :: uuid
  pa_customerId :: uuid
  pa_receivableIds :: "uuid list"
  pa_currency :: currency
  pa_totalMinor :: money_input
  pa_installmentCount :: js_num

datatype plan_payload =
    PlanPaymentRecorded uuid uuid int js_num js_num currency
  | PlanCompleted uuid uuid currency string
  | PlanDefaulted uuid uuid int int int
  | PlanCancelled uuid uuid string

type_synonym plan_event = "(plan_payload, string) domain_event"

definition planPaymentRecordedEvent :: "uuid \<Rightarrow> uuid \<Rightarrow> int \<Rightarrow> js_num \<Rightarrow> js_num \<Rightarrow> currency \<Rightarrow> date \<Rightarrow> plan_event" where
  "planPaymentRecordedEvent planId customerId no amountMinor paidMinor c now =
     domainEvent ''paymentplan.paymentRecorded'' planId (PlanPaymentRecorded planId customerId no amountMinor paidMinor c) now"

definition planCompletedEvent :: "uuid \<Rightarrow> uuid \<Rightarrow> currency \<Rightarrow> string \<Rightarrow> date \<Rightarrow> plan_event" where
  "planCompletedEvent planId customerId c completedAt now =
     domainEvent ''paymentplan.completed'' planId (PlanCompleted planId customerId c completedAt) now"

definition planDefaultedEvent :: "uuid \<Rightarrow> uuid \<Rightarrow> int \<Rightarrow> int \<Rightarrow> int \<Rightarrow> date \<Rightarrow> plan_event" where
  "planDefaultedEvent planId customerId no daysOverdue defaultAfterDays now =
     domainEvent ''paymentplan.defaulted'' planId (PlanDefaulted planId customerId no daysOverdue defaultAfterDays) now"

definition planCancelledEvent :: "uuid \<Rightarrow> uuid \<Rightarrow> string \<Rightarrow> date \<Rightarrow> plan_event" where
  "planCancelledEvent planId customerId reason now =
     domainEvent ''paymentplan.cancelled'' planId (PlanCancelled planId customerId reason) now"

section \<open>Operations\<close>

fun unsafe_number :: "money_input \<Rightarrow> bool" where
  "unsafe_number (NumberIn x) = (\<not> is_safe_integer x)"
| "unsafe_number (BigIntIn _) = False"

fun BigInt_of :: "money_input \<Rightarrow> int result" where
  "BigInt_of (NumberIn x) = bigint_of x"
| "BigInt_of (BigIntIn v) = Inr v"

definition createPaymentPlan :: "plan_args \<Rightarrow> clock \<Rightarrow> payment_plan result" where
  "createPaymentPlan args clk =
     (if unsafe_number (pa_totalMinor args) then throw ''PAYMENT_PLAN_TOTAL_INVALID''
      else and_then (BigInt_of (pa_totalMinor args)) (\<lambda>totalMinor.
        if totalMinor \<le> 0 then throw ''PAYMENT_PLAN_TOTAL_INVALID''
        else if \<not> is_safe_integer (pa_installmentCount args) \<or> js_less (pa_installmentCount args) 1
          then throw ''PAYMENT_PLAN_INSTALLMENT_COUNT_INVALID''
        else and_then (bigint_of (pa_installmentCount args)) (\<lambda>count.
          if totalMinor < count then throw ''PAYMENT_PLAN_TOTAL_TOO_SMALL''
          else if pa_receivableIds args = [] then throw ''PAYMENT_PLAN_RECEIVABLES_REQUIRED''
          else if \<not> distinct (pa_receivableIds args) then throw ''PAYMENT_PLAN_RECEIVABLE_DUPLICATED''
          else Inr \<lparr>pp_id = pa_id args, pp_customerId = pa_customerId args, pp_receivableIds = pa_receivableIds args,
            pp_currency = pa_currency args, pp_totalMinor = totalMinor, pp_installmentCount = count,
            pp_state = P_Active, pp_installments = [], pp_paymentLog = [], pp_createdAt = Some (clk 0),
            pp_completedAt = None, pp_defaultedAt = None, pp_cancelledAt = None, pp_cancelReason = None\<rparr>)))"

definition dueDateFor :: "date \<Rightarrow> int \<Rightarrow> date" where
  "dueDateFor anchor no =
     (let first = date_UTC (getUTCFullYear anchor) (getUTCMonth anchor + no) 1 (time_in_day anchor);
          daysInMonth = getUTCDate (date_UTC (getUTCFullYear first) (getUTCMonth first + 1) 0 0)
      in setUTCDate first (min (getUTCDate anchor) daysInMonth))"

text \<open>\<open>Array.from({ length: n }, () => 1)\<close> raises above the largest array length.\<close>

definition ones :: "int \<Rightarrow> js_num list result" where
  "ones n = (if n > 4294967295 then Inl RangeError else Inr (replicate (nat n) (Fin 1)))"

definition buildSchedule :: "payment_plan \<Rightarrow> date \<Rightarrow> payment_plan result" where
  "buildSchedule plan startDate =
     (if pp_state plan \<noteq> P_Active then throw ''INVALID_PAYMENT_PLAN_TRANSITION''
      else if pp_installments plan \<noteq> [] then throw ''PAYMENT_PLAN_SCHEDULE_EXISTS''
      else and_then (ofMinorB (pp_totalMinor plan) (pp_currency plan)) (\<lambda>total.
        and_then (ones (pp_installmentCount plan)) (\<lambda>weights.
        and_then (allocate total weights) (\<lambda>parts.
          Inr (plan\<lparr>pp_installments := map (\<lambda>(i, part).
            \<lparr>in_no = int i + 1, in_dueDate = dueDateFor startDate (int i + 1), in_amountMinor = m_amount part,
             in_paidMinor = 0, in_paidAt = None\<rparr>) (enumerate 0 parts)\<rparr>)))))"

definition daysLateOf :: "plan_installment \<Rightarrow> date \<Rightarrow> int" where
  "daysLateOf inst now = max 0 (floor_quotient (now - in_dueDate inst) 86400000)"

definition requireActive :: "payment_plan \<Rightarrow> unit result" where
  "requireActive plan = (if pp_state plan \<noteq> P_Active then throw ''INVALID_PAYMENT_PLAN_TRANSITION'' else Inr ())"

definition requireScheduled :: "payment_plan \<Rightarrow> unit result" where
  "requireScheduled plan = (if int (length (pp_installments plan)) \<noteq> pp_installmentCount plan
     then throw ''PAYMENT_PLAN_SCHEDULE_MISSING'' else Inr ())"

definition isFullyPaid :: "plan_installment \<Rightarrow> bool" where
  "isFullyPaid inst \<longleftrightarrow> in_amountMinor inst \<le> in_paidMinor inst"

text \<open>The installment and the plan after a payment that passed the guards.\<close>

definition pay_installment :: "plan_installment \<Rightarrow> int \<Rightarrow> date \<Rightarrow> plan_installment" where
  "pay_installment slot amount now = slot\<lparr>in_paidMinor := in_paidMinor slot + amount,
     in_paidAt := (if in_paidMinor slot + amount = in_amountMinor slot then Some now else in_paidAt slot)\<rparr>"

definition plan_after_payment :: "payment_plan \<Rightarrow> int \<Rightarrow> plan_installment \<Rightarrow> int \<Rightarrow> date \<Rightarrow> payment_plan" where
  "plan_after_payment plan no paidInst amount now =
     (let insts = map (\<lambda>inst. if in_no inst = no then paidInst else inst) (pp_installments plan);
          completed = list_all isFullyPaid insts
      in plan\<lparr>pp_installments := insts,
           pp_paymentLog := pp_paymentLog plan @ [\<lparr>pr_installmentNo = no, pr_amountMinor = amount, pr_recordedAt = now\<rparr>],
           pp_state := (if completed then P_Completed else pp_state plan),
           pp_completedAt := (if completed then Some now else pp_completedAt plan)\<rparr>)"

definition recordPlanPayment ::
  "payment_plan \<Rightarrow> js_num \<Rightarrow> money_input \<Rightarrow> clock \<Rightarrow> (payment_plan \<times> plan_event list) result" where
  "recordPlanPayment plan installmentNo amountMinor clk =
     and_then (requireActive plan) (\<lambda>_. and_then (requireScheduled plan) (\<lambda>_.
       let no = int_of_num installmentNo in
       if \<not> is_safe_integer installmentNo \<or> js_less installmentNo 1 \<or> no > pp_installmentCount plan \<or>
          length (pp_installments plan) \<le> nat (no - 1)
       then throw ''PAYMENT_PLAN_INSTALLMENT_UNKNOWN''
       else let slot = pp_installments plan ! nat (no - 1) in
         and_then (ofMinor amountMinor (pp_currency plan)) (\<lambda>amount.
           if \<not> isPositive amount then throw ''PAYMENT_PLAN_PAYMENT_AMOUNT_INVALID''
           else if in_paidMinor slot + m_amount amount > in_amountMinor slot then throw ''PAYMENT_PLAN_INSTALLMENT_OVERPAID''
           else let now = clk 0;
                    paidInst = pay_installment slot (m_amount amount) now;
                    plan' = plan_after_payment plan no paidInst (m_amount amount) now in
             and_then (minorToNumber amount) (\<lambda>amountNumber.
             and_then (and_then (ofMinorB (in_paidMinor paidInst) (pp_currency plan)) minorToNumber) (\<lambda>paidNumber.
               Inr (plan',
                 planPaymentRecordedEvent (pp_id plan) (pp_customerId plan) no amountNumber paidNumber (pp_currency plan) (clk 1) #
                 (if list_all isFullyPaid (pp_installments plan')
                  then [planCompletedEvent (pp_id plan) (pp_customerId plan) (pp_currency plan) (toISOString now) (clk 2)]
                  else [])))))))"

definition unpaidInstallmentsOf :: "payment_plan \<Rightarrow> plan_installment list" where
  "unpaidInstallmentsOf plan = filter (\<lambda>inst. \<not> isFullyPaid inst) (pp_installments plan)"

definition markPlanDefaulted :: "payment_plan \<Rightarrow> js_num \<Rightarrow> clock \<Rightarrow> (payment_plan \<times> plan_event) result" where
  "markPlanDefaulted plan defaultAfterDays clk =
     and_then (requireActive plan) (\<lambda>_. and_then (requireScheduled plan) (\<lambda>_.
       if \<not> is_safe_integer defaultAfterDays \<or> js_neg defaultAfterDays then throw ''PAYMENT_PLAN_DEFAULT_POLICY_INVALID''
       else let now = clk 0; after = int_of_num defaultAfterDays in
         case find (\<lambda>inst. daysLateOf inst now \<ge> after) (unpaidInstallmentsOf plan) of
           None \<Rightarrow> throw ''PAYMENT_PLAN_NOT_DEFAULTABLE''
         | Some trigger \<Rightarrow>
             Inr (plan\<lparr>pp_state := P_Defaulted, pp_defaultedAt := Some now\<rparr>,
               planDefaultedEvent (pp_id plan) (pp_customerId plan) (in_no trigger) (daysLateOf trigger now) after (clk 1))))"

definition cancelPaymentPlan :: "payment_plan \<Rightarrow> string \<Rightarrow> clock \<Rightarrow> (payment_plan \<times> plan_event) result" where
  "cancelPaymentPlan plan reason0 clk =
     (let reason = trim reason0 in
      if reason = [] then throw ''PAYMENT_PLAN_CANCEL_REASON_REQUIRED''
      else and_then (requireActive plan) (\<lambda>_.
        Inr (plan\<lparr>pp_state := P_Cancelled, pp_cancelledAt := Some (clk 0), pp_cancelReason := Some reason\<rparr>,
          planCancelledEvent (pp_id plan) (pp_customerId plan) reason (clk 1))))"

section \<open>Calendar and split\<close>


lemma scaled_weight_exact:
  assumes "0 \<le> w" and "w \<le> 9007199"
  shows "scaled_weight (Fin (of_int w)) = Inr (w * 1000000000)"
proof -
  have "w \<le> 2 ^ 53" using assms(2) by simp
  from scaled_weight_int[OF assms(1) this] obtain n where n: "scaled_weight (Fin (of_int w)) = Inr n"
    "\<bar>n - w * 1000000000\<bar> * 2 ^ 53 \<le> w * 1000000000" .
  have "w * 1000000000 \<le> 9007199 * 1000000000" using assms(2) by (rule mult_right_mono) simp
  also have "\<dots> < 1 * 2 ^ 53" by simp
  finally have "\<bar>n - w * 1000000000\<bar> * 2 ^ 53 < 1 * 2 ^ 53" by (rule order_le_less_trans[OF n(2)])
  then have "\<bar>n - w * 1000000000\<bar> < 1" by (rule mult_right_less_imp_less) simp
  then show ?thesis using n(1) by simp
qed

lemma raw_slots_equal:
  assumes "0 \<le> a" and "0 < n"
  shows "raw_slots a (int n * 1000000000) (replicate n 1000000000) =
    map (\<lambda>i. \<lparr>s_index = i, s_base = a div int n, s_rem = (a mod int n) * 1000000000\<rparr>) [0..<n]"
proof (rule nth_equalityI)
  fix i assume "i < length (raw_slots a (int n * 1000000000) (replicate n 1000000000))"
  then show "raw_slots a (int n * 1000000000) (replicate n 1000000000) ! i =
    map (\<lambda>i. \<lparr>s_index = i, s_base = a div int n, s_rem = (a mod int n) * 1000000000\<rparr>) [0..<n] ! i"
    using assms by (simp add: raw_slots_nth mult_mod_left)
qed simp

text \<open>An equal split: the first \<open>a mod n\<close> parts carry the extra unit.\<close>

lemma split_equal:
  assumes "0 \<le> a" and "0 < n"
  shows "split_scaled a (int n * 1000000000) (replicate n 1000000000) =
    map (\<lambda>i. a div int n + (if int i < a mod int n then 1 else 0)) [0..<n]"
proof -
  let ?raw = "map (\<lambda>i. \<lparr>s_index = i, s_base = a div int n, s_rem = (a mod int n) * 1000000000\<rparr>) [0..<n]"
  have order: "slot_order ?raw = ?raw"
    unfolding slot_order_def by (rule sort_key_id_if_sorted) (simp add: o_def sorted_iff_nth_mono)
  have "a - int n * (a div int n) = a mod int n" by (simp add: minus_mult_div_eq_mod)
  then have "bumped_slots a ?raw = set (take (nat (a mod int n)) [0..<n])"
    by (simp only: bumped_slots_def Let_def order) (simp add: o_def sum_list_triv take_map)
  moreover have "nat (a mod int n) < n" using assms(2) by (simp add: nat_less_iff)
  ultimately have "bumped_slots a ?raw = {0..<nat (a mod int n)}" by simp
  then show ?thesis
    by (simp add: split_scaled_def raw_slots_equal[OF assms] Let_def) (auto simp: o_def zless_nat_eq_int_zless)
qed

lemma allocate_equal:
  assumes "0 \<le> m_amount m" and "0 < n" and "n \<le> 9007199"
  shows "allocate m (replicate n (Fin 1)) =
    Inr (map (\<lambda>i. mk_money (m_amount m div int n + (if int i < m_amount m mod int n then 1 else 0)) (m_currency m)) [0..<n])"
proof -
  have w: "replicate n (Fin 1) = int_weights (replicate n 1)" by simp
  have tot: "foldl js_add (Fin 0) (int_weights (replicate n 1)) = Fin (of_int (int n))"
    using foldl_js_add_int[of "replicate n 1" 0] assms(3) by (simp add: sum_list_replicate)
  have s: "scaled_weight (Fin (of_int (int n))) = Inr (int n * 1000000000)"
    using assms(3) by (intro scaled_weight_exact) simp_all
  have one: "scaled_weight (Fin (of_int 1)) = Inr 1000000000"
    using scaled_weight_exact[of 1] by simp
  have sc: "traverse scaled_weight (int_weights (replicate n 1)) = Inr (replicate n 1000000000)"
    using one traverse_total[of "int_weights (replicate n 1)" scaled_weight "\<lambda>_. 1000000000"] assms(2) by simp
  have np: "\<not> js_nonpos (Fin (of_int (int n)))" using assms(2) by simp
  show ?thesis
    unfolding w allocate_def Let_def tot s sc and_then.simps
    using assms np by (simp add: split_equal[OF assms(1,2)] o_def)
qed

section \<open>The plan invariant\<close>

definition logged :: "plan_payment_record list \<Rightarrow> int \<Rightarrow> int" where
  "logged records no = sum_list (map pr_amountMinor (filter (\<lambda>r. pr_installmentNo r = no) records))"

text \<open>
  A schedule numbers its installments from 1, covers the total, and no installment is paid
  beyond its amount; what is paid on it is what the log says.
\<close>

definition schedule_ok :: "payment_plan \<Rightarrow> bool" where
  "schedule_ok p \<longleftrightarrow>
     map in_no (pp_installments p) = map (\<lambda>i. int i + 1) [0..<length (pp_installments p)] \<and>
     int (length (pp_installments p)) = pp_installmentCount p \<and>
     sum_list (map in_amountMinor (pp_installments p)) = pp_totalMinor p \<and>
     (\<forall>inst \<in> set (pp_installments p). 0 < in_amountMinor inst \<and> 0 \<le> in_paidMinor inst \<and>
        in_paidMinor inst \<le> in_amountMinor inst \<and> in_paidMinor inst = logged (pp_paymentLog p) (in_no inst))"

definition plan_ok :: "payment_plan \<Rightarrow> bool" where
  "plan_ok p \<longleftrightarrow> 1 \<le> pp_installmentCount p \<and> pp_installmentCount p \<le> 9007199 \<and>
     pp_installmentCount p \<le> pp_totalMinor p \<and>
     (if pp_installments p = [] then pp_paymentLog p = [] else schedule_ok p) \<and>
     sum_list (map pr_amountMinor (pp_paymentLog p)) = sum_list (map in_paidMinor (pp_installments p)) \<and>
     (pp_state p = P_Completed \<longleftrightarrow> pp_installments p \<noteq> [] \<and> list_all isFullyPaid (pp_installments p))"

lemma createPaymentPlan_Inr:
  assumes "createPaymentPlan args clk = Inr p"
  shows "1 \<le> pp_installmentCount p \<and> pp_installmentCount p \<le> pp_totalMinor p \<and> pp_installments p = [] \<and>
    pp_paymentLog p = [] \<and> pp_state p = P_Active"
proof -
  from assms have n: "\<not> js_less (pa_installmentCount args) 1" "bigint_of (pa_installmentCount args) = Inr (pp_installmentCount p)"
    by (auto simp: createPaymentPlan_def result_simps)
  then have "1 \<le> pp_installmentCount p"
    by (cases "pa_installmentCount args") (auto split: if_splits)
  with assms show ?thesis by (auto simp: createPaymentPlan_def result_simps)
qed

lemma createPaymentPlan_ok:
  "createPaymentPlan args clk = Inr p \<Longrightarrow> pp_installmentCount p \<le> 9007199 \<Longrightarrow> plan_ok p"
  by (drule createPaymentPlan_Inr) (simp add: plan_ok_def)

lemma buildSchedule_exact:
  assumes "plan_ok p" and "pp_state p = P_Active" and "pp_installments p = []"
  shows "buildSchedule p start = Inr (p\<lparr>pp_installments := map (\<lambda>i.
    \<lparr>in_no = int i + 1, in_dueDate = dueDateFor start (int i + 1),
     in_amountMinor = pp_totalMinor p div pp_installmentCount p +
       (if int i < pp_totalMinor p mod pp_installmentCount p then 1 else 0),
     in_paidMinor = 0, in_paidAt = None\<rparr>) [0..<nat (pp_installmentCount p)]\<rparr>)"
proof -
  define n where "n = nat (pp_installmentCount p)"
  have n: "pp_installmentCount p = int n" "0 < n" "n \<le> 9007199" "0 \<le> pp_totalMinor p"
    using assms(1) by (simp_all add: plan_ok_def n_def nat_le_iff)
  note al = allocate_equal[of "mk_money (pp_totalMinor p) (pp_currency p)", OF _ n(2,3)]
  show ?thesis
    using assms n al
    by (simp add: buildSchedule_def ofMinorB_nonneg ones_def enumerate_map_upt n(1))
qed

lemma equal_shares:
  assumes "0 < n" and "int n \<le> a"
  shows "sum_list (map (\<lambda>i. a div int n + (if int i < a mod int n then 1 else 0)) [0..<n]) = a"
    and "0 < a div int n + (if int i < a mod int n then 1 else (0::int))"
proof -
  have k: "nat (a mod int n) \<le> n" "0 \<le> a mod int n" using assms(1) by (simp_all add: nat_le_iff less_imp_le)
  have "sum_list (map (\<lambda>i. if int i < a mod int n then 1 else (0::int)) [0..<n]) =
    int (card {i \<in> {0..<n}. int i < a mod int n})"
    by (simp add: interv_sum_list_conv_sum_set_nat sum.If_cases Int_def)
  also have "{i \<in> {0..<n}. int i < a mod int n} = {0..<nat (a mod int n)}"
    using k by auto
  finally have "sum_list (map (\<lambda>i. if int i < a mod int n then 1 else (0::int)) [0..<n]) = a mod int n"
    using k by simp
  then show "sum_list (map (\<lambda>i. a div int n + (if int i < a mod int n then 1 else 0)) [0..<n]) = a"
    by (simp add: sum_list_addf sum_list_triv)
  have "1 \<le> a div int n" using assms zdiv_mono1[of "int n" a "int n"] by simp
  then show "0 < a div int n + (if int i < a mod int n then 1 else (0::int))" by simp
qed

lemma buildSchedule_ok:
  assumes "plan_ok p" and "buildSchedule p start = Inr p'"
  shows "plan_ok p'"
proof -
  from assms(2) have st: "pp_state p = P_Active" "pp_installments p = []"
    by (auto simp: buildSchedule_def split: if_splits)
  define n where "n = nat (pp_installmentCount p)"
  have n: "pp_installmentCount p = int n" "0 < n" "int n \<le> pp_totalMinor p"
    using assms(1) by (simp_all add: plan_ok_def n_def)
  have p': "p' = p\<lparr>pp_installments := pp_installments p'\<rparr>"
    and insts: "pp_installments p' = map (\<lambda>i. \<lparr>in_no = int i + 1, in_dueDate = dueDateFor start (int i + 1),
     in_amountMinor = pp_totalMinor p div int n + (if int i < pp_totalMinor p mod int n then 1 else 0),
     in_paidMinor = 0, in_paidAt = None\<rparr>) [0..<n]"
    using buildSchedule_exact[OF assms(1) st, of start] assms(2) n by auto
  have amounts: "\<forall>inst \<in> set (pp_installments p'). in_paidMinor inst = 0 \<and> 0 < in_amountMinor inst"
    using equal_shares(2)[OF n(2,3)] by (auto simp: insts)
  have keep: "pp_totalMinor p' = pp_totalMinor p" "pp_installmentCount p' = int n" "pp_paymentLog p' = []" "pp_state p' = P_Active"
    using assms(1) st n by (subst p', simp add: plan_ok_def)+
  have ne: "pp_installments p' \<noteq> []" using n(2) by (simp add: insts)
  have "schedule_ok p'"
    using amounts equal_shares(1)[OF n(2,3)]
    by (auto simp: schedule_ok_def keep logged_def insts o_def)
  moreover have "\<not> list_all isFullyPaid (pp_installments p')"
    using amounts ne by (cases "pp_installments p'") (simp_all add: isFullyPaid_def)
  moreover have "sum_list (map in_paidMinor (pp_installments p')) = 0"
    by (simp add: insts o_def)
  ultimately show ?thesis
    using n insts by (simp add: plan_ok_def keep) (use assms(1) n in \<open>simp add: plan_ok_def\<close>)
qed

lemma recordPlanPayment_Inr:
  assumes "recordPlanPayment p no0 amt clk = Inr (p', evs)"
  obtains k v where "pp_state p = P_Active" and "int (length (pp_installments p)) = pp_installmentCount p"
    and "k < length (pp_installments p)" and "toMinor amt = Inr v" and "0 < v"
    and "in_paidMinor (pp_installments p ! k) + v \<le> in_amountMinor (pp_installments p ! k)"
    and "p' = plan_after_payment p (int k + 1) (pay_installment (pp_installments p ! k) v (clk 0)) v (clk 0)"
proof -
  let ?no = "int_of_num no0"
  from assms have g: "is_safe_integer no0" "\<not> js_less no0 1" "\<not> length (pp_installments p) \<le> nat (?no - 1)"
    "pp_state p = P_Active" "int (length (pp_installments p)) = pp_installmentCount p"
    by (auto simp: recordPlanPayment_def requireActive_def requireScheduled_def result_simps Let_def)
  from assms obtain amount where a: "ofMinor amt (pp_currency p) = Inr amount" "isPositive amount"
    "in_paidMinor (pp_installments p ! nat (?no - 1)) + m_amount amount \<le> in_amountMinor (pp_installments p ! nat (?no - 1))"
    "p' = plan_after_payment p ?no (pay_installment (pp_installments p ! nat (?no - 1)) (m_amount amount) (clk 0)) (m_amount amount) (clk 0)"
    by (auto simp: recordPlanPayment_def requireActive_def requireScheduled_def result_simps Let_def)
  have "1 \<le> ?no" using g(1,2) by (cases no0) auto
  then have "?no = int (nat (?no - 1)) + 1" by simp
  with a g show thesis
    by (intro that[of "nat (?no - 1)" "m_amount amount"]) (auto simp: ofMinor_def result_simps isPositive_def)
qed

lemma plan_after_payment_total: "pp_totalMinor (plan_after_payment p no paid v now) = pp_totalMinor p"
  by (simp add: plan_after_payment_def Let_def)

lemma replace_installment:
  assumes "map in_no insts = map (\<lambda>i. int i + 1) [0..<length insts]" and "k < length insts"
  shows "map (\<lambda>inst. if in_no inst = int k + 1 then x else inst) insts = insts[k := x]"
proof (rule nth_equalityI)
  fix i assume "i < length (map (\<lambda>inst. if in_no inst = int k + 1 then x else inst) insts)"
  then have i: "i < length insts" by simp
  have "in_no (insts ! i) = int i + 1" using arg_cong[OF assms(1), of "\<lambda>l. l ! i"] i by simp
  then show "map (\<lambda>inst. if in_no inst = int k + 1 then x else inst) insts ! i = insts[k := x] ! i"
    using i assms(2) by (simp add: nth_list_update)
qed simp

lemma recordPlanPayment_ok:
  assumes "plan_ok p" and "recordPlanPayment p no0 amt clk = Inr (p', evs)"
  shows "plan_ok p' \<and> (\<exists>v. toMinor amt = Inr v \<and> 0 < v \<and>
    sum_list (map in_paidMinor (pp_installments p')) = sum_list (map in_paidMinor (pp_installments p)) + v)"
proof -
  from recordPlanPayment_Inr[OF assms(2)] obtain k v where st: "pp_state p = P_Active"
    and k: "k < length (pp_installments p)" and v: "toMinor amt = Inr v" "0 < v"
    and fits: "in_paidMinor (pp_installments p ! k) + v \<le> in_amountMinor (pp_installments p ! k)"
    and p': "p' = plan_after_payment p (int k + 1) (pay_installment (pp_installments p ! k) v (clk 0)) v (clk 0)" .
  let ?slot = "pp_installments p ! k"
  define paid where "paid = pay_installment ?slot v (clk 0)"
  have paid: "in_no paid = in_no ?slot" "in_amountMinor paid = in_amountMinor ?slot" "in_paidMinor paid = in_paidMinor ?slot + v"
    by (simp_all add: paid_def pay_installment_def)
  have "pp_installments p \<noteq> []" using k by auto
  with assms(1) have sched: "schedule_ok p" by (simp add: plan_ok_def)
  then have nos: "map in_no (pp_installments p) = map (\<lambda>i. int i + 1) [0..<length (pp_installments p)]"
    by (simp add: schedule_ok_def)
  have no: "in_no (pp_installments p ! i) = int i + 1" if "i < length (pp_installments p)" for i
    using arg_cong[OF nos, of "\<lambda>l. l ! i"] that by simp
  have insts: "pp_installments p' = (pp_installments p)[k := paid]"
    using replace_installment[OF nos k, of paid] by (simp add: p' plan_after_payment_def Let_def flip: paid_def)
  have log': "pp_paymentLog p' = pp_paymentLog p @ [\<lparr>pr_installmentNo = int k + 1, pr_amountMinor = v, pr_recordedAt = clk 0\<rparr>]"
    and same: "pp_totalMinor p' = pp_totalMinor p" "pp_installmentCount p' = pp_installmentCount p"
    and state: "pp_state p' = (if list_all isFullyPaid (pp_installments p') then P_Completed else P_Active)"
    using insts st by (auto simp: p' plan_after_payment_def Let_def)
  have ids: "map in_no (pp_installments p') = map in_no (pp_installments p)"
    by (simp add: insts map_update paid(1) k) (metis k list_update_id map_update)
  have amounts: "sum_list (map in_amountMinor (pp_installments p')) = pp_totalMinor p"
    using sched by (simp add: insts sum_list_map_update[OF k] paid schedule_ok_def)
  have each: "\<forall>i < length (pp_installments p'). let inst = pp_installments p' ! i in 0 < in_amountMinor inst \<and>
      0 \<le> in_paidMinor inst \<and> in_paidMinor inst \<le> in_amountMinor inst \<and> in_paidMinor inst = logged (pp_paymentLog p') (in_no inst)"
    using sched fits v(2) k
    by (auto simp: insts nth_list_update paid log' logged_def no Let_def schedule_ok_def all_set_conv_all_nth)
  have "schedule_ok p'" unfolding schedule_ok_def same all_set_conv_all_nth
  proof (intro conjI)
    show "map in_no (pp_installments p') = map (\<lambda>i. int i + 1) [0..<length (pp_installments p')]"
      "int (length (pp_installments p')) = pp_installmentCount p" "sum_list (map in_amountMinor (pp_installments p')) = pp_totalMinor p"
      using ids nos amounts sched by (simp_all add: insts schedule_ok_def)
  qed (rule each[unfolded Let_def])
  moreover have sum: "sum_list (map in_paidMinor (pp_installments p')) = sum_list (map in_paidMinor (pp_installments p)) + v"
    by (simp add: insts sum_list_map_update[OF k] paid)
  moreover have "pp_installments p' \<noteq> []" using k by (auto simp: insts)
  ultimately show ?thesis
    using assms(1) v state by (simp add: plan_ok_def same log')
qed

section \<open>The plan as a machine\<close>

datatype plan_command =
    BuildSchedule date
  | RecordPayment js_num money_input clock
  | MarkDefaulted js_num clock
  | CancelPlan string clock

fun plan_step :: "payment_plan \<Rightarrow> plan_command \<Rightarrow> payment_plan result" where
  "plan_step p (BuildSchedule start) = buildSchedule p start"
| "plan_step p (RecordPayment no amt clk) = and_then (recordPlanPayment p no amt clk) (\<lambda>(p', _). Inr p')"
| "plan_step p (MarkDefaulted days clk) = and_then (markPlanDefaulted p days clk) (\<lambda>(p', _). Inr p')"
| "plan_step p (CancelPlan reason clk) = and_then (cancelPaymentPlan p reason clk) (\<lambda>(p', _). Inr p')"

lemma markPlanDefaulted_Inr:
  assumes "markPlanDefaulted p days clk = Inr (p', e)"
  shows "pp_state p = P_Active \<and> p' = p\<lparr>pp_state := P_Defaulted, pp_defaultedAt := Some (clk 0)\<rparr> \<and>
    (\<exists>inst \<in> set (pp_installments p). \<not> isFullyPaid inst \<and> int_of_num days \<le> daysLateOf inst (clk 0))"
  using assms
  by (auto simp: markPlanDefaulted_def requireActive_def requireScheduled_def result_simps Let_def unpaidInstallmentsOf_def
      split: option.splits dest!: find_SomeD)

lemma cancelPaymentPlan_Inr:
  assumes "cancelPaymentPlan p reason clk = Inr (p', e)"
  shows "pp_state p = P_Active \<and> p' = p\<lparr>pp_state := P_Cancelled, pp_cancelledAt := Some (clk 0), pp_cancelReason := Some (trim reason)\<rparr>"
  using assms by (auto simp: cancelPaymentPlan_def requireActive_def result_simps Let_def)

lemma plan_ok_dead:
  assumes "plan_ok p" and "pp_state p = P_Active" and "s \<noteq> P_Completed"
  shows "plan_ok (p\<lparr>pp_state := s, pp_defaultedAt := d\<rparr>)"
    and "plan_ok (p\<lparr>pp_state := s, pp_cancelledAt := d, pp_cancelReason := r\<rparr>)"
proof -
  have "schedule_ok (p\<lparr>pp_state := s, pp_defaultedAt := d\<rparr>) = schedule_ok p"
    "schedule_ok (p\<lparr>pp_state := s, pp_cancelledAt := d, pp_cancelReason := r\<rparr>) = schedule_ok p"
    by (simp_all add: schedule_ok_def)
  then show "plan_ok (p\<lparr>pp_state := s, pp_defaultedAt := d\<rparr>)"
    "plan_ok (p\<lparr>pp_state := s, pp_cancelledAt := d, pp_cancelReason := r\<rparr>)"
    using assms by (simp_all add: plan_ok_def)
qed

lemma plan_step_ok: "plan_ok p \<Longrightarrow> plan_step p c = Inr p' \<Longrightarrow> plan_ok p'"
  by (cases c) (auto simp: result_simps dest: buildSchedule_ok recordPlanPayment_ok markPlanDefaulted_Inr
      cancelPaymentPlan_Inr intro: plan_ok_dead)

interpretation plan_machine: guarded_machine plan_step plan_ok "\<lambda>_. True"
  by unfold_locales (rule plan_step_ok)

lemma plan_step_active: "plan_step p c = Inr p' \<Longrightarrow> pp_state p = P_Active"
  by (cases c) (auto simp: result_simps buildSchedule_def split: if_splits
      elim: recordPlanPayment_Inr dest: markPlanDefaulted_Inr cancelPaymentPlan_Inr)

interpretation plan_final: absorbing_machine plan_step "\<lambda>p. pp_state p \<noteq> P_Active"
  by unfold_locales (auto dest: plan_step_active)

text \<open>Payments alone draw on what the plan still owes.\<close>

definition plan_pay_step :: "payment_plan \<Rightarrow> js_num \<times> money_input \<times> clock \<Rightarrow> payment_plan result" where
  "plan_pay_step p c = (case c of (no, amt, clk) \<Rightarrow> plan_step p (RecordPayment no amt clk))"

definition plan_owed :: "payment_plan \<Rightarrow> int" where
  "plan_owed p = pp_totalMinor p - sum_list (map in_paidMinor (pp_installments p))"

definition pay_amount :: "js_num \<times> money_input \<times> clock \<Rightarrow> int" where
  "pay_amount c = (case toMinor (fst (snd c)) of Inl _ \<Rightarrow> 0 | Inr v \<Rightarrow> v)"

lemma plan_owed_nonneg:
  assumes "plan_ok p"
  shows "0 \<le> plan_owed p"
proof (cases "pp_installments p = []")
  case False
  with assms have s: "schedule_ok p" by (simp add: plan_ok_def)
  then have "sum_list (map in_paidMinor (pp_installments p)) \<le> sum_list (map in_amountMinor (pp_installments p))"
    unfolding schedule_ok_def by (intro sum_list_mono) blast
  with s show ?thesis by (simp add: plan_owed_def schedule_ok_def)
qed (use assms in \<open>simp add: plan_owed_def plan_ok_def\<close>)

lemma plan_pay_step_draw:
  assumes "plan_ok p" and "plan_pay_step p c = Inr p'"
  shows "plan_ok p' \<and> plan_owed p' = plan_owed p - pay_amount c \<and> 0 < pay_amount c"
proof -
  obtain no amt clk where c: "c = (no, amt, clk)" by (cases c)
  with assms(2) obtain evs where r: "recordPlanPayment p no amt clk = Inr (p', evs)"
    by (auto simp: plan_pay_step_def result_simps)
  have "pp_totalMinor p' = pp_totalMinor p"
    using recordPlanPayment_Inr[OF r] by (metis plan_after_payment_total)
  with recordPlanPayment_ok[OF assms(1) r] show ?thesis
    by (auto simp: c plan_owed_def pay_amount_def)
qed

interpretation plan_pool: funds_pool plan_pay_step plan_ok "\<lambda>_. True" plan_owed pay_amount
  by unfold_locales (simp_all add: plan_pay_step_draw plan_owed_nonneg)

section \<open>Properties\<close>

text \<open>
  A plan splits its total to the cent: an active plan of at most 9007199 installments always
  gets a schedule, with one installment per month numbered from 1, each of the floor share of
  the total, the first \<open>total mod n\<close> of them one minor unit more; they add up to the
  total and every one is positive.
\<close>

theorem plan_schedule_exact:
  assumes "createPaymentPlan args clk = Inr p" and "pp_installmentCount p \<le> 9007199"
  shows "\<exists>p'. buildSchedule p start = Inr p' \<and>
    map in_amountMinor (pp_installments p') =
      map (\<lambda>i. pp_totalMinor p div pp_installmentCount p +
        (if int i < pp_totalMinor p mod pp_installmentCount p then 1 else 0)) [0..<nat (pp_installmentCount p)] \<and>
    sum_list (map in_amountMinor (pp_installments p')) = pp_totalMinor p \<and>
    (\<forall>inst \<in> set (pp_installments p'). 0 < in_amountMinor inst) \<and>
    map (\<lambda>inst. (in_no inst, in_dueDate inst)) (pp_installments p') =
      map (\<lambda>i. (int i + 1, dueDateFor start (int i + 1))) [0..<nat (pp_installmentCount p)]"
proof -
  note c = createPaymentPlan_Inr[OF assms(1)]
  note ok = createPaymentPlan_ok[OF assms]
  obtain p' where p': "buildSchedule p start = Inr p'"
    and insts: "pp_installments p' = map (\<lambda>i. \<lparr>in_no = int i + 1, in_dueDate = dueDateFor start (int i + 1),
     in_amountMinor = pp_totalMinor p div pp_installmentCount p +
       (if int i < pp_totalMinor p mod pp_installmentCount p then 1 else 0),
     in_paidMinor = 0, in_paidAt = None\<rparr>) [0..<nat (pp_installmentCount p)]"
    and tot: "pp_totalMinor p' = pp_totalMinor p"
    using buildSchedule_exact[OF ok, of start] c by simp
  have "pp_installments p' \<noteq> []" using c by (simp add: insts)
  with buildSchedule_ok[OF ok p'] have "schedule_ok p'" by (simp add: plan_ok_def)
  then show ?thesis
    using p' tot by (intro exI[of _ p'] conjI) (simp_all add: schedule_ok_def, simp_all add: insts o_def)
qed

definition sample_plan_args :: plan_args where
  "sample_plan_args = \<lparr>pa_id = ''p1'', pa_customerId = ''c1'', pa_receivableIds = [''r1''], pa_currency = KES,
     pa_totalMinor = BigIntIn 100, pa_installmentCount = Fin 3\<rparr>"

lemma sample_plan: "\<exists>p. createPaymentPlan sample_plan_args (\<lambda>_. 0) = Inr p \<and> pp_installmentCount p = 3 \<and> pp_totalMinor p = 100"
  by (simp add: createPaymentPlan_def sample_plan_args_def max_safe_integer_def)

theorem plan_schedule_exact_witness:
  "\<exists>p p'. createPaymentPlan sample_plan_args (\<lambda>_. 0) = Inr p \<and> buildSchedule p 0 = Inr p' \<and>
     map in_amountMinor (pp_installments p') = [34, 33, 33]"
proof -
  from sample_plan obtain p where p: "createPaymentPlan sample_plan_args (\<lambda>_. 0) = Inr p"
    "pp_installmentCount p = 3" "pp_totalMinor p = 100" by blast
  then have "pp_installmentCount p \<le> 9007199" by simp
  from plan_schedule_exact[OF p(1) this, of 0] p show ?thesis by (auto simp: upt_rec)
qed



text \<open>
  C13. The books of a plan: under any sequence of commands, accepted or refused, no installment
  is paid beyond its amount, what is paid on each is what the append-only log says, the log
  adds up to at most the total, and the plan is completed exactly when every installment is
  paid; once it has left the active state it never changes.
\<close>

theorem plan_books:
  assumes "createPaymentPlan args clk = Inr p0" and "pp_installmentCount p0 \<le> 9007199"
    and "p = drive plan_step p0 cmds"
  shows "(\<forall>inst \<in> set (pp_installments p). 0 \<le> in_paidMinor inst \<and> in_paidMinor inst \<le> in_amountMinor inst \<and>
      in_paidMinor inst = logged (pp_paymentLog p) (in_no inst)) \<and>
    sum_list (map pr_amountMinor (pp_paymentLog p)) \<le> pp_totalMinor p \<and>
    (pp_state p = P_Completed \<longleftrightarrow> pp_installments p \<noteq> [] \<and> list_all isFullyPaid (pp_installments p)) \<and>
    (pp_state p \<noteq> P_Active \<longrightarrow> drive plan_step p more_cmds = p)"
proof -
  have ok: "plan_ok p" unfolding assms(3)
    by (rule plan_machine.drive_inv) (simp_all add: createPaymentPlan_ok[OF assms(1,2)])
  have "sum_list (map pr_amountMinor (pp_paymentLog p)) \<le> pp_totalMinor p"
    using plan_owed_nonneg[OF ok] ok by (simp add: plan_owed_def plan_ok_def)
  moreover have "\<forall>inst \<in> set (pp_installments p). 0 \<le> in_paidMinor inst \<and> in_paidMinor inst \<le> in_amountMinor inst \<and>
      in_paidMinor inst = logged (pp_paymentLog p) (in_no inst)"
    using ok unfolding plan_ok_def schedule_ok_def by (cases "pp_installments p = []") auto
  moreover have "pp_state p = P_Completed \<longleftrightarrow> pp_installments p \<noteq> [] \<and> list_all isFullyPaid (pp_installments p)"
    using ok by (simp add: plan_ok_def)
  ultimately show ?thesis using plan_final.drive_terminal by blast
qed

theorem plan_books_witness:
  "\<exists>p0. createPaymentPlan sample_plan_args (\<lambda>_. 0) = Inr p0 \<and>
     sum_list (map pr_amountMinor (pp_paymentLog (drive plan_step p0 [BuildSchedule 0, RecordPayment (Fin 1) (BigIntIn 34) (\<lambda>_. 0)])))
       \<le> pp_totalMinor (drive plan_step p0 [BuildSchedule 0, RecordPayment (Fin 1) (BigIntIn 34) (\<lambda>_. 0)])"
proof -
  from sample_plan obtain p where p: "createPaymentPlan sample_plan_args (\<lambda>_. 0) = Inr p"
    "pp_installmentCount p = 3" by blast
  then have "pp_installmentCount p \<le> 9007199" by simp
  from plan_books[OF p(1) this refl, of "[BuildSchedule 0, RecordPayment (Fin 1) (BigIntIn 34) (\<lambda>_. 0)]"] p(1)
  show ?thesis by blast
qed

text \<open>
  Every cent paid reduces what the plan owes: over any sequence of payments the accepted
  amounts and what is still owed add up to what was owed at the start.
\<close>

theorem plan_payments_conserve:
  assumes "plan_ok p"
  shows "plan_owed (drive plan_pay_step p payments) + sum_list (map pay_amount (accepted plan_pay_step p payments)) = plan_owed p
    \<and> 0 \<le> plan_owed (drive plan_pay_step p payments)"
  using plan_pool.drive_conserves[OF assms, of payments] plan_owed_nonneg[OF plan_pool.drive_inv[OF assms, of payments]] by simp

theorem plan_payments_conserve_witness:
  "\<exists>p. createPaymentPlan sample_plan_args (\<lambda>_. 0) = Inr p \<and>
     0 \<le> plan_owed (drive plan_pay_step p [(Fin 1, BigIntIn 34, \<lambda>_. 0)])"
proof -
  from sample_plan obtain p where p: "createPaymentPlan sample_plan_args (\<lambda>_. 0) = Inr p"
    "pp_installmentCount p = 3" by blast
  then have "plan_ok p" by (intro createPaymentPlan_ok) simp_all
  from plan_payments_conserve[OF this, of "[(Fin 1, BigIntIn 34, \<lambda>_. 0)]"] p(1) show ?thesis by blast
qed

end
