(* ===== verification/Formats.thy ===== *)
theory Formats
  imports Js_Date
begin

text \<open>
  The two text formats the event envelope, the FX kernel and the ledger validate with the same
  regular expressions: canonical UUIDs and ISO-8601 instants. A fixed-length part of a pattern is
  a list of character classes.
\<close>

definition is_hex :: "char \<Rightarrow> bool" where
  "is_hex c \<longleftrightarrow> (let n = (of_char c :: nat) in (48 \<le> n \<and> n \<le> 57) \<or> (97 \<le> n \<and> n \<le> 102) \<or> (65 \<le> n \<and> n \<le> 70))"

definition fits :: "(char \<Rightarrow> bool) list \<Rightarrow> string \<Rightarrow> bool" where
  "fits classes s \<longleftrightarrow> list_all2 (\<lambda>p c. p c) classes s"

definition dash :: "char \<Rightarrow> bool" where "dash c \<longleftrightarrow> c = CHR ''-''"
definition colon :: "char \<Rightarrow> bool" where "colon c \<longleftrightarrow> c = CHR '':''"

definition UUID_PATTERN :: "string \<Rightarrow> bool" where
  "UUID_PATTERN s \<longleftrightarrow> fits (replicate 8 is_hex @ dash # replicate 4 is_hex @ dash # replicate 4 is_hex @ dash #
     replicate 4 is_hex @ dash # replicate 12 is_hex) s"

definition iso_head :: "(char \<Rightarrow> bool) list" where
  "iso_head = replicate 4 is_digit @ dash # replicate 2 is_digit @ dash # replicate 2 is_digit @
     (\<lambda>c. c = CHR ''T'') # replicate 2 is_digit @ colon # replicate 2 is_digit @ colon # replicate 2 is_digit"

definition iso_zone :: "string \<Rightarrow> bool" where
  "iso_zone z \<longleftrightarrow> z = ''Z'' \<or>
     fits ((\<lambda>c. c = CHR ''+'' \<or> c = CHR ''-'') # replicate 2 is_digit @ colon # replicate 2 is_digit) z"

definition iso_tail :: "string \<Rightarrow> bool" where
  "iso_tail r \<longleftrightarrow> iso_zone r \<or>
     list_ex (\<lambda>k. fits ((\<lambda>c. c = CHR ''.'') # replicate k is_digit) (take (k + 1) r) \<and> iso_zone (drop (k + 1) r)) [1, 2, 3]"

text \<open>\<open>^\d{4}-\d{2}-\d{2}T\d{2}:\d{2}:\d{2}(?:\.\d{1,3})?(?:Z|[+-]\d{2}:\d{2})$\<close>\<close>

definition ISO_PATTERN :: "string \<Rightarrow> bool" where
  "ISO_PATTERN s \<longleftrightarrow> fits iso_head (take 19 s) \<and> iso_tail (drop 19 s)"

text \<open>
  \<open>new Date(s)\<close> on a text of that shape is a valid date when every field is inside its range
  in the date-time format of the language: month 1 to 12, day 1 to 31, hour to 23 (or 24:00:00),
  minutes and seconds to 59, and likewise for the offset.
\<close>

definition field :: "string \<Rightarrow> nat \<Rightarrow> nat" where
  "field s i = nat_of_digits (take 2 (drop i s))"

definition clock_fields :: "nat \<Rightarrow> nat \<Rightarrow> nat \<Rightarrow> bool" where
  "clock_fields h m sec \<longleftrightarrow> h \<le> 23 \<and> m \<le> 59 \<and> sec \<le> 59 \<or> h = 24 \<and> m = 0 \<and> sec = 0"

definition valid_date :: "string \<Rightarrow> bool" where
  "valid_date s \<longleftrightarrow> 1 \<le> field s 5 \<and> field s 5 \<le> 12 \<and> 1 \<le> field s 8 \<and> field s 8 \<le> 31 \<and>
     clock_fields (field s 11) (field s 14) (field s 17) \<and>
     (last s = CHR ''Z'' \<or> field s (length s - 5) \<le> 23 \<and> field s (length s - 2) \<le> 59)"

lemma UUID_PATTERN_length: "UUID_PATTERN s \<Longrightarrow> length s = 36"
  by (auto simp: UUID_PATTERN_def fits_def dest: list_all2_lengthD)

end
