(* ===== verification/Fx.thy ===== *)
theory Fx
  imports Money Formats
begin

text \<open>
  The FX kernel (\<open>src/src/domain/shared/fx.ts\<close>): validated rate snapshots, exact rational
  conversion of minor units with one banker's rounding, the gate every cross-currency
  settlement passes, and realized gain and loss.
\<close>

section \<open>Snapshots\<close>

datatype fx_direction = Base_To_Quote | Quote_To_Base

text \<open>A \<open>Date\<close> argument may be an invalid one.\<close>

datatype observed_at = DateIn "date option" | TextIn string

record fx_snapshot_input =
  fi_orgId :: uuid
  fi_baseCurrency :: currency
  fi_quoteCurrency :: currency
  fi_numerator :: money_input
  fi_denominator :: money_input
  fi_scaleBase :: "js_num option"
  fi_scaleQuote :: "js_num option"
  fi_source :: string
  fi_observedAt :: observed_at
  fi_snapshotId :: uuid

record fx_snapshot =
  fx_snapshotId :: uuid
  fx_orgId :: uuid
  fx_baseCurrency :: currency
  fx_quoteCurrency :: currency
  fx_numerator :: int
  fx_denominator :: int
  fx_scaleBase :: int
  fx_scaleQuote :: int
  fx_source :: string
  fx_observedAt :: string

definition fx_assertUuidShape :: "uuid \<Rightarrow> unit result" where
  "fx_assertUuidShape value = (if \<not> UUID_PATTERN value then throw ''FX_ID_MALFORMED'' else Inr ())"

definition fx_isCurrency :: "currency \<Rightarrow> bool" where
  "fx_isCurrency c \<longleftrightarrow> c \<in> set CURRENCIES"

fun DEFAULT_MINOR_SCALE :: "currency \<Rightarrow> js_num" where
  "DEFAULT_MINOR_SCALE UGX = Fin 0"
| "DEFAULT_MINOR_SCALE _ = Fin 2"

definition assertScale :: "js_num \<Rightarrow> int result" where
  "assertScale scale = (if \<not> is_safe_integer scale \<or> js_neg scale \<or> int_of_num scale > 8
     then throw ''FX_SCALE_INVALID'' else Inr (int_of_num scale))"

fun asBigint :: "money_input \<Rightarrow> string \<Rightarrow> int result" where
  "asBigint (NumberIn x) code =
     (if \<not> is_safe_integer x \<or> js_nonpos x then throw code
      else and_then (bigint_of x) (\<lambda>v. if v \<le> 0 then throw code else Inr v))"
| "asBigint (BigIntIn v) code = (if v \<le> 0 then throw code else Inr v)"

fun normalizeObservedAt :: "observed_at \<Rightarrow> string result" where
  "normalizeObservedAt (DateIn None) = throw ''FX_OBSERVED_AT_INVALID''"
| "normalizeObservedAt (DateIn (Some d)) = Inr (toISOString d)"
| "normalizeObservedAt (TextIn s) = (if ISO_PATTERN s \<and> valid_date s then Inr s else throw ''FX_OBSERVED_AT_INVALID'')"

definition fxRateSnapshot :: "fx_snapshot_input \<Rightarrow> fx_snapshot result" where
  "fxRateSnapshot inp =
     and_then (fx_assertUuidShape (fi_snapshotId inp)) (\<lambda>_.
     and_then (fx_assertUuidShape (fi_orgId inp)) (\<lambda>_.
       if \<not> fx_isCurrency (fi_baseCurrency inp) \<or> \<not> fx_isCurrency (fi_quoteCurrency inp) then throw ''FX_CURRENCY_UNSUPPORTED''
       else if fi_baseCurrency inp = fi_quoteCurrency inp then throw ''FX_SAME_CURRENCY''
       else and_then (asBigint (fi_numerator inp) ''FX_RATE_NOT_POSITIVE'') (\<lambda>numerator.
         and_then (asBigint (fi_denominator inp) ''FX_RATE_NOT_POSITIVE'') (\<lambda>denominator.
         and_then (assertScale (case fi_scaleBase inp of Some s \<Rightarrow> s | None \<Rightarrow> DEFAULT_MINOR_SCALE (fi_baseCurrency inp))) (\<lambda>scaleBase.
         and_then (assertScale (case fi_scaleQuote inp of Some s \<Rightarrow> s | None \<Rightarrow> DEFAULT_MINOR_SCALE (fi_quoteCurrency inp))) (\<lambda>scaleQuote.
           let source = trim (fi_source inp) in
           if source = [] then throw ''FX_SOURCE_REQUIRED''
           else and_then (normalizeObservedAt (fi_observedAt inp)) (\<lambda>observedAt.
             Inr \<lparr>fx_snapshotId = fi_snapshotId inp, fx_orgId = fi_orgId inp, fx_baseCurrency = fi_baseCurrency inp,
               fx_quoteCurrency = fi_quoteCurrency inp, fx_numerator = numerator, fx_denominator = denominator,
               fx_scaleBase = scaleBase, fx_scaleQuote = scaleQuote, fx_source = source, fx_observedAt = observedAt\<rparr>)))))))"

definition rateRatio :: "fx_snapshot \<Rightarrow> string" where
  "rateRatio s = int_to_string (fx_numerator s) @ ''/'' @ int_to_string (fx_denominator s)"

section \<open>Conversion\<close>

record fx_applied_rate =
  ap_snapshotId :: uuid
  ap_source :: string
  ap_observedAt :: string
  ap_baseCurrency :: currency
  ap_quoteCurrency :: currency
  ap_numerator :: int
  ap_denominator :: int
  ap_scaleBase :: int
  ap_scaleQuote :: int
  ap_appliedNumerator :: int
  ap_appliedDenominator :: int

record fx_conversion =
  fc_from :: currency
  fc_to :: currency
  fc_direction :: fx_direction
  fc_inputAmountMinor :: int
  fc_amountMinor :: int
  fc_rate :: fx_applied_rate

definition pow10 :: "int \<Rightarrow> int" where
  "pow10 n = 10 ^ nat n"

definition divideBankers :: "int \<Rightarrow> int \<Rightarrow> int" where
  "divideBankers p q =
     (let whole = bdiv p q; remainder = bmod p q; twice = remainder * 2 in
      if twice > q then whole + 1
      else if twice < q then whole
      else if bmod whole 2 = 0 then whole else whole + 1)"

fun toMinorUnits :: "money_input \<Rightarrow> int result" where
  "toMinorUnits (NumberIn x) =
     (if \<not> is_safe_integer x then throw ''MONEY_NOT_INTEGER''
      else and_then (bigint_of x) (\<lambda>v. if v < 0 then throw ''MONEY_NEGATIVE'' else Inr v))"
| "toMinorUnits (BigIntIn v) = (if v < 0 then throw ''MONEY_NEGATIVE'' else Inr v)"

definition appliedRatio :: "fx_snapshot \<Rightarrow> fx_direction \<Rightarrow> int \<times> int" where
  "appliedRatio s direction =
     (let (num0, den0) = (if direction = Base_To_Quote then (fx_numerator s, fx_denominator s) else (fx_denominator s, fx_numerator s));
          scaleGap = (if direction = Base_To_Quote then fx_scaleQuote s - fx_scaleBase s else fx_scaleBase s - fx_scaleQuote s)
      in if scaleGap \<ge> 0 then (num0 * pow10 scaleGap, den0) else (num0, den0 * pow10 (- scaleGap)))"

definition convert :: "money_input \<Rightarrow> currency \<Rightarrow> currency \<Rightarrow> fx_snapshot option \<Rightarrow> fx_direction \<Rightarrow> fx_conversion result" where
  "convert amountMinor src dst snapshot direction =
     and_then (toMinorUnits amountMinor) (\<lambda>amount.
       if src = dst then throw ''FX_SAME_CURRENCY''
       else case snapshot of None \<Rightarrow> throw ''FX_SNAPSHOT_REQUIRED''
         | Some s \<Rightarrow>
           let baseToQuote = (src = fx_baseCurrency s \<and> dst = fx_quoteCurrency s);
               quoteToBase = (src = fx_quoteCurrency s \<and> dst = fx_baseCurrency s) in
           if \<not> baseToQuote \<and> \<not> quoteToBase then throw ''FX_SNAPSHOT_PAIR_MISMATCH''
           else if direction \<noteq> (if baseToQuote then Base_To_Quote else Quote_To_Base) then throw ''FX_DIRECTION_MISMATCH''
           else let (num, den) = appliedRatio s direction in
             Inr \<lparr>fc_from = src, fc_to = dst, fc_direction = direction, fc_inputAmountMinor = amount,
               fc_amountMinor = divideBankers (amount * num) den,
               fc_rate = \<lparr>ap_snapshotId = fx_snapshotId s, ap_source = fx_source s, ap_observedAt = fx_observedAt s,
                 ap_baseCurrency = fx_baseCurrency s, ap_quoteCurrency = fx_quoteCurrency s, ap_numerator = fx_numerator s,
                 ap_denominator = fx_denominator s, ap_scaleBase = fx_scaleBase s, ap_scaleQuote = fx_scaleQuote s,
                 ap_appliedNumerator = num, ap_appliedDenominator = den\<rparr>\<rparr>)"

definition requireFxSnapshot :: "currency \<Rightarrow> currency \<Rightarrow> fx_snapshot option \<Rightarrow> fx_snapshot result" where
  "requireFxSnapshot src dst snapshot =
     (if src = dst then throw ''FX_SAME_CURRENCY''
      else case snapshot of None \<Rightarrow> throw ''FX_SNAPSHOT_REQUIRED''
        | Some s \<Rightarrow>
          if \<not> (fx_baseCurrency s = src \<and> fx_quoteCurrency s = dst \<or> fx_baseCurrency s = dst \<and> fx_quoteCurrency s = src)
          then throw ''FX_SNAPSHOT_PAIR_MISMATCH'' else Inr s)"

section \<open>Realized gain and loss\<close>

datatype gain_loss_direction = Gain | Loss

record realized_gain_loss =
  gl_direction :: gain_loss_direction
  gl_amountMinor :: int
  gl_currency :: currency

record fx_gain_loss_payload =
  gp_receivableId :: uuid
  gp_paymentId :: "uuid option"
  gp_direction :: gain_loss_direction
  gp_amountMinor :: int
  gp_carryingAmountMinor :: int
  gp_settlementConvertedMinor :: int
  gp_settlementAmountMinor :: int
  gp_receivableCurrency :: currency
  gp_settlementCurrency :: currency
  gp_snapshotId :: uuid

type_synonym fx_gain_loss_event = "(fx_gain_loss_payload, string) domain_event"

record fx_settlement_input =
  fs_receivableId :: uuid
  fs_paymentId :: "uuid option"
  fs_carryingAmountMinor :: money_input
  fs_receivableCurrency :: currency
  fs_settlementAmountMinor :: money_input
  fs_settlementCurrency :: currency
  fs_snapshot :: "fx_snapshot option"
  fs_aggregateId :: "uuid option"

record fx_settlement_posting =
  fp_receivableId :: uuid
  fp_carryingAmountMinor :: int
  fp_settlementAmountMinor :: int
  fp_settlementConvertedMinor :: int
  fp_receivableCurrency :: currency
  fp_settlementCurrency :: currency
  fp_conversion :: fx_conversion
  fp_realizedGainLoss :: "realized_gain_loss option"
  fp_event :: "fx_gain_loss_event option"

definition optional_uuid :: "uuid option \<Rightarrow> unit result" where
  "optional_uuid u = (case u of None \<Rightarrow> Inr () | Some i \<Rightarrow> fx_assertUuidShape i)"

definition gain_loss_of :: "int \<Rightarrow> int \<Rightarrow> currency \<Rightarrow> realized_gain_loss" where
  "gain_loss_of converted carrying c =
     \<lparr>gl_direction = (if converted > carrying then Gain else Loss),
      gl_amountMinor = (if converted > carrying then converted - carrying else carrying - converted), gl_currency = c\<rparr>"

definition postRealizedGainLoss :: "fx_settlement_input \<Rightarrow> clock \<Rightarrow> fx_settlement_posting result" where
  "postRealizedGainLoss inp clk =
     and_then (fx_assertUuidShape (fs_receivableId inp)) (\<lambda>_.
     and_then (optional_uuid (fs_paymentId inp)) (\<lambda>_.
     and_then (optional_uuid (fs_aggregateId inp)) (\<lambda>_.
     and_then (toMinorUnits (fs_carryingAmountMinor inp)) (\<lambda>carrying.
     and_then (toMinorUnits (fs_settlementAmountMinor inp)) (\<lambda>settlement.
       let rc = fs_receivableCurrency inp; sc = fs_settlementCurrency inp in
       if rc = sc then throw ''FX_SAME_CURRENCY''
       else and_then (requireFxSnapshot sc rc (fs_snapshot inp)) (\<lambda>authoritative.
         and_then (convert (BigIntIn settlement) sc rc (Some authoritative)
             (if fx_baseCurrency authoritative = sc then Base_To_Quote else Quote_To_Base)) (\<lambda>conversion.
           let converted = fc_amountMinor conversion;
               gainLoss = gain_loss_of converted carrying rc in
           Inr \<lparr>fp_receivableId = fs_receivableId inp, fp_carryingAmountMinor = carrying, fp_settlementAmountMinor = settlement,
             fp_settlementConvertedMinor = converted, fp_receivableCurrency = rc, fp_settlementCurrency = sc,
             fp_conversion = conversion,
             fp_realizedGainLoss = (if converted = carrying then None else Some gainLoss),
             fp_event = (if converted = carrying then None else Some
               \<lparr>ev_name = ''fx.realizedGainLossPosted'', ev_version = 1,
                ev_aggregateId = (case fs_aggregateId inp of Some a \<Rightarrow> a | None \<Rightarrow> fs_receivableId inp),
                ev_payload = \<lparr>gp_receivableId = fs_receivableId inp, gp_paymentId = fs_paymentId inp,
                  gp_direction = gl_direction gainLoss, gp_amountMinor = gl_amountMinor gainLoss,
                  gp_carryingAmountMinor = carrying, gp_settlementConvertedMinor = converted,
                  gp_settlementAmountMinor = settlement, gp_receivableCurrency = rc, gp_settlementCurrency = sc,
                  gp_snapshotId = fx_snapshotId authoritative\<rparr>,
                ev_occurredAt = toISOString (clk 0)\<rparr>)\<rparr>)))))))"

section \<open>Banker's rounding\<close>

lemma divideBankers_split:
  assumes "0 \<le> p" and "0 < q"
  shows "divideBankers p q = (let w = p div q; r = p mod q in
    if 2 * r > q then w + 1 else if 2 * r < q then w else if even w then w else w + 1)"
proof -
  have w: "0 \<le> p div q" using assms by (simp add: pos_imp_zdiv_nonneg_iff)
  then have "bmod (p div q) 2 = 0 \<longleftrightarrow> even (p div q)" by (simp add: even_iff_mod_2_eq_zero)
  then show ?thesis using assms by (simp add: divideBankers_def Let_def mult.commute)
qed

text \<open>The result is a nearest integer, and the even one when two are nearest.\<close>

lemma divideBankers_nearest:
  assumes "0 \<le> p" and "0 < q"
  shows "2 * \<bar>divideBankers p q * q - p\<bar> \<le> q"
    and "2 * \<bar>divideBankers p q * q - p\<bar> = q \<Longrightarrow> even (divideBankers p q)"
proof -
  define w r where "w = p div q" and "r = p mod q"
  have p: "p = w * q + r" "0 \<le> r" "r < q" using assms by (simp_all add: w_def r_def)
  have d: "divideBankers p q = (if 2 * r > q then w + 1 else if 2 * r < q then w else if even w then w else w + 1)"
    using divideBankers_split[OF assms] by (simp add: Let_def w_def r_def)
  have up: "(w + 1) * q - p = q - r" and down: "w * q - p = - r" using p by (simp_all add: distrib_right)
  have "divideBankers p q = w + 1 \<and> q \<le> 2 * r \<and> (2 * r = q \<longrightarrow> odd w) \<or>
    divideBankers p q = w \<and> 2 * r \<le> q \<and> (2 * r = q \<longrightarrow> even w)"
    unfolding d by (cases "q < 2 * r"; cases "2 * r < q"; cases "even w") simp_all
  then consider (up) "divideBankers p q = w + 1" "q \<le> 2 * r" "2 * r = q \<longrightarrow> odd w"
    | (down) "divideBankers p q = w" "2 * r \<le> q" "2 * r = q \<longrightarrow> even w" by blast
  then have "2 * \<bar>divideBankers p q * q - p\<bar> \<le> q \<and> (2 * \<bar>divideBankers p q * q - p\<bar> = q \<longrightarrow> even (divideBankers p q))"
  proof cases
    case up
    have "\<bar>q - r\<bar> = q - r" using p by simp
    then show ?thesis using up \<open>(w + 1) * q - p = q - r\<close> by auto
  next
    case down
    have "\<bar>- r\<bar> = r" using p by simp
    then show ?thesis using down \<open>w * q - p = - r\<close> by simp
  qed
  then show "2 * \<bar>divideBankers p q * q - p\<bar> \<le> q"
    "2 * \<bar>divideBankers p q * q - p\<bar> = q \<Longrightarrow> even (divideBankers p q)" by simp_all
qed

lemma nearest_unique:
  fixes x y p q :: int
  assumes "0 < q" and "2 * \<bar>x * q - p\<bar> \<le> q" and "2 * \<bar>y * q - p\<bar> < q"
  shows "x = y"
proof -
  define a b where "a = x * q - p" and "b = y * q - p"
  have "a - b = (x - y) * q" by (simp add: a_def b_def left_diff_distrib)
  then have "\<bar>a - b\<bar> = \<bar>x - y\<bar> * q" using assms(1) by (simp add: abs_mult)
  moreover have "\<bar>a - b\<bar> < q" using assms(2,3) unfolding a_def[symmetric] b_def[symmetric] by linarith
  ultimately have "\<bar>x - y\<bar> * q < 1 * q" by simp
  then have "\<bar>x - y\<bar> < 1" using assms(1) by (simp only: mult_less_cancel_right_pos)
  then show ?thesis by simp
qed

section \<open>Ratios\<close>

definition snapshot_ok :: "fx_snapshot \<Rightarrow> bool" where
  "snapshot_ok s \<longleftrightarrow> 0 < fx_numerator s \<and> 0 < fx_denominator s \<and> 0 \<le> fx_scaleBase s \<and> 0 \<le> fx_scaleQuote s \<and>
     fx_baseCurrency s \<noteq> fx_quoteCurrency s"

lemma asBigint_pos: "asBigint v code = Inr n \<Longrightarrow> 0 < n"
  by (cases v) (auto simp: result_simps not_le split: if_splits)

lemma assertScale_nonneg:
  assumes "assertScale x = Inr n"
  shows "0 \<le> n"
proof (cases x)
  case (Fin a)
  with assms show ?thesis by (auto simp: assertScale_def split: if_splits)
qed (use assms in \<open>auto simp: assertScale_def split: if_splits\<close>)

lemma fxRateSnapshot_ok: "fxRateSnapshot inp = Inr s \<Longrightarrow> snapshot_ok s"
  by (auto simp: fxRateSnapshot_def snapshot_ok_def result_simps Let_def dest: asBigint_pos assertScale_nonneg)

lemma pow10_pos [simp]: "0 < pow10 n" "pow10 0 = 1"
  by (simp_all add: pow10_def)

lemma appliedRatio_pos:
  assumes "snapshot_ok s" and "appliedRatio s d = (num, den)"
  shows "0 < num" and "0 < den"
  using assms by (auto simp: appliedRatio_def snapshot_ok_def Let_def split: if_splits)

lemma appliedRatio_inverse: "appliedRatio s Quote_To_Base = prod.swap (appliedRatio s Base_To_Quote)"
proof (cases "fx_scaleQuote s = fx_scaleBase s")
  case False
  then show ?thesis by (simp add: appliedRatio_def Let_def)
qed (simp add: appliedRatio_def)

text \<open>The applied ratio is the quoted rate with the scale gap folded in.\<close>

lemma appliedRatio_rate:
  assumes "snapshot_ok s" and "appliedRatio s Base_To_Quote = (num, den)"
  shows "num * (fx_denominator s * pow10 (fx_scaleBase s)) = den * (fx_numerator s * pow10 (fx_scaleQuote s))"
proof -
  have split: "pow10 a = pow10 (a - b) * pow10 b" if "0 \<le> b" "b \<le> a" for a b
    using that by (simp add: pow10_def nat_diff_distrib flip: power_add)
  show ?thesis
  proof (cases "fx_scaleBase s \<le> fx_scaleQuote s")
    case True
    with assms split[of "fx_scaleBase s" "fx_scaleQuote s"] show ?thesis
      by (auto simp: appliedRatio_def snapshot_ok_def algebra_simps)
  next
    case False
    with assms split[of "fx_scaleQuote s" "fx_scaleBase s"] show ?thesis
      by (auto simp: appliedRatio_def snapshot_ok_def algebra_simps)
  qed
qed

lemma toMinorUnits_nonneg: "toMinorUnits v = Inr n \<Longrightarrow> 0 \<le> n"
  by (cases v) (auto simp: result_simps split: if_splits)

lemma convert_Inr:
  assumes "convert v src dst snap dir = Inr c"
  obtains s amount num den where "toMinorUnits v = Inr amount" and "src \<noteq> dst" and "snap = Some s"
    and "if src = fx_baseCurrency s \<and> dst = fx_quoteCurrency s then dir = Base_To_Quote
      else src = fx_quoteCurrency s \<and> dst = fx_baseCurrency s \<and> dir = Quote_To_Base"
    and "appliedRatio s dir = (num, den)" and "fc_inputAmountMinor c = amount"
    and "fc_amountMinor c = divideBankers (amount * num) den" and "ap_snapshotId (fc_rate c) = fx_snapshotId s"
proof -
  from assms obtain amount s where a: "toMinorUnits v = Inr amount" "src \<noteq> dst" "snap = Some s"
    by (auto simp: convert_def result_simps split: option.splits)
  obtain num den where r: "appliedRatio s dir = (num, den)" by (cases "appliedRatio s dir")
  from assms a r show thesis
    by (intro that[OF a _ r]) (auto simp: convert_def Let_def result_simps split: if_splits)
qed

section \<open>Properties\<close>

lemma nearest_rat:
  fixes p q r :: int
  assumes "0 < q"
  shows "2 * \<bar>r * q - p\<bar> \<le> q \<longleftrightarrow> \<bar>of_int r - of_int p / of_int q :: rat\<bar> \<le> 1 / 2"
    and "2 * \<bar>r * q - p\<bar> = q \<longleftrightarrow> \<bar>of_int r - of_int p / of_int q :: rat\<bar> = 1 / 2"
proof -
  have q: "(0::rat) < of_int q" using assms by simp
  have "of_int r - of_int p / of_int q = (of_int (r * q - p) / of_int q :: rat)"
    using q by (simp add: diff_divide_distrib)
  then have "\<bar>of_int r - of_int p / of_int q :: rat\<bar> = of_int \<bar>r * q - p\<bar> / of_int q"
    using q by (simp add: abs_divide)
  moreover have "of_int \<bar>r * q - p\<bar> / of_int q \<le> (1 / 2 :: rat) \<longleftrightarrow> of_int (2 * \<bar>r * q - p\<bar>) \<le> (of_int q :: rat)"
    "of_int \<bar>r * q - p\<bar> / of_int q = (1 / 2 :: rat) \<longleftrightarrow> of_int (2 * \<bar>r * q - p\<bar>) = (of_int q :: rat)"
    using q by (auto simp: field_simps)
  ultimately show "2 * \<bar>r * q - p\<bar> \<le> q \<longleftrightarrow> \<bar>of_int r - of_int p / of_int q :: rat\<bar> \<le> 1 / 2"
    "2 * \<bar>r * q - p\<bar> = q \<longleftrightarrow> \<bar>of_int r - of_int p / of_int q :: rat\<bar> = 1 / 2"
    by (simp_all only: of_int_le_iff of_int_eq_iff)
qed

text \<open>The exact value of an amount in the other currency, in minor units.\<close>

definition exact_value :: "fx_snapshot \<Rightarrow> fx_direction \<Rightarrow> int \<Rightarrow> rat" where
  "exact_value s dir amount =
     (let rate = of_int (fx_numerator s) / of_int (fx_denominator s) * (10 ^ nat (fx_scaleQuote s) / 10 ^ nat (fx_scaleBase s))
      in if dir = Base_To_Quote then of_int amount * rate else of_int amount / rate)"

lemma exact_value_ratio:
  assumes "snapshot_ok s" and "appliedRatio s dir = (num, den)"
  shows "exact_value s dir amount = of_int (amount * num) / of_int den"
proof -
  obtain n d where nd: "appliedRatio s Base_To_Quote = (n, d)" by (cases "appliedRatio s Base_To_Quote")
  note pos = appliedRatio_pos[OF assms(1) nd]
  have "(of_int (n * (fx_denominator s * pow10 (fx_scaleBase s))) :: rat) = of_int (d * (fx_numerator s * pow10 (fx_scaleQuote s)))"
    by (simp only: appliedRatio_rate[OF assms(1) nd])
  then have rate: "of_int (fx_numerator s) / of_int (fx_denominator s) * (10 ^ nat (fx_scaleQuote s) / 10 ^ nat (fx_scaleBase s)) =
    (of_int n / of_int d :: rat)"
    using assms(1) pos by (simp add: pow10_def snapshot_ok_def field_simps)
  show ?thesis
  proof (cases dir)
    case Base_To_Quote
    then show ?thesis using assms(2) nd rate by (simp add: exact_value_def)
  next
    case Quote_To_Base
    then show ?thesis using assms(2) nd rate appliedRatio_inverse[of s] by (simp add: exact_value_def)
  qed
qed

text \<open>
  C15. Conversion rounds once, to the nearest: a conversion under a validated snapshot returns an
  integer within one half of the exact rational value of the amount at the quoted rate and
  scales, the even one when the value lies halfway, and names the snapshot it applied.
\<close>

theorem convert_rounds_once:
  assumes "fxRateSnapshot inp = Inr s" and "convert v src dst (Some s) dir = Inr c"
  shows "let x = exact_value s dir (fc_inputAmountMinor c) in
    \<bar>of_int (fc_amountMinor c) - x\<bar> \<le> 1 / 2 \<and>
    (\<bar>of_int (fc_amountMinor c) - x\<bar> = 1 / 2 \<longrightarrow> even (fc_amountMinor c)) \<and>
    ap_snapshotId (fc_rate c) = fi_snapshotId inp"
proof -
  note ok = fxRateSnapshot_ok[OF assms(1)]
  from convert_Inr[OF assms(2)] obtain amount num den where a: "toMinorUnits v = Inr amount"
    "appliedRatio s dir = (num, den)" "fc_inputAmountMinor c = amount" "fc_amountMinor c = divideBankers (amount * num) den"
    "ap_snapshotId (fc_rate c) = fx_snapshotId s" by (metis option.inject)
  note pos = appliedRatio_pos[OF ok a(2)]
  have nn: "0 \<le> amount * num" using toMinorUnits_nonneg[OF a(1)] pos by simp
  have "fx_snapshotId s = fi_snapshotId inp" using assms(1) by (auto simp: fxRateSnapshot_def result_simps Let_def)
  then show ?thesis
    using divideBankers_nearest[OF nn pos(2)] nearest_rat[OF pos(2), of "fc_amountMinor c" "amount * num"] a
      exact_value_ratio[OF ok a(2), of amount] by (simp add: Let_def)
qed

definition sample_rate_input :: fx_snapshot_input where
  "sample_rate_input = \<lparr>fi_orgId = ''00000000-0000-0000-0000-000000000001'', fi_baseCurrency = USD, fi_quoteCurrency = KES,
     fi_numerator = BigIntIn 129754, fi_denominator = BigIntIn 1000, fi_scaleBase = None, fi_scaleQuote = None,
     fi_source = ''CBK'', fi_observedAt = DateIn (Some 0), fi_snapshotId = ''00000000-0000-0000-0000-000000000002''\<rparr>"

definition sample_rate :: fx_snapshot where
  "sample_rate = \<lparr>fx_snapshotId = ''00000000-0000-0000-0000-000000000002'', fx_orgId = ''00000000-0000-0000-0000-000000000001'',
     fx_baseCurrency = USD, fx_quoteCurrency = KES, fx_numerator = 129754, fx_denominator = 1000, fx_scaleBase = 2,
     fx_scaleQuote = 2, fx_source = ''CBK'', fx_observedAt = toISOString 0\<rparr>"

lemma sample_rate_built: "fxRateSnapshot sample_rate_input = Inr sample_rate"
proof -
  have "UUID_PATTERN ''00000000-0000-0000-0000-000000000001''" "UUID_PATTERN ''00000000-0000-0000-0000-000000000002''"
    "trim ''CBK'' = ''CBK''" "fx_isCurrency USD" "fx_isCurrency KES" by code_simp+
  then show ?thesis
    by (simp add: fxRateSnapshot_def sample_rate_input_def sample_rate_def fx_assertUuidShape_def assertScale_def
        max_safe_integer_def Let_def)
qed

lemma sample_conversion:
  "\<exists>c. convert (BigIntIn 100) USD KES (Some sample_rate) Base_To_Quote = Inr c \<and> fc_amountMinor c = 12975 \<and> fc_inputAmountMinor c = 100"
  by (simp add: convert_def sample_rate_def appliedRatio_def divideBankers_def pow10_def Let_def)

theorem convert_rounds_once_witness:
  "\<exists>c. convert (BigIntIn 100) USD KES (Some sample_rate) Base_To_Quote = Inr c \<and>
     \<bar>of_int (fc_amountMinor c) - exact_value sample_rate Base_To_Quote 100\<bar> \<le> 1 / 2"
proof -
  from sample_conversion obtain c where c: "convert (BigIntIn 100) USD KES (Some sample_rate) Base_To_Quote = Inr c"
    "fc_inputAmountMinor c = 100" by blast
  from convert_rounds_once[OF sample_rate_built c(1)] c show ?thesis by (auto simp: Let_def)
qed

text \<open>
  Converting to the currency with the finer units and back is exact: when one minor unit of
  the base is worth at least one of the quote, the round trip through the quote returns the
  amount it started from.
\<close>

theorem convert_round_trip:
  assumes "snapshot_ok s" and "appliedRatio s Base_To_Quote = (num, den)" and "den \<le> num" and "0 \<le> amount"
  shows "\<exists>c c'. convert (BigIntIn amount) (fx_baseCurrency s) (fx_quoteCurrency s) (Some s) Base_To_Quote = Inr c \<and>
    convert (BigIntIn (fc_amountMinor c)) (fx_quoteCurrency s) (fx_baseCurrency s) (Some s) Quote_To_Base = Inr c' \<and>
    fc_amountMinor c' = amount"
proof -
  note pos = appliedRatio_pos[OF assms(1,2)]
  have swap: "appliedRatio s Quote_To_Base = (den, num)" using appliedRatio_inverse[of s] assms(2) by simp
  define y where "y = divideBankers (amount * num) den"
  have nn: "0 \<le> amount * num" using assms(4) pos by simp
  note near = divideBankers_nearest[OF nn pos(2), folded y_def]
  have "0 \<le> y" using divideBankers_split[OF nn pos(2)] nn pos
    by (simp add: y_def Let_def pos_imp_zdiv_nonneg_iff add_increasing2)
  then have ny: "0 \<le> y * den" using pos by simp
  have "2 * \<bar>amount * num - y * den\<bar> < num"
  proof (cases "den = num")
    case True
    then have "amount * num div den = amount" "amount * num mod den = 0" using pos by simp_all
    then have "y = amount" using divideBankers_split[OF nn pos(2)] pos by (simp add: y_def Let_def)
    then show ?thesis using True pos by simp
  next
    case False
    then show ?thesis using near(1) assms(3) by (simp add: abs_minus_commute)
  qed
  then have "divideBankers (y * den) num = amount"
    using nearest_unique[OF pos(1) divideBankers_nearest(1)[OF ny pos(1)]] by blast
  then show ?thesis
    using assms swap \<open>0 \<le> y\<close> by (auto simp: convert_def snapshot_ok_def Let_def simp flip: y_def)
qed

theorem convert_round_trip_witness:
  "\<exists>c c'. convert (BigIntIn 777) USD KES (Some sample_rate) Base_To_Quote = Inr c \<and>
     convert (BigIntIn (fc_amountMinor c)) KES USD (Some sample_rate) Quote_To_Base = Inr c' \<and> fc_amountMinor c' = 777"
  using convert_round_trip[OF fxRateSnapshot_ok[OF sample_rate_built], of 129754 1000 777]
  by (simp add: sample_rate_def appliedRatio_def)

text \<open>
  The R10 gate: a settlement in another currency is posted only with a snapshot that
  bridges the two currencies, which the conversion names; the converted amount is the carrying
  amount plus the gain or minus the loss posted, always a positive amount in the currency of
  the receivable, and no event is emitted exactly when the two agree.
\<close>

theorem postRealizedGainLoss_settles:
  assumes "postRealizedGainLoss inp clk = Inr p"
  shows "fs_receivableCurrency inp \<noteq> fs_settlementCurrency inp \<and>
    (\<exists>s. fs_snapshot inp = Some s \<and> {fx_baseCurrency s, fx_quoteCurrency s} = {fs_receivableCurrency inp, fs_settlementCurrency inp} \<and>
       ap_snapshotId (fc_rate (fp_conversion p)) = fx_snapshotId s) \<and>
    toMinorUnits (fs_settlementAmountMinor inp) = Inr (fc_inputAmountMinor (fp_conversion p)) \<and>
    fp_settlementConvertedMinor p = fc_amountMinor (fp_conversion p) \<and>
    fp_settlementConvertedMinor p = fp_carryingAmountMinor p +
      (case fp_realizedGainLoss p of None \<Rightarrow> 0
       | Some g \<Rightarrow> if gl_direction g = Gain then gl_amountMinor g else - gl_amountMinor g) \<and>
    (\<forall>g. fp_realizedGainLoss p = Some g \<longrightarrow> 0 < gl_amountMinor g \<and> gl_currency g = fs_receivableCurrency inp) \<and>
    (fp_event p = None \<longleftrightarrow> fp_settlementConvertedMinor p = fp_carryingAmountMinor p)"
proof -
  from assms obtain s carrying settlement conv where
    s: "requireFxSnapshot (fs_settlementCurrency inp) (fs_receivableCurrency inp) (fs_snapshot inp) = Inr s"
    and st: "toMinorUnits (fs_settlementAmountMinor inp) = Inr settlement"
    and conv: "convert (BigIntIn settlement) (fs_settlementCurrency inp) (fs_receivableCurrency inp) (Some s)
      (if fx_baseCurrency s = fs_settlementCurrency inp then Base_To_Quote else Quote_To_Base) = Inr conv"
    and p: "fp_conversion p = conv" "fp_settlementConvertedMinor p = fc_amountMinor conv" "fp_carryingAmountMinor p = carrying"
      "fp_realizedGainLoss p = (if fc_amountMinor conv = carrying then None
        else Some (gain_loss_of (fc_amountMinor conv) carrying (fs_receivableCurrency inp)))"
      "fp_event p = None \<longleftrightarrow> fc_amountMinor conv = carrying"
    by (auto simp: postRealizedGainLoss_def result_simps Let_def)
  have gate: "fs_receivableCurrency inp \<noteq> fs_settlementCurrency inp" "fs_snapshot inp = Some s"
    "{fx_baseCurrency s, fx_quoteCurrency s} = {fs_receivableCurrency inp, fs_settlementCurrency inp}"
    using s by (auto simp: requireFxSnapshot_def split: option.splits if_splits)
  have "fc_inputAmountMinor conv = settlement" "ap_snapshotId (fc_rate conv) = fx_snapshotId s"
    using convert_Inr[OF conv] toMinorUnits_nonneg[OF st] by (metis option.inject sum.inject(2) toMinorUnits.simps(2) not_less)+
  with gate st p show ?thesis by (auto simp: gain_loss_of_def)
qed

definition sample_settlement :: fx_settlement_input where
  "sample_settlement = \<lparr>fs_receivableId = ''00000000-0000-0000-0000-000000000003'', fs_paymentId = None,
     fs_carryingAmountMinor = BigIntIn 12900, fs_receivableCurrency = KES, fs_settlementAmountMinor = BigIntIn 100,
     fs_settlementCurrency = USD, fs_snapshot = Some sample_rate, fs_aggregateId = None\<rparr>"

theorem postRealizedGainLoss_settles_witness:
  "\<exists>p. postRealizedGainLoss sample_settlement (\<lambda>_. 0) = Inr p \<and> fp_event p \<noteq> None \<and>
     fp_realizedGainLoss p = Some \<lparr>gl_direction = Gain, gl_amountMinor = 75, gl_currency = KES\<rparr>"
proof -
  have "UUID_PATTERN ''00000000-0000-0000-0000-000000000003''" by code_simp
  then obtain p where p: "postRealizedGainLoss sample_settlement (\<lambda>_. 0) = Inr p" "fp_settlementConvertedMinor p = 12975"
    "fp_carryingAmountMinor p = 12900"
    "fp_realizedGainLoss p = Some \<lparr>gl_direction = Gain, gl_amountMinor = 75, gl_currency = KES\<rparr>"
    by (simp add: postRealizedGainLoss_def sample_settlement_def sample_rate_def fx_assertUuidShape_def optional_uuid_def
        requireFxSnapshot_def convert_def appliedRatio_def divideBankers_def pow10_def gain_loss_of_def Let_def)
  from postRealizedGainLoss_settles[OF p(1)] p show ?thesis by auto
qed

end
