(* ===== verification/Credit_Balance.thy ===== *)
theory Credit_Balance
  imports Money Js_Date Contracts
begin

text \<open>
  Customer credit balances (\<open>src/src/domain/adjustments/credit-balance.ts\<close>) and the event
  constructors of the adjustments lane (\<open>events.ts\<close>). A balance is an append-only log of
  movements; what is available is always recomputed from the log.
\<close>

section \<open>Events of the adjustments lane\<close>

datatype adjustment_payload =
    RefundRequested uuid uuid int string
  | RefundCompleted uuid string
  | CreditNoteIssued uuid uuid int
  | CreditNoteApplied uuid uuid uuid int
  | CreditBalanceApplied uuid int "uuid option"

type_synonym adjustment_event = "(adjustment_payload, string) domain_event"

definition adjustment_emit :: "string \<Rightarrow> uuid \<Rightarrow> adjustment_payload \<Rightarrow> date \<Rightarrow> adjustment_event" where
  "adjustment_emit name aggregateId payload now =
     \<lparr>ev_name = name, ev_version = 1, ev_aggregateId = aggregateId, ev_payload = payload, ev_occurredAt = toISOString now\<rparr>"

definition refundRequestedEvent :: "uuid \<Rightarrow> uuid \<Rightarrow> int \<Rightarrow> string \<Rightarrow> date \<Rightarrow> adjustment_event" where
  "refundRequestedEvent refundId paymentId totalMinor reason now =
     adjustment_emit ''adjustment.refundRequested'' refundId (RefundRequested refundId paymentId totalMinor reason) now"

text \<open>The payload reads the clock before the envelope does.\<close>

definition refundCompletedEvent :: "uuid \<Rightarrow> clock \<Rightarrow> adjustment_event" where
  "refundCompletedEvent refundId clk =
     adjustment_emit ''adjustment.refundCompleted'' refundId (RefundCompleted refundId (toISOString (clk 0))) (clk 1)"

definition creditNoteIssuedEvent :: "uuid \<Rightarrow> uuid \<Rightarrow> int \<Rightarrow> date \<Rightarrow> adjustment_event" where
  "creditNoteIssuedEvent creditNoteId customerId totalMinor now =
     adjustment_emit ''adjustment.creditNoteIssued'' creditNoteId (CreditNoteIssued creditNoteId customerId totalMinor) now"

definition creditNoteAppliedEvent :: "uuid \<Rightarrow> uuid \<Rightarrow> uuid \<Rightarrow> int \<Rightarrow> date \<Rightarrow> adjustment_event" where
  "creditNoteAppliedEvent applicationId creditNoteId receivableId amountMinor now =
     adjustment_emit ''adjustment.creditNoteApplied'' creditNoteId
       (CreditNoteApplied applicationId creditNoteId receivableId amountMinor) now"

definition creditBalanceAppliedEvent :: "uuid \<Rightarrow> int \<Rightarrow> uuid option \<Rightarrow> date \<Rightarrow> adjustment_event" where
  "creditBalanceAppliedEvent customerId amountMinor receivableId now =
     adjustment_emit ''adjustment.creditBalanceApplied'' customerId (CreditBalanceApplied customerId amountMinor receivableId) now"

section \<open>Data\<close>

datatype movement_kind = Overpayment | Credit_Note_Excess | Applied_To_Receivable
datatype movement_direction = Increase | Decrease
datatype movement_ref = PaymentRef | SourceId | ReceivableId

record credit_movement =
  cm_id :: uuid
  cm_customerId :: uuid
  cm_kind :: movement_kind
  cm_direction :: movement_direction
  cm_amount :: money
  cm_currency :: currency
  cm_paymentRef :: "string option"
  cm_receivableId :: "uuid option"
  cm_sourceId :: "uuid option"
  cm_occurredAt :: date

record credit_balance =
  cb_customerId :: uuid
  cb_currency :: currency
  cb_movements :: "credit_movement list"

fun MOVEMENT_CONTRACT :: "movement_kind \<Rightarrow> movement_direction \<times> movement_ref" where
  "MOVEMENT_CONTRACT Overpayment = (Increase, PaymentRef)"
| "MOVEMENT_CONTRACT Credit_Note_Excess = (Increase, SourceId)"
| "MOVEMENT_CONTRACT Applied_To_Receivable = (Decrease, ReceivableId)"

fun movement_ref_of :: "credit_movement \<Rightarrow> movement_ref \<Rightarrow> string option" where
  "movement_ref_of m PaymentRef = cm_paymentRef m"
| "movement_ref_of m SourceId = cm_sourceId m"
| "movement_ref_of m ReceivableId = cm_receivableId m"

text \<open>A reference counts as present when it is a non-empty string (JavaScript truthiness).\<close>

fun present :: "string option \<Rightarrow> bool" where
  "present None = False"
| "present (Some s) = (s \<noteq> [])"

section \<open>Operations\<close>

definition openCreditBalance :: "uuid \<Rightarrow> currency \<Rightarrow> credit_balance" where
  "openCreditBalance customerId c = \<lparr>cb_customerId = customerId, cb_currency = c, cb_movements = []\<rparr>"

definition movement_sign :: "credit_movement \<Rightarrow> int" where
  "movement_sign m = (if cm_direction m = Increase then m_amount (cm_amount m) else - m_amount (cm_amount m))"

definition availableOf :: "credit_balance \<Rightarrow> money result" where
  "availableOf b =
     and_then (reduce (\<lambda>minor m. if cm_currency m \<noteq> cb_currency b then throw ''CURRENCY_MISMATCH''
         else Inr (minor + movement_sign m)) 0 (cb_movements b)) (\<lambda>minor.
       if minor < 0 then throw ''CREDIT_BALANCE_CORRUPT'' else ofMinorB minor (cb_currency b))"

definition appendMovement :: "credit_balance \<Rightarrow> credit_movement \<Rightarrow> credit_balance result" where
  "appendMovement b m =
     (if cm_customerId m \<noteq> cb_customerId b then throw ''CREDIT_BALANCE_CUSTOMER_MISMATCH''
      else if cm_currency m \<noteq> cb_currency b then throw ''CURRENCY_MISMATCH''
      else if \<not> isPositive (cm_amount m) then throw ''CREDIT_BALANCE_AMOUNT_INVALID''
      else let (direction, required) = MOVEMENT_CONTRACT (cm_kind m) in
        if cm_direction m \<noteq> direction \<or> \<not> present (movement_ref_of m required)
        then throw ''CREDIT_BALANCE_MOVEMENT_INCONSISTENT''
        else Inr (b\<lparr>cb_movements := cb_movements b @ [m]\<rparr>))"

definition recordOverpayment ::
  "credit_balance \<Rightarrow> string \<Rightarrow> money \<Rightarrow> clock \<Rightarrow> uuid \<Rightarrow> (credit_balance \<times> credit_movement) result" where
  "recordOverpayment b paymentRef amount clk movementId =
     (if trim paymentRef = [] then throw ''CREDIT_BALANCE_PAYMENT_REF_REQUIRED''
      else if \<not> isPositive amount then throw ''CREDIT_BALANCE_AMOUNT_INVALID''
      else if m_currency amount \<noteq> cb_currency b then throw ''CURRENCY_MISMATCH''
      else let m = \<lparr>cm_id = movementId, cm_customerId = cb_customerId b, cm_kind = Overpayment, cm_direction = Increase,
             cm_amount = amount, cm_currency = cb_currency b, cm_paymentRef = Some paymentRef, cm_receivableId = None,
             cm_sourceId = None, cm_occurredAt = clk 0\<rparr>
        in and_then (appendMovement b m) (\<lambda>b'. Inr (b', m)))"

text \<open>\<open>options.consent\<close> defaults to true when it is not given.\<close>

definition applyCreditBalance ::
  "credit_balance \<Rightarrow> uuid \<Rightarrow> money \<Rightarrow> clock \<Rightarrow> bool option \<Rightarrow> uuid \<Rightarrow>
     (credit_balance \<times> credit_movement \<times> adjustment_event) result" where
  "applyCreditBalance b receivableId amount clk consent movementId =
     (if consent = Some False then throw ''CONSENT_REQUIRED''
      else if \<not> isPositive amount then throw ''CREDIT_BALANCE_AMOUNT_INVALID''
      else if m_currency amount \<noteq> cb_currency b then throw ''CURRENCY_MISMATCH''
      else and_then (availableOf b) (\<lambda>available.
        and_then (compareTo amount available) (\<lambda>cmp.
          if cmp > 0 then throw ''INSUFFICIENT_CREDIT_BALANCE''
          else let m = \<lparr>cm_id = movementId, cm_customerId = cb_customerId b, cm_kind = Applied_To_Receivable,
                 cm_direction = Decrease, cm_amount = amount, cm_currency = cb_currency b, cm_paymentRef = None,
                 cm_receivableId = Some receivableId, cm_sourceId = None, cm_occurredAt = clk 0\<rparr>
            in and_then (appendMovement b m) (\<lambda>b'.
              Inr (b', m, creditBalanceAppliedEvent (cb_customerId b) (m_amount amount) (Some receivableId) (clk 1))))))"

section \<open>What is available\<close>

definition movements_total :: "credit_movement list \<Rightarrow> int" where
  "movements_total ms = sum_list (map movement_sign ms)"

definition movement_ok :: "credit_balance \<Rightarrow> credit_movement \<Rightarrow> bool" where
  "movement_ok b m \<longleftrightarrow> cm_customerId m = cb_customerId b \<and> cm_currency m = cb_currency b \<and>
     m_currency (cm_amount m) = cb_currency b \<and> isPositive (cm_amount m) \<and>
     cm_direction m = fst (MOVEMENT_CONTRACT (cm_kind m))"

definition credit_ok :: "credit_balance \<Rightarrow> bool" where
  "credit_ok b \<longleftrightarrow> (\<forall>m \<in> set (cb_movements b). movement_ok b m) \<and> 0 \<le> movements_total (cb_movements b)"

lemma movements_total_simps [simp]:
  "movements_total [] = 0" "movements_total (ms @ [m]) = movements_total ms + movement_sign m"
  by (simp_all add: movements_total_def)

lemma availableOf_sum:
  assumes "\<forall>m \<in> set ms. cm_currency m = c"
  shows "reduce (\<lambda>minor m. if cm_currency m \<noteq> c then throw ''CURRENCY_MISMATCH''
     else Inr (minor + movement_sign m)) a ms = Inr (a + movements_total ms)"
  using assms by (induction ms arbitrary: a) (simp_all add: movements_total_def)

lemma availableOf_ok: "credit_ok b \<Longrightarrow> availableOf b = Inr (mk_money (movements_total (cb_movements b)) (cb_currency b))"
  using availableOf_sum[of "cb_movements b" "cb_currency b" 0]
  by (simp add: availableOf_def credit_ok_def movement_ok_def ofMinorB_nonneg)

lemma appendMovement_Inr:
  "appendMovement b m = Inr b' \<longleftrightarrow> cm_customerId m = cb_customerId b \<and> cm_currency m = cb_currency b \<and>
     isPositive (cm_amount m) \<and> cm_direction m = fst (MOVEMENT_CONTRACT (cm_kind m)) \<and>
     present (movement_ref_of m (snd (MOVEMENT_CONTRACT (cm_kind m)))) \<and> b' = b\<lparr>cb_movements := cb_movements b @ [m]\<rparr>"
  by (auto simp: appendMovement_def Let_def split: prod.splits)

lemma credit_ok_append:
  assumes "credit_ok b" and "movement_ok b m" and "0 \<le> movements_total (cb_movements b) + movement_sign m"
  shows "credit_ok (b\<lparr>cb_movements := cb_movements b @ [m]\<rparr>)"
  using assms by (auto simp: credit_ok_def movement_ok_def)

lemma recordOverpayment_Inr:
  assumes "recordOverpayment b ref amount clk mid = Inr (b', m)"
  shows "movement_ok b m \<and> movement_sign m = m_amount amount \<and> 0 < m_amount amount \<and>
    b' = b\<lparr>cb_movements := cb_movements b @ [m]\<rparr>"
  using assms by (auto simp: recordOverpayment_def result_simps Let_def appendMovement_Inr movement_ok_def movement_sign_def isPositive_def)

lemma applyCreditBalance_Inr:
  assumes "credit_ok b" and "applyCreditBalance b rid amount clk consent mid = Inr (b', m, e)"
  shows "movement_ok b m \<and> movement_sign m = - m_amount amount \<and> 0 < m_amount amount \<and>
    m_amount amount \<le> movements_total (cb_movements b) \<and> b' = b\<lparr>cb_movements := cb_movements b @ [m]\<rparr> \<and>
    consent \<noteq> Some False"
proof -
  from assms obtain cmp where c: "compareTo amount (mk_money (movements_total (cb_movements b)) (cb_currency b)) = Inr cmp" "\<not> 0 < cmp"
    by (auto simp: applyCreditBalance_def result_simps availableOf_ok)
  then have "m_amount amount \<le> movements_total (cb_movements b)"
    by (auto simp: compareTo_def result_simps split: if_splits)
  with assms show ?thesis
    by (auto simp: applyCreditBalance_def result_simps Let_def appendMovement_Inr movement_ok_def movement_sign_def isPositive_def)
qed

section \<open>The balance as a machine\<close>

datatype credit_command =
    Overpay string money clock uuid
  | ApplyCredit uuid money clock "bool option" uuid

fun credit_step :: "credit_balance \<Rightarrow> credit_command \<Rightarrow> credit_balance result" where
  "credit_step b (Overpay ref amount clk mid) = and_then (recordOverpayment b ref amount clk mid) (\<lambda>(b', _). Inr b')"
| "credit_step b (ApplyCredit rid amount clk consent mid) =
     and_then (applyCreditBalance b rid amount clk consent mid) (\<lambda>(b', _). Inr b')"

text \<open>What an accepted command adds to the balance.\<close>

fun credit_effect :: "credit_command \<Rightarrow> int" where
  "credit_effect (Overpay _ amount _ _) = m_amount amount"
| "credit_effect (ApplyCredit _ amount _ _ _) = - m_amount amount"

lemma credit_step_Inr:
  assumes "credit_ok b" and "credit_step b c = Inr b'"
  obtains m where "movement_ok b m" and "movement_sign m = credit_effect c" and "credit_effect c \<noteq> 0"
    and "0 \<le> movements_total (cb_movements b) + credit_effect c" and "b' = b\<lparr>cb_movements := cb_movements b @ [m]\<rparr>"
proof (cases c)
  case (Overpay ref amount clk mid)
  with assms(2) obtain m where "recordOverpayment b ref amount clk mid = Inr (b', m)" by (auto simp: result_simps)
  from recordOverpayment_Inr[OF this] assms(1) show thesis
    by (intro that[of m]) (auto simp: Overpay credit_ok_def)
next
  case (ApplyCredit rid amount clk consent mid)
  with assms(2) obtain m e where "applyCreditBalance b rid amount clk consent mid = Inr (b', m, e)"
    by (auto simp: result_simps)
  from applyCreditBalance_Inr[OF assms(1) this] show thesis by (intro that[of m]) (auto simp: ApplyCredit)
qed

lemma credit_step_ok:
  assumes "credit_ok b" and "credit_step b c = Inr b'"
  shows "credit_ok b' \<and> cb_currency b' = cb_currency b \<and>
    movements_total (cb_movements b') = movements_total (cb_movements b) + credit_effect c"
proof -
  from credit_step_Inr[OF assms] obtain m where m: "movement_ok b m" "movement_sign m = credit_effect c"
    "0 \<le> movements_total (cb_movements b) + credit_effect c" "b' = b\<lparr>cb_movements := cb_movements b @ [m]\<rparr>" .
  with credit_ok_append[OF assms(1) m(1)] show ?thesis by simp
qed

interpretation credit_machine: guarded_machine credit_step credit_ok "\<lambda>_. True"
  by unfold_locales (simp add: credit_step_ok)

interpretation credit_history: guarded_machine credit_step
  "\<lambda>b'. credit_ok b' \<and> cb_currency b' = cb_currency b \<and> (\<exists>ms. cb_movements b' = cb_movements b @ ms)" "\<lambda>_. True" for b
  by unfold_locales (auto simp: credit_step_ok elim: credit_step_Inr)

lemma credit_total_drive:
  "credit_ok b \<Longrightarrow> movements_total (cb_movements (drive credit_step b cs)) =
     movements_total (cb_movements b) + sum_list (map credit_effect (accepted credit_step b cs))"
proof (induction cs arbitrary: b)
  case (Cons c cs)
  show ?case
  proof (cases "credit_step b c")
    case (Inr b')
    from credit_step_ok[OF Cons.prems Inr] Cons.IH[of b'] Inr show ?thesis by simp
  qed (use Cons in simp)
qed simp

text \<open>
  C8. A customer's credit never goes negative (R3, R7): after any sequence of overpayments and
  applications, accepted or refused, the available balance can be read, is the sum of the
  accepted overpayments less the accepted applications, and is at least zero; the log only
  grows.
\<close>

theorem credit_balance_never_negative:
  assumes "b = drive credit_step (openCreditBalance customer c) cmds"
  shows "\<exists>available. availableOf b = Inr (mk_money available c) \<and> 0 \<le> available \<and>
    available = sum_list (map credit_effect (accepted credit_step (openCreditBalance customer c) cmds)) \<and>
    (\<exists>ms. cb_movements (drive credit_step b more_cmds) = cb_movements b @ ms)"
proof -
  let ?o = "openCreditBalance customer c"
  have o: "credit_ok ?o" by (simp add: openCreditBalance_def credit_ok_def)
  have b: "credit_ok b \<and> cb_currency b = c"
    using credit_history.drive_inv[of ?o ?o cmds] o by (simp add: assms openCreditBalance_def)
  have "movements_total (cb_movements b) = sum_list (map credit_effect (accepted credit_step ?o cmds))"
    using credit_total_drive[OF o, of cmds] by (simp add: assms openCreditBalance_def)
  moreover have "\<exists>ms. cb_movements (drive credit_step b more_cmds) = cb_movements b @ ms"
    using credit_history.drive_inv[of b b more_cmds] b by simp
  ultimately show ?thesis using availableOf_ok[of b] b by (auto simp: credit_ok_def)
qed

definition sample_credit_cmds :: "credit_command list" where
  "sample_credit_cmds = [Overpay ''QK1'' (mk_money 500 KES) (\<lambda>_. 0) ''m1'',
     ApplyCredit ''r1'' (mk_money 700 KES) (\<lambda>_. 0) None ''m2'', ApplyCredit ''r1'' (mk_money 200 KES) (\<lambda>_. 0) None ''m3'']"

theorem credit_balance_never_negative_witness:
  "availableOf (drive credit_step (openCreditBalance ''c1'' KES) sample_credit_cmds) = Inr (mk_money 300 KES)"
proof -
  have "sum_list (map credit_effect (accepted credit_step (openCreditBalance ''c1'' KES) sample_credit_cmds)) = 300"
    unfolding sample_credit_cmds_def
    by (simp add: openCreditBalance_def recordOverpayment_def applyCreditBalance_def appendMovement_def availableOf_def
        compareTo_def assertSame_def movement_sign_def ofMinorB_nonneg trim_no_space is_js_space_def Let_def)
  with credit_balance_never_negative[OF refl, of "''c1''" KES sample_credit_cmds] show ?thesis by auto
qed

end
