(* ===== verification/Credit_Note.thy ===== *)
theory Credit_Note
  imports Credit_Balance
begin

text \<open>
  Credit notes (\<open>src/src/domain/adjustments/credit-note.ts\<close>): a note is drafted, issued,
  applied in parts to receivables, its excess routed with consent to the customer's credit
  balance, or voided before any application.
\<close>

section \<open>Data\<close>

datatype credit_note_state = CN_Draft | CN_Issued | CN_Partially_Applied | CN_Fully_Applied | CN_Voided

record credit_note_application =
  ca_id :: uuid
  ca_creditNoteId :: uuid
  ca_receivableId :: uuid
  ca_amount :: money
  ca_appliedAt :: date

record credit_routing =
  cr_movementId :: uuid
  cr_amount :: money
  cr_occurredAt :: date

record credit_note =
  cn_id :: uuid
  cn_customerId :: uuid
  cn_invoiceId :: "uuid option"
  cn_reason :: string
  cn_total :: money
  cn_state :: credit_note_state
  cn_issuedAt :: "date option"
  cn_voidedAt :: "date option"
  cn_applications :: "credit_note_application list"
  cn_routings :: "credit_routing list"

section \<open>Operations\<close>

definition appliedOf :: "credit_note \<Rightarrow> money result" where
  "appliedOf note = reduce (\<lambda>acc a. add_money acc (ca_amount a)) (zero_money (m_currency (cn_total note))) (cn_applications note)"

definition creditedOf :: "credit_note \<Rightarrow> money result" where
  "creditedOf note = reduce (\<lambda>acc r. add_money acc (cr_amount r)) (zero_money (m_currency (cn_total note))) (cn_routings note)"

definition unappliedOf :: "credit_note \<Rightarrow> money result" where
  "unappliedOf note =
     and_then (appliedOf note) (\<lambda>applied. and_then (creditedOf note) (\<lambda>credited.
       and_then (add_money applied credited) (\<lambda>used. subtract_money (cn_total note) used)))"

definition draftCreditNote :: "uuid \<Rightarrow> uuid \<Rightarrow> uuid option \<Rightarrow> string \<Rightarrow> money \<Rightarrow> credit_note result" where
  "draftCreditNote noteId customerId invoiceId reason noteTotal =
     (if trim reason = [] then throw ''CREDIT_NOTE_REASON_REQUIRED''
      else if \<not> isPositive noteTotal then throw ''CREDIT_NOTE_TOTAL_INVALID''
      else Inr \<lparr>cn_id = noteId, cn_customerId = customerId, cn_invoiceId = invoiceId, cn_reason = reason,
        cn_total = noteTotal, cn_state = CN_Draft, cn_issuedAt = None, cn_voidedAt = None, cn_applications = [], cn_routings = []\<rparr>)"

definition issueCreditNote :: "credit_note \<Rightarrow> clock \<Rightarrow> (credit_note \<times> adjustment_event) result" where
  "issueCreditNote note clk =
     (if cn_state note \<noteq> CN_Draft then throw ''CREDIT_NOTE_INVALID_TRANSITION''
      else Inr (note\<lparr>cn_state := CN_Issued, cn_issuedAt := Some (clk 0)\<rparr>,
        creditNoteIssuedEvent (cn_id note) (cn_customerId note) (m_amount (cn_total note)) (clk 1)))"

definition applyCreditNote ::
  "credit_note \<Rightarrow> uuid \<Rightarrow> money \<Rightarrow> clock \<Rightarrow> uuid \<Rightarrow> (credit_note \<times> credit_note_application \<times> adjustment_event) result" where
  "applyCreditNote note receivableId amount clk applicationId =
     (if cn_state note \<noteq> CN_Issued \<and> cn_state note \<noteq> CN_Partially_Applied then throw ''CREDIT_NOTE_NOT_APPLICABLE''
      else if \<not> isPositive amount then throw ''CREDIT_NOTE_AMOUNT_INVALID''
      else if m_currency amount \<noteq> m_currency (cn_total note) then throw ''CURRENCY_MISMATCH''
      else and_then (appliedOf note) (\<lambda>applied.
        and_then (add_money applied amount) (\<lambda>newApplied.
        and_then (compareTo newApplied (cn_total note)) (\<lambda>cmp.
          if cmp > 0 then throw ''CREDIT_NOTE_OVER_APPLIED''
          else let application = \<lparr>ca_id = applicationId, ca_creditNoteId = cn_id note, ca_receivableId = receivableId,
                 ca_amount = amount, ca_appliedAt = clk 0\<rparr> in
            and_then (unappliedOf note) (\<lambda>unapplied.
            and_then (subtract_money unapplied amount) (\<lambda>remaining.
              Inr (note\<lparr>cn_applications := cn_applications note @ [application],
                     cn_state := (if isZero remaining then CN_Fully_Applied else CN_Partially_Applied)\<rparr>,
                   application,
                   creditNoteAppliedEvent applicationId (cn_id note) receivableId (m_amount amount) (clk 1))))))))"

definition voidCreditNote :: "credit_note \<Rightarrow> clock \<Rightarrow> credit_note result" where
  "voidCreditNote note clk =
     (if cn_state note \<noteq> CN_Issued then throw ''CREDIT_NOTE_INVALID_TRANSITION''
      else if cn_applications note \<noteq> [] then throw ''CREDIT_NOTE_HAS_APPLICATIONS''
      else Inr (note\<lparr>cn_state := CN_Voided, cn_voidedAt := Some (clk 0)\<rparr>))"

definition applyExcessToCreditBalance ::
  "credit_note \<Rightarrow> money \<Rightarrow> bool \<Rightarrow> clock \<Rightarrow> uuid \<Rightarrow> (credit_note \<times> credit_movement \<times> adjustment_event) result" where
  "applyExcessToCreditBalance note amount consent clk movementId =
     (if \<not> consent then throw ''CONSENT_REQUIRED''
      else if cn_state note = CN_Draft \<or> cn_state note = CN_Voided then throw ''CREDIT_NOTE_NOT_APPLICABLE''
      else if \<not> isPositive amount then throw ''CREDIT_NOTE_AMOUNT_INVALID''
      else if m_currency amount \<noteq> m_currency (cn_total note) then throw ''CURRENCY_MISMATCH''
      else and_then (unappliedOf note) (\<lambda>unapplied.
        if isZero unapplied then throw ''CREDIT_NOTE_NO_UNAPPLIED_VALUE''
        else and_then (compareTo amount unapplied) (\<lambda>cmp.
          if cmp > 0 then throw ''CREDIT_NOTE_EXCESS_EXCEEDS_UNAPPLIED''
          else let occurredAt = clk 0 in
            and_then (subtract_money unapplied amount) (\<lambda>remaining.
              Inr (note\<lparr>cn_routings := cn_routings note @
                       [\<lparr>cr_movementId = movementId, cr_amount = amount, cr_occurredAt = occurredAt\<rparr>],
                     cn_state := (if isZero remaining then CN_Fully_Applied else CN_Partially_Applied)\<rparr>,
                   \<lparr>cm_id = movementId, cm_customerId = cn_customerId note, cm_kind = Credit_Note_Excess,
                    cm_direction = Increase, cm_amount = amount, cm_currency = m_currency amount, cm_paymentRef = None,
                    cm_receivableId = None, cm_sourceId = Some (cn_id note), cm_occurredAt = occurredAt\<rparr>,
                   creditBalanceAppliedEvent (cn_customerId note) (m_amount amount) None (clk 1))))))"

section \<open>The note invariant\<close>

definition note_used :: "credit_note \<Rightarrow> int" where
  "note_used note = sum_list (map (\<lambda>a. m_amount (ca_amount a)) (cn_applications note)) +
     sum_list (map (\<lambda>r. m_amount (cr_amount r)) (cn_routings note))"

abbreviation note_left :: "credit_note \<Rightarrow> int" where
  "note_left note \<equiv> m_amount (cn_total note) - note_used note"

definition note_rows_ok :: "credit_note \<Rightarrow> bool" where
  "note_rows_ok note \<longleftrightarrow>
     (\<forall>a \<in> set (cn_applications note). m_currency (ca_amount a) = m_currency (cn_total note) \<and> isPositive (ca_amount a)) \<and>
     (\<forall>r \<in> set (cn_routings note). m_currency (cr_amount r) = m_currency (cn_total note) \<and> isPositive (cr_amount r))"

fun note_state_ok :: "credit_note_state \<Rightarrow> int \<Rightarrow> int \<Rightarrow> bool" where
  "note_state_ok CN_Draft used left = (used = 0)"
| "note_state_ok CN_Issued used left = (used = 0)"
| "note_state_ok CN_Voided used left = (used = 0)"
| "note_state_ok CN_Partially_Applied used left = (0 < used \<and> 0 < left)"
| "note_state_ok CN_Fully_Applied used left = (left = 0)"

text \<open>Applications and routings never exceed the total (R7), and the state tells what is used.\<close>

definition note_ok :: "credit_note \<Rightarrow> bool" where
  "note_ok note \<longleftrightarrow> isPositive (cn_total note) \<and> note_rows_ok note \<and> 0 \<le> note_used note \<and> 0 \<le> note_left note \<and>
     note_state_ok (cn_state note) (note_used note) (note_left note)"

lemma note_sums:
  assumes "note_rows_ok note"
  shows "appliedOf note = Inr (mk_money (sum_list (map (\<lambda>a. m_amount (ca_amount a)) (cn_applications note))) (m_currency (cn_total note)))"
    and "creditedOf note = Inr (mk_money (sum_list (map (\<lambda>r. m_amount (cr_amount r)) (cn_routings note))) (m_currency (cn_total note)))"
  using reduce_add_money[of "cn_applications note" ca_amount "zero_money (m_currency (cn_total note))"]
    reduce_add_money[of "cn_routings note" cr_amount "zero_money (m_currency (cn_total note))"] assms
  by (simp_all add: appliedOf_def creditedOf_def note_rows_ok_def)

lemma unappliedOf_ok: "note_ok note \<Longrightarrow> unappliedOf note = Inr (mk_money (note_left note) (m_currency (cn_total note)))"
  by (simp add: unappliedOf_def note_ok_def note_sums add_money_def subtract_money_def assertSame_def note_used_def)

lemma draftCreditNote_ok: "draftCreditNote i c iv reason amount = Inr note \<Longrightarrow> note_ok note \<and> cn_total note = amount \<and> cn_state note = CN_Draft"
  by (auto simp: draftCreditNote_def note_ok_def note_rows_ok_def note_used_def isPositive_def split: if_splits)

lemma compareTo_pos: "m_currency a = m_currency b \<Longrightarrow> compareTo a b = Inr (if m_amount a = m_amount b then 0 else if m_amount a > m_amount b then 1 else - 1)"
  by (simp add: compareTo_def assertSame_def)

text \<open>The whole behaviour of an application on a well-formed note.\<close>

lemma applyCreditNote_cases:
  assumes "note_ok note"
  shows "applyCreditNote note rid amount clk aid =
    (if cn_state note \<noteq> CN_Issued \<and> cn_state note \<noteq> CN_Partially_Applied then throw ''CREDIT_NOTE_NOT_APPLICABLE''
     else if m_amount amount \<le> 0 then throw ''CREDIT_NOTE_AMOUNT_INVALID''
     else if m_currency amount \<noteq> m_currency (cn_total note) then throw ''CURRENCY_MISMATCH''
     else if sum_list (map (\<lambda>a. m_amount (ca_amount a)) (cn_applications note)) + m_amount amount > m_amount (cn_total note)
       then throw ''CREDIT_NOTE_OVER_APPLIED''
     else if m_amount amount > note_left note then throw ''UNDERFLOW''
     else let application = \<lparr>ca_id = aid, ca_creditNoteId = cn_id note, ca_receivableId = rid, ca_amount = amount, ca_appliedAt = clk 0\<rparr>
       in Inr (note\<lparr>cn_applications := cn_applications note @ [application],
            cn_state := (if m_amount amount = note_left note then CN_Fully_Applied else CN_Partially_Applied)\<rparr>,
          application, creditNoteAppliedEvent aid (cn_id note) rid (m_amount amount) (clk 1)))"
proof -
  have rows: "note_rows_ok note" using assms by (simp add: note_ok_def)
  show ?thesis
    unfolding applyCreditNote_def note_sums(1)[OF rows] unappliedOf_ok[OF assms]
    by (simp add: isPositive_def add_money_def subtract_money_def assertSame_def compareTo_pos isZero_def Let_def not_less)
qed

lemma applyExcess_Inr:
  assumes "note_ok note" and "applyExcessToCreditBalance note amount consent clk mid = Inr (note', m, e)"
  shows "consent \<and> cn_state note \<noteq> CN_Draft \<and> cn_state note \<noteq> CN_Voided \<and> 0 < m_amount amount \<and>
    m_currency amount = m_currency (cn_total note) \<and> m_amount amount \<le> note_left note \<and>
    note' = note\<lparr>cn_routings := cn_routings note @ [\<lparr>cr_movementId = mid, cr_amount = amount, cr_occurredAt = clk 0\<rparr>],
      cn_state := (if m_amount amount = note_left note then CN_Fully_Applied else CN_Partially_Applied)\<rparr> \<and>
    m = \<lparr>cm_id = mid, cm_customerId = cn_customerId note, cm_kind = Credit_Note_Excess, cm_direction = Increase,
      cm_amount = amount, cm_currency = m_currency amount, cm_paymentRef = None, cm_receivableId = None,
      cm_sourceId = Some (cn_id note), cm_occurredAt = clk 0\<rparr>"
proof (cases "m_currency amount = m_currency (cn_total note)")
  case True
  with assms show ?thesis
    unfolding applyExcessToCreditBalance_def unappliedOf_ok[OF assms(1)]
    by (auto simp: result_simps isPositive_def subtract_money_def assertSame_def compareTo_pos isZero_def Let_def not_less split: if_splits)
qed (use assms in \<open>auto simp: applyExcessToCreditBalance_def split: if_splits\<close>)

section \<open>The note as a machine\<close>

datatype note_command =
    IssueNote clock
  | ApplyNote uuid money clock uuid
  | VoidNote clock
  | RouteExcess money bool clock uuid

fun note_step :: "credit_note \<Rightarrow> note_command \<Rightarrow> credit_note result" where
  "note_step note (IssueNote clk) = and_then (issueCreditNote note clk) (\<lambda>(n, _). Inr n)"
| "note_step note (ApplyNote rid amount clk aid) = and_then (applyCreditNote note rid amount clk aid) (\<lambda>(n, _). Inr n)"
| "note_step note (VoidNote clk) = voidCreditNote note clk"
| "note_step note (RouteExcess amount consent clk mid) =
     and_then (applyExcessToCreditBalance note amount consent clk mid) (\<lambda>(n, _). Inr n)"

lemma applyCreditNote_ok:
  assumes "note_ok note" and "applyCreditNote note rid amount clk aid = Inr (note', a, e)"
  shows "note_ok note' \<and> cn_total note' = cn_total note \<and> note_left note' = note_left note - m_amount amount \<and> 0 < m_amount amount"
  using assms(2) unfolding applyCreditNote_cases[OF assms(1)]
  using assms(1) by (auto simp: note_ok_def note_rows_ok_def note_used_def isPositive_def Let_def split: if_splits)

lemma applyExcess_ok:
  assumes "note_ok note" and "applyExcessToCreditBalance note amount consent clk mid = Inr (note', m, e)"
  shows "note_ok note' \<and> cn_total note' = cn_total note \<and> note_left note' = note_left note - m_amount amount \<and> 0 < m_amount amount"
  using applyExcess_Inr[OF assms] assms(1)
  by (auto simp: note_ok_def note_rows_ok_def note_used_def isPositive_def split: if_splits)

lemma note_step_ok:
  assumes "note_ok note" and "note_step note c = Inr note'"
  shows "note_ok note' \<and> cn_total note' = cn_total note"
proof (cases c)
  case (IssueNote clk)
  with assms show ?thesis
    by (auto simp: result_simps issueCreditNote_def note_ok_def note_rows_ok_def note_used_def split: if_splits)
next
  case (VoidNote clk)
  with assms show ?thesis
    by (auto simp: voidCreditNote_def note_ok_def note_rows_ok_def note_used_def split: if_splits)
qed (use assms in \<open>auto simp: result_simps dest: applyCreditNote_ok applyExcess_ok\<close>)

interpretation note_machine: guarded_machine note_step "\<lambda>n. note_ok n \<and> cn_total n = amount" "\<lambda>_. True" for amount
  by unfold_locales (auto dest: note_step_ok)

lemma note_step_dead:
  assumes "cn_state note = CN_Voided"
  shows "note_step note c \<noteq> Inr note'"
  using assms by (cases c) (auto simp: result_simps issueCreditNote_def applyCreditNote_def voidCreditNote_def
      applyExcessToCreditBalance_def split: if_splits)

interpretation note_final: absorbing_machine note_step "\<lambda>n. cn_state n = CN_Voided"
  by unfold_locales (simp add: note_step_dead)

text \<open>Applications and routings draw on what is left of the note.\<close>

fun note_draw_step :: "credit_note \<Rightarrow> note_command \<Rightarrow> credit_note result" where
  "note_draw_step note (ApplyNote rid amount clk aid) = note_step note (ApplyNote rid amount clk aid)"
| "note_draw_step note (RouteExcess amount consent clk mid) = note_step note (RouteExcess amount consent clk mid)"
| "note_draw_step note _ = throw ''CREDIT_NOTE_NOT_APPLICABLE''"

fun note_draw_amount :: "note_command \<Rightarrow> int" where
  "note_draw_amount (ApplyNote _ amount _ _) = m_amount amount"
| "note_draw_amount (RouteExcess amount _ _ _) = m_amount amount"
| "note_draw_amount _ = 0"

interpretation note_pool: funds_pool note_draw_step note_ok "\<lambda>_. True" "\<lambda>n. note_left n" note_draw_amount
proof (unfold_locales, goal_cases)
  case (1 s c s')
  then show ?case by (cases c) (auto simp: result_simps dest: applyCreditNote_ok applyExcess_ok)
next
  case (2 s c s')
  then show ?case by (cases c) (auto simp: result_simps dest: applyCreditNote_ok applyExcess_ok)
next
  case (3 s c s')
  then show ?case by (cases c) (auto simp: result_simps dest: applyCreditNote_ok applyExcess_ok)
qed (simp add: note_ok_def)

section \<open>Properties\<close>

text \<open>
  C12. A credit note is never used beyond its total (R7): after any sequence of commands on a
  drafted note, applications and routings to the credit balance together are at most the
  total, which never changes; the note is fully applied only when nothing is left, and a voided
  note has never been used and never changes again.
\<close>

theorem credit_note_never_over_used:
  assumes "draftCreditNote noteId customerId invoiceId reason amount = Inr note0"
    and "note = drive note_step note0 cmds"
  shows "cn_total note = amount \<and> 0 \<le> note_used note \<and> note_used note \<le> m_amount amount \<and>
    (cn_state note = CN_Fully_Applied \<longrightarrow> note_used note = m_amount amount) \<and>
    (cn_state note = CN_Voided \<longrightarrow> note_used note = 0 \<and> drive note_step note more_cmds = note)"
proof -
  have "note_ok note0 \<and> cn_total note0 = amount" using draftCreditNote_ok[OF assms(1)] by simp
  then have n: "note_ok note \<and> cn_total note = amount"
    using note_machine.drive_inv[of note0 amount cmds] by (simp add: assms(2))
  have "note_used note = m_amount amount" if "cn_state note = CN_Fully_Applied"
    using n that by (auto simp: note_ok_def)
  moreover have "note_used note = 0" if "cn_state note = CN_Voided"
    using n that by (simp add: note_ok_def)
  ultimately show ?thesis using n note_final.drive_terminal[of "note" more_cmds] by (auto simp: note_ok_def)
qed

definition sample_note_cmds :: "note_command list" where
  "sample_note_cmds = [IssueNote (\<lambda>_. 0), RouteExcess (mk_money 60 KES) True (\<lambda>_. 0) ''m1'', ApplyNote ''r1'' (mk_money 40 KES) (\<lambda>_. 0) ''a1'']"

theorem credit_note_never_over_used_witness:
  "\<exists>note0. draftCreditNote ''n1'' ''c1'' None ''x'' (mk_money 100 KES) = Inr note0 \<and>
     note_used (drive note_step note0 sample_note_cmds) \<le> 100 \<and> cn_total (drive note_step note0 sample_note_cmds) = mk_money 100 KES"
proof -
  have "trim ''x'' \<noteq> []" by (simp add: trim_no_space is_js_space_def)
  then obtain note0 where n: "draftCreditNote ''n1'' ''c1'' None ''x'' (mk_money 100 KES) = Inr note0"
    by (simp add: draftCreditNote_def)
  from credit_note_never_over_used[OF n refl, of sample_note_cmds] n show ?thesis by auto
qed

text \<open>
  Which error an excessive application raises: on an applicable note and a positive amount
  of its currency, the application is accepted exactly when the amount is at most what is left;
  otherwise it raises CREDIT_NOTE_OVER_APPLIED if the applications alone would exceed the
  total, and UNDERFLOW if they would not but applications and routings together would.
\<close>

theorem applyCreditNote_refusals:
  assumes "note_ok note" and "cn_state note = CN_Issued \<or> cn_state note = CN_Partially_Applied"
    and "0 < m_amount amount" and "m_currency amount = m_currency (cn_total note)"
  shows "if m_amount amount \<le> note_left note
     then \<exists>r. applyCreditNote note rid amount clk aid = Inr r
     else applyCreditNote note rid amount clk aid =
       (if sum_list (map (\<lambda>a. m_amount (ca_amount a)) (cn_applications note)) + m_amount amount > m_amount (cn_total note)
        then throw ''CREDIT_NOTE_OVER_APPLIED'' else throw ''UNDERFLOW'')"
proof -
  have "sum_list (map (\<lambda>r. m_amount (cr_amount r)) (cn_routings note)) \<ge> 0"
    using assms(1) by (intro sum_list_nonneg_int) (auto simp: note_ok_def note_rows_ok_def isPositive_def)
  then have "sum_list (map (\<lambda>a. m_amount (ca_amount a)) (cn_applications note)) + m_amount amount \<le> m_amount (cn_total note)"
    if "m_amount amount \<le> note_left note" using that by (simp add: note_used_def)
  with assms show ?thesis by (auto simp: applyCreditNote_cases[OF assms(1)] Let_def)
qed

definition routed_note :: credit_note where
  "routed_note = \<lparr>cn_id = ''n1'', cn_customerId = ''c1'', cn_invoiceId = None, cn_reason = ''x'', cn_total = mk_money 100 KES,
     cn_state = CN_Partially_Applied, cn_issuedAt = Some 0, cn_voidedAt = None, cn_applications = [],
     cn_routings = [\<lparr>cr_movementId = ''m1'', cr_amount = mk_money 60 KES, cr_occurredAt = 0\<rparr>]\<rparr>"

theorem applyCreditNote_refusals_witness:
  "applyCreditNote routed_note ''r1'' (mk_money 50 KES) (\<lambda>_. 0) ''a1'' = throw ''UNDERFLOW''"
proof -
  have "note_ok routed_note"
    by (simp add: routed_note_def note_ok_def note_rows_ok_def note_used_def)
  from applyCreditNote_refusals[OF this, of "mk_money 50 KES" "''r1''" "\<lambda>_. 0" "''a1''"] show ?thesis
    by (simp add: routed_note_def note_used_def)
qed

text \<open>
  Routed excess lands on the customer's credit balance and nowhere else: the movement the
  note hands out is accepted by the balance of the same customer and currency, the balance
  grows by exactly what the note loses, and routing needs consent.
\<close>

theorem excess_moves_to_balance:
  assumes "note_ok note" and "credit_ok b" and "cb_customerId b = cn_customerId note"
    and "cb_currency b = m_currency (cn_total note)" and "cn_id note \<noteq> []"
    and "applyExcessToCreditBalance note amount consent clk mid = Inr (note', m, e)"
  shows "consent \<and> (\<exists>b'. appendMovement b m = Inr b' \<and> credit_ok b' \<and> note_ok note' \<and>
    movements_total (cb_movements b') + note_left note' = movements_total (cb_movements b) + note_left note \<and>
    movements_total (cb_movements b') = movements_total (cb_movements b) + m_amount amount)"
proof -
  note x = applyExcess_Inr[OF assms(1,6)] and y = applyExcess_ok[OF assms(1,6)]
  have sign: "movement_sign m = m_amount amount" using x by (simp add: movement_sign_def)
  have ok: "movement_ok b m" using x assms by (simp add: movement_ok_def isPositive_def)
  have "appendMovement b m = Inr (b\<lparr>cb_movements := cb_movements b @ [m]\<rparr>)"
    using x assms by (simp add: appendMovement_Inr isPositive_def)
  moreover have "credit_ok (b\<lparr>cb_movements := cb_movements b @ [m]\<rparr>)"
    using credit_ok_append[OF assms(2) ok] assms(2) x sign by (simp add: credit_ok_def)
  ultimately show ?thesis using x y sign by simp
qed

theorem excess_moves_to_balance_witness:
  "\<exists>note' m e b'. applyExcessToCreditBalance routed_note (mk_money 40 KES) True (\<lambda>_. 0) ''m2'' = Inr (note', m, e) \<and>
     appendMovement (openCreditBalance ''c1'' KES) m = Inr b' \<and> movements_total (cb_movements b') = 40"
proof -
  have ok: "note_ok routed_note" "credit_ok (openCreditBalance ''c1'' KES)"
    by (simp_all add: routed_note_def note_ok_def note_rows_ok_def note_used_def credit_ok_def openCreditBalance_def)
  obtain note' m e where r: "applyExcessToCreditBalance routed_note (mk_money 40 KES) True (\<lambda>_. 0) ''m2'' = Inr (note', m, e)"
    unfolding applyExcessToCreditBalance_def unappliedOf_ok[OF ok(1)]
    by (simp add: routed_note_def note_used_def compareTo_pos subtract_money_def assertSame_def Let_def)
  from excess_moves_to_balance[OF ok _ _ _ r] r show ?thesis
    by (auto simp: routed_note_def openCreditBalance_def)
qed

end
