(* ===== verification/Refund.thy ===== *)
theory Refund
  imports Credit_Balance
begin

text \<open>
  Refunds (\<open>src/src/domain/adjustments/refund.ts\<close>): a refund is requested under a ceiling,
  approved or rejected, processed under an external reference, completed, or failed and
  retried; its funding rows must add up to its total exactly.
\<close>

section \<open>Data\<close>

datatype refund_state = RF_Requested | RF_Approved | RF_Rejected | RF_Processing | RF_Completed | RF_Failed
datatype refund_source = Confirmed_Funds | From_Credit_Balance

record refund =
  rf_id :: uuid
  rf_paymentId :: uuid
  rf_requestedBy :: string
  rf_reason :: string
  rf_state :: refund_state
  rf_total :: money
  rf_externalRef :: "string option"
  rf_rejectedReason :: "string option"
  rf_failedReason :: "string option"

record refund_input =
  ri_id :: uuid
  ri_paymentId :: uuid
  ri_amount :: money
  ri_reason :: string
  ri_requestedBy :: string

record refund_allocation_input =
  ra_id :: uuid
  ra_source :: refund_source
  ra_amount :: money

record refund_allocation =
  rl_id :: uuid
  rl_refundId :: uuid
  rl_source :: refund_source
  rl_amount :: money

section \<open>Operations\<close>

definition refund_assertState :: "refund \<Rightarrow> refund_state \<Rightarrow> unit result" where
  "refund_assertState r expected = (if rf_state r \<noteq> expected then throw ''REFUND_INVALID_TRANSITION'' else Inr ())"

definition requestRefund :: "refund_input \<Rightarrow> money \<Rightarrow> clock \<Rightarrow> (refund \<times> adjustment_event) result" where
  "requestRefund inp limit clk =
     (if trim (ri_reason inp) = [] then throw ''REFUND_REASON_REQUIRED''
      else if trim (ri_requestedBy inp) = [] then throw ''REFUND_REQUESTER_REQUIRED''
      else if \<not> isPositive (ri_amount inp) then throw ''REFUND_AMOUNT_INVALID''
      else and_then (compareTo (ri_amount inp) limit) (\<lambda>cmp.
        if cmp > 0 then throw ''REFUND_EXCEEDS_CEILING''
        else Inr (\<lparr>rf_id = ri_id inp, rf_paymentId = ri_paymentId inp, rf_requestedBy = ri_requestedBy inp,
            rf_reason = ri_reason inp, rf_state = RF_Requested, rf_total = ri_amount inp, rf_externalRef = None,
            rf_rejectedReason = None, rf_failedReason = None\<rparr>,
          refundRequestedEvent (ri_id inp) (ri_paymentId inp) (m_amount (ri_amount inp)) (ri_reason inp) (clk 0))))"

definition approveRefund :: "refund \<Rightarrow> refund result" where
  "approveRefund r = and_then (refund_assertState r RF_Requested) (\<lambda>_. Inr (r\<lparr>rf_state := RF_Approved\<rparr>))"

definition rejectRefund :: "refund \<Rightarrow> string option \<Rightarrow> refund result" where
  "rejectRefund r reason = and_then (refund_assertState r RF_Requested) (\<lambda>_.
     Inr (r\<lparr>rf_state := RF_Rejected, rf_rejectedReason := reason\<rparr>))"

definition startRefundProcessing :: "refund \<Rightarrow> string \<Rightarrow> refund result" where
  "startRefundProcessing r b2cRef =
     (if trim b2cRef = [] then throw ''REFUND_EXTERNAL_REF_REQUIRED''
      else if rf_state r = RF_Approved then Inr (r\<lparr>rf_state := RF_Processing, rf_externalRef := Some b2cRef\<rparr>)
      else if rf_state r = RF_Failed
        then (if rf_externalRef r = Some b2cRef then throw ''REFUND_EXTERNAL_REF_REUSED''
              else Inr (r\<lparr>rf_state := RF_Processing, rf_externalRef := Some b2cRef\<rparr>))
      else throw ''REFUND_INVALID_TRANSITION'')"

definition completeRefund :: "refund \<Rightarrow> clock \<Rightarrow> (refund \<times> adjustment_event) result" where
  "completeRefund r clk = and_then (refund_assertState r RF_Processing) (\<lambda>_.
     Inr (r\<lparr>rf_state := RF_Completed\<rparr>, refundCompletedEvent (rf_id r) clk))"

definition failRefund :: "refund \<Rightarrow> string option \<Rightarrow> refund result" where
  "failRefund r reason = and_then (refund_assertState r RF_Processing) (\<lambda>_.
     Inr (r\<lparr>rf_state := RF_Failed, rf_failedReason := reason\<rparr>))"

text \<open>The loop of \<open>allocateRefundFunds\<close>: the ids seen so far and the running sum.\<close>

definition refund_row :: "refund \<Rightarrow> uuid set \<times> int \<Rightarrow> refund_allocation_input \<Rightarrow> (uuid set \<times> int) result" where
  "refund_row r acc row = (case acc of (seen, total_so_far) \<Rightarrow>
     if ra_id row \<in> seen then throw ''REFUND_ALLOCATION_ID_DUPLICATE''
     else if \<not> isPositive (ra_amount row) then throw ''REFUND_ALLOCATION_AMOUNT_INVALID''
     else if m_currency (ra_amount row) \<noteq> m_currency (rf_total r) then throw ''CURRENCY_MISMATCH''
     else Inr (insert (ra_id row) seen, total_so_far + m_amount (ra_amount row)))"

definition allocateRefundFunds ::
  "refund \<Rightarrow> refund_allocation_input list \<Rightarrow> bool option \<Rightarrow> refund_allocation list result" where
  "allocateRefundFunds r rows consent =
     (if rows = [] then throw ''REFUND_ALLOCATION_EMPTY''
      else and_then (reduce (refund_row r) ({}, 0) rows) (\<lambda>(_, rowsMinor).
        if rowsMinor \<noteq> m_amount (rf_total r) then throw ''REFUND_ALLOCATION_SUM_MISMATCH''
        else if (\<exists>row \<in> set rows. ra_source row = From_Credit_Balance) \<and> consent \<noteq> Some True then throw ''CONSENT_REQUIRED''
        else Inr (map (\<lambda>row. \<lparr>rl_id = ra_id row, rl_refundId = rf_id r, rl_source = ra_source row, rl_amount = ra_amount row\<rparr>) rows)))"

section \<open>The refund as a machine\<close>

datatype refund_command =
    Approve | Reject "string option" | StartProcessing string | Complete clock | Fail "string option"

fun refund_step :: "refund \<Rightarrow> refund_command \<Rightarrow> refund result" where
  "refund_step r Approve = approveRefund r"
| "refund_step r (Reject reason) = rejectRefund r reason"
| "refund_step r (StartProcessing ref) = startRefundProcessing r ref"
| "refund_step r (Complete clk) = and_then (completeRefund r clk) (\<lambda>(r', _). Inr r')"
| "refund_step r (Fail reason) = failRefund r reason"

text \<open>The edges of the documented state diagram.\<close>

inductive refund_edge :: "refund_state \<Rightarrow> refund_state \<Rightarrow> bool" where
  approve: "refund_edge RF_Requested RF_Approved"
| reject: "refund_edge RF_Requested RF_Rejected"
| start: "refund_edge RF_Approved RF_Processing"
| retry: "refund_edge RF_Failed RF_Processing"
| complete: "refund_edge RF_Processing RF_Completed"
| fail: "refund_edge RF_Processing RF_Failed"

inductive_cases refund_edge_from [elim!]:
  "refund_edge RF_Requested s" "refund_edge RF_Approved s" "refund_edge RF_Rejected s"
  "refund_edge RF_Processing s" "refund_edge RF_Completed s" "refund_edge RF_Failed s"

lemma refund_step_edge:
  assumes "refund_step r c = Inr r'"
  shows "refund_edge (rf_state r) (rf_state r') \<and> rf_id r' = rf_id r \<and> rf_paymentId r' = rf_paymentId r \<and> rf_total r' = rf_total r"
  using assms
  by (cases c) (auto simp: approveRefund_def rejectRefund_def startRefundProcessing_def completeRefund_def failRefund_def
      refund_assertState_def result_simps intro: refund_edge.intros split: if_splits)

interpretation refund_final: absorbing_machine refund_step "\<lambda>r. rf_state r = RF_Completed \<or> rf_state r = RF_Rejected"
  by unfold_locales (metis refund_step_edge refund_edge_from(3,5))

section \<open>Funding rows\<close>

lemma refund_rows_Inr:
  "reduce (refund_row r) (seen, n) rows = Inr (seen', n') \<longleftrightarrow>
     distinct (map ra_id rows) \<and> set (map ra_id rows) \<inter> seen = {} \<and>
     (\<forall>row \<in> set rows. isPositive (ra_amount row) \<and> m_currency (ra_amount row) = m_currency (rf_total r)) \<and>
     seen' = seen \<union> set (map ra_id rows) \<and> n' = n + sum_list (map (\<lambda>row. m_amount (ra_amount row)) rows)"
proof (induction rows arbitrary: seen n)
  case (Cons row rows)
  show ?case
  proof (cases "refund_row r (seen, n) row")
    case (Inr acc)
    then have "acc = (insert (ra_id row) seen, n + m_amount (ra_amount row))" "ra_id row \<notin> seen" "isPositive (ra_amount row)"
      "m_currency (ra_amount row) = m_currency (rf_total r)" by (auto simp: refund_row_def result_simps)
    with Inr Cons show ?thesis by auto
  qed (auto simp: refund_row_def split: if_splits)
qed auto

lemma list_all_conj: "list_all (\<lambda>row. P row \<and> Q row) rows \<longleftrightarrow> (\<forall>row \<in> set rows. P row \<and> Q row)"
  by (simp add: list_all_iff)

lemma no_credit_rows:
  "list_all (\<lambda>row. ra_source row = Confirmed_Funds) rows \<longleftrightarrow> \<not> (\<exists>row \<in> set rows. ra_source row = From_Credit_Balance)"
  unfolding list_all_iff by (metis refund_source.distinct(1) refund_source.exhaust)

text \<open>
  Refund funding is exact: the rows are accepted exactly when there is at least one, their
  ids are distinct, every amount is positive and in the currency of the refund, they add up to
  the refund total to the cent, and a row drawn on the credit balance comes with explicit
  consent; the persisted rows are then those rows.
\<close>

theorem allocateRefundFunds_accepts_iff:
  "(\<exists>out. allocateRefundFunds r rows consent = Inr out) \<longleftrightarrow>
     rows \<noteq> [] \<and> distinct (map ra_id rows) \<and>
     list_all (\<lambda>row. 0 < m_amount (ra_amount row) \<and> m_currency (ra_amount row) = m_currency (rf_total r)) rows \<and>
     sum_list (map (\<lambda>row. m_amount (ra_amount row)) rows) = m_amount (rf_total r) \<and>
     (consent = Some True \<or> list_all (\<lambda>row. ra_source row = Confirmed_Funds) rows)"
proof (cases "reduce (refund_row r) ({}, 0) rows")
  case (Inl e)
  with refund_rows_Inr[of r "{}" 0 rows "set (map ra_id rows)"] show ?thesis
    by (auto simp: allocateRefundFunds_def no_credit_rows list_all_conj isPositive_def)
next
  case (Inr acc)
  moreover obtain seen n where "acc = (seen, n)" by (cases acc)
  ultimately show ?thesis
    using refund_rows_Inr[of r "{}" 0 rows seen n]
    by (auto simp: allocateRefundFunds_def no_credit_rows list_all_conj isPositive_def split: if_splits)
qed

section \<open>Paying out\<close>

fun is_complete :: "refund_command \<Rightarrow> bool" where
  "is_complete (Complete _) = True"
| "is_complete _ = False"

lemma refund_step_complete: "refund_step r c = Inr r' \<Longrightarrow> is_complete c \<longleftrightarrow> rf_state r' = RF_Completed"
  by (cases c) (auto simp: approveRefund_def rejectRefund_def startRefundProcessing_def completeRefund_def failRefund_def
      refund_assertState_def result_simps split: if_splits)

lemma refund_completions:
  "length (filter is_complete (accepted refund_step r cs)) =
     (if rf_state (drive refund_step r cs) = RF_Completed \<and> rf_state r \<noteq> RF_Completed then 1 else 0)"
proof (induction cs arbitrary: r)
  case (Cons c cs)
  show ?case
  proof (cases "refund_step r c")
    case (Inr r')
    then have "rf_state r \<noteq> RF_Completed" using refund_step_edge[OF Inr] by auto
    with Inr Cons.IH[of r'] refund_step_complete[OF Inr] refund_final.drive_terminal[of r' cs] show ?thesis by auto
  qed (use Cons in simp)
qed simp

lemma refund_needs_approval:
  "rf_state r = RF_Requested \<Longrightarrow> rf_state (drive refund_step r cs) = RF_Requested \<or> rf_state (drive refund_step r cs) = RF_Rejected \<or>
     Approve \<in> set (accepted refund_step r cs)"
proof (induction cs)
  case (Cons c cs)
  show ?case
  proof (cases "refund_step r c")
    case (Inr r')
    with Cons.prems have "c = Approve \<or> rf_state r' = RF_Rejected"
      by (cases c) (auto simp: rejectRefund_def startRefundProcessing_def completeRefund_def failRefund_def
          refund_assertState_def result_simps split: if_splits)
    with Inr refund_final.drive_terminal[of r' cs] show ?thesis by auto
  qed (use Cons in simp)
qed simp

interpretation refund_frozen: guarded_machine refund_step
  "\<lambda>r'. rf_total r' = rf_total r \<and> rf_paymentId r' = rf_paymentId r" "\<lambda>_. True" for r
  by unfold_locales (auto dest: refund_step_edge)

text \<open>
  C9. Money leaves at most once, and only with approval (R6): a refund requested under a
  ceiling never exceeds it, keeps its amount and source payment under every sequence of
  commands, is completed by exactly one accepted command if at all, only after an accepted
  approval, and never changes after completion.
\<close>

theorem refund_pays_out_once:
  assumes "requestRefund inp limit clk = Inr (r0, e)" and "r = drive refund_step r0 cmds"
  shows "rf_total r = ri_amount inp \<and> 0 < m_amount (rf_total r) \<and> m_amount (rf_total r) \<le> m_amount limit \<and>
    rf_paymentId r = ri_paymentId inp \<and>
    (rf_state r = RF_Completed \<longrightarrow> Approve \<in> set (accepted refund_step r0 cmds) \<and>
       length (filter is_complete (accepted refund_step r0 cmds)) = 1 \<and> drive refund_step r more_cmds = r) \<and>
    (rf_state r \<noteq> RF_Completed \<longrightarrow> filter is_complete (accepted refund_step r0 cmds) = [])"
proof -
  have r0: "rf_state r0 = RF_Requested" "rf_total r0 = ri_amount inp" "rf_paymentId r0 = ri_paymentId inp"
    "0 < m_amount (ri_amount inp)" "m_amount (ri_amount inp) \<le> m_amount limit"
    using assms(1) by (auto simp: requestRefund_def result_simps isPositive_def compareTo_def split: if_splits)
  have "rf_total r = rf_total r0 \<and> rf_paymentId r = rf_paymentId r0"
    using refund_frozen.drive_inv[of r0 r0 cmds] by (simp add: assms(2))
  then show ?thesis
    using r0 refund_completions[of r0 cmds] refund_needs_approval[OF r0(1), of cmds] refund_final.drive_terminal[of r more_cmds]
    by (auto simp: assms(2) split: if_splits)
qed

definition sample_refund_input :: refund_input where
  "sample_refund_input = \<lparr>ri_id = ''f1'', ri_paymentId = ''p1'', ri_amount = mk_money 300 KES, ri_reason = ''x'', ri_requestedBy = ''ops''\<rparr>"

theorem refund_pays_out_once_witness:
  "\<exists>r0 e. requestRefund sample_refund_input (mk_money 500 KES) (\<lambda>_. 0) = Inr (r0, e) \<and>
     rf_total (drive refund_step r0 [Approve, StartProcessing ''B1'', Complete (\<lambda>_. 0), Complete (\<lambda>_. 0)]) = mk_money 300 KES"
proof -
  obtain r0 e where r: "requestRefund sample_refund_input (mk_money 500 KES) (\<lambda>_. 0) = Inr (r0, e)"
    by (simp add: requestRefund_def sample_refund_input_def trim_no_space is_js_space_def compareTo_def assertSame_def)
  from refund_pays_out_once[OF r refl, of "[Approve, StartProcessing ''B1'', Complete (\<lambda>_. 0), Complete (\<lambda>_. 0)]"] r
  show ?thesis by (auto simp: sample_refund_input_def)
qed

text \<open>
  A retry is only compared with the last external reference: a failed refund refuses the
  reference of the attempt that just failed, but after a second attempt under another
  reference it accepts the first one again.
\<close>

theorem refund_retry_reference:
  assumes "rf_state r = RF_Requested" and "trim a \<noteq> []" and "trim b \<noteq> []" and "a \<noteq> b"
  shows "let cmds = [Approve, StartProcessing a, Fail None, StartProcessing a, StartProcessing b, Fail None, StartProcessing a]
    in accepted refund_step r cmds = [Approve, StartProcessing a, Fail None, StartProcessing b, Fail None, StartProcessing a] \<and>
       rf_externalRef (drive refund_step r cmds) = Some a \<and> rf_state (drive refund_step r cmds) = RF_Processing"
  using assms by (simp add: approveRefund_def startRefundProcessing_def failRefund_def refund_assertState_def)

theorem refund_retry_reference_witness:
  "\<exists>r0 e. requestRefund sample_refund_input (mk_money 500 KES) (\<lambda>_. 0) = Inr (r0, e) \<and>
     rf_externalRef (drive refund_step r0 [Approve, StartProcessing ''B1'', Fail None, StartProcessing ''B1'',
       StartProcessing ''B2'', Fail None, StartProcessing ''B1'']) = Some ''B1''"
proof -
  obtain r0 e where r: "requestRefund sample_refund_input (mk_money 500 KES) (\<lambda>_. 0) = Inr (r0, e)" "rf_state r0 = RF_Requested"
    by (simp add: requestRefund_def sample_refund_input_def trim_no_space is_js_space_def compareTo_def assertSame_def)
  have "trim ''B1'' \<noteq> []" "trim ''B2'' \<noteq> []" by (simp_all add: trim_no_space is_js_space_def)
  from refund_retry_reference[OF r(2) this] r(1) show ?thesis by (auto simp: Let_def)
qed

end
