(* ===== verification/Ledger.thy ===== *)
theory Ledger
  imports Money Ids Formats Contracts
begin

text \<open>
  The sub-ledger (\<open>src/src/domain/ledger\<close>): the closed chart of accounts and balanced journal
  lines (\<open>accounts.ts\<close>), the posting matrix (\<open>matrix.ts\<close>), idempotent posting and
  reversal of journal entries (\<open>journal.ts\<close>) and the events of the lane (\<open>events.ts\<close>).
\<close>

section \<open>Accounts and lines\<close>

text \<open>\<open>Other...\<close> values reach the runtime guards from untyped callers.\<close>

datatype account = AR_CONTROL | CASH | REVENUE | REVENUE_CONTRA | SALES_REFUNDS | BAD_DEBT_EXPENSE | OTHER_INCOME
  | OtherAccount string

datatype posting_direction = DEBIT | CREDIT | OtherDirection string

definition ACCOUNTS :: "account list" where
  "ACCOUNTS = [AR_CONTROL, CASH, REVENUE, REVENUE_CONTRA, SALES_REFUNDS, BAD_DEBT_EXPENSE, OTHER_INCOME]"

definition isAccount :: "account \<Rightarrow> bool" where
  "isAccount a \<longleftrightarrow> a \<in> set ACCOUNTS"

definition isPostingDirection :: "posting_direction \<Rightarrow> bool" where
  "isPostingDirection d \<longleftrightarrow> d = DEBIT \<or> d = CREDIT"

record journal_line =
  jl_account :: account
  jl_direction :: posting_direction
  jl_amountMinor :: int
  jl_currency :: currency

record journal_line_input =
  li_account :: account
  li_direction :: posting_direction
  li_amountMinor :: money_input
  li_currency :: currency

fun safe_minor :: "money_input \<Rightarrow> string \<Rightarrow> int result" where
  "safe_minor (NumberIn x) code = (if \<not> is_safe_integer x then throw code else bigint_of x)"
| "safe_minor (BigIntIn v) code = Inr v"

definition toJournalLine :: "journal_line_input \<Rightarrow> journal_line result" where
  "toJournalLine inp =
     (if \<not> isAccount (li_account inp) then throw ''LEDGER_ACCOUNT_UNKNOWN''
      else if \<not> isPostingDirection (li_direction inp) then throw ''LEDGER_DIRECTION_INVALID''
      else and_then (safe_minor (li_amountMinor inp) ''LEDGER_AMOUNT_NOT_INTEGER'') (\<lambda>amount.
        if amount < 0 then throw ''LEDGER_AMOUNT_NEGATIVE''
        else if amount = 0 then throw ''LEDGER_AMOUNT_ZERO''
        else Inr \<lparr>jl_account = li_account inp, jl_direction = li_direction inp, jl_amountMinor = amount,
          jl_currency = li_currency inp\<rparr>))"

text \<open>One round of the loop of \<open>assertBalanced\<close>: debits and credits so far.\<close>

definition balance_line :: "currency \<Rightarrow> int \<times> int \<Rightarrow> journal_line \<Rightarrow> (int \<times> int) result" where
  "balance_line c acc l = (case acc of (debits, credits) \<Rightarrow>
     if jl_currency l \<noteq> c then throw ''CURRENCY_MISMATCH''
     else if jl_direction l = DEBIT then Inr (debits + jl_amountMinor l, credits)
     else Inr (debits, credits + jl_amountMinor l))"

definition assertBalanced :: "journal_line list \<Rightarrow> unit result" where
  "assertBalanced ls =
     (if ls = [] then throw ''LEDGER_ENTRY_EMPTY''
      else and_then (reduce (balance_line (jl_currency (hd ls))) (0, 0) ls) (\<lambda>(debits, credits).
        if debits \<noteq> credits then throw ''LEDGER_ENTRY_UNBALANCED''
        else if card (set (map jl_account ls)) < 2 then throw ''LEDGER_ENTRY_SELF_CANCELING''
        else Inr ()))"

definition line_effect :: "account \<Rightarrow> journal_line \<Rightarrow> int" where
  "line_effect a l = (if jl_account l \<noteq> a then 0
     else if jl_direction l = DEBIT then jl_amountMinor l else - jl_amountMinor l)"

definition account_name :: "account \<Rightarrow> string" where
  "account_name a = (case a of AR_CONTROL \<Rightarrow> ''AR_CONTROL'' | CASH \<Rightarrow> ''CASH'' | REVENUE \<Rightarrow> ''REVENUE''
     | REVENUE_CONTRA \<Rightarrow> ''REVENUE_CONTRA'' | SALES_REFUNDS \<Rightarrow> ''SALES_REFUNDS'' | BAD_DEBT_EXPENSE \<Rightarrow> ''BAD_DEBT_EXPENSE''
     | OTHER_INCOME \<Rightarrow> ''OTHER_INCOME'' | OtherAccount s \<Rightarrow> s)"

definition describeLine :: "journal_line \<Rightarrow> string" where
  "describeLine l =
     (if jl_direction l = DEBIT then ''Dr'' else ''Cr'') @ '' '' @ account_name (jl_account l) @ '' '' @
     int_to_string (bdiv (jl_amountMinor l) 100) @ ''.'' @ pad_start 2 (CHR ''0'') (int_to_string (bmod (jl_amountMinor l) 100)) @
     '' '' @ currency_code (jl_currency l)"

definition assertEntryId :: "uuid \<Rightarrow> unit result" where
  "assertEntryId value = (if \<not> UUID_PATTERN value then throw ''LEDGER_ID_INVALID'' else Inr ())"

section \<open>Entries and events\<close>

datatype entry_status = POSTED | REVERSED

record journal_entry =
  je_entryId :: uuid
  je_orgId :: string
  je_occurredAt :: string
  je_postedAt :: string
  je_sourceEventName :: string
  je_sourceEventId :: uuid
  je_reference :: string
  je_actor :: string
  je_status :: entry_status
  je_lines :: "journal_line list"
  je_reversalOf :: "uuid option"
  je_reason :: "string option"
  je_reversedBy :: "uuid option"

definition accountBalanceMinor :: "journal_entry list \<Rightarrow> account \<Rightarrow> int" where
  "accountBalanceMinor entries a =
     foldl (\<lambda>net entry. foldl (\<lambda>lineNet l. lineNet + line_effect a l) net (je_lines entry)) 0 entries"

datatype ledger_payload =
    EntryPosted uuid string string uuid js_num currency entry_status "uuid option"
  | EntryReversed uuid uuid string string string
  | ReconciliationDriftDetected uuid string string currency js_num js_num js_num nat nat
  | ReconciliationMatched uuid string string currency js_num nat nat

type_synonym ledger_event = "(ledger_payload, string) domain_event"

definition minorUnits :: "int \<Rightarrow> js_num result" where
  "minorUnits amount = (let value = number_of amount in
     if \<not> is_safe_integer value then throw ''LEDGER_AMOUNT_NOT_SAFE_INTEGER'' else Inr value)"

definition ledger_emit :: "string \<Rightarrow> uuid \<Rightarrow> ledger_payload \<Rightarrow> date \<Rightarrow> ledger_event" where
  "ledger_emit name aggregateId payload now =
     \<lparr>ev_name = name, ev_version = 1, ev_aggregateId = aggregateId, ev_payload = payload, ev_occurredAt = toISOString now\<rparr>"

definition entryPostedEvent :: "journal_entry \<Rightarrow> date \<Rightarrow> ledger_event result" where
  "entryPostedEvent e now =
     and_then (minorUnits (jl_amountMinor (hd (je_lines e)))) (\<lambda>amountMinor.
       Inr (ledger_emit ''ledger.entryPosted'' (je_entryId e)
         (EntryPosted (je_entryId e) (je_orgId e) (je_sourceEventName e) (je_sourceEventId e) amountMinor
           (jl_currency (hd (je_lines e))) (je_status e) (je_reversalOf e)) now))"

definition entryReversedEvent :: "uuid \<Rightarrow> uuid \<Rightarrow> string \<Rightarrow> string \<Rightarrow> clock \<Rightarrow> ledger_event" where
  "entryReversedEvent entryId reversalEntryId reason actor clk =
     ledger_emit ''ledger.entryReversed'' entryId
       (EntryReversed entryId reversalEntryId reason actor (toISOString (clk 0))) (clk 1)"

section \<open>The posting matrix\<close>

record money_movement =
  mv_name :: string
  mv_sourceEventId :: uuid
  mv_orgId :: string
  mv_occurredAt :: string
  mv_amountMinor :: money_input
  mv_currency :: currency
  mv_reference :: string
  mv_actor :: string

definition POSTING_MATRIX :: "string \<Rightarrow> (account \<times> account) option" where
  "POSTING_MATRIX name =
     map_of [(''invoicing.invoiceIssued'', (AR_CONTROL, REVENUE)),
             (''payments.paymentCompleted'', (CASH, AR_CONTROL)),
             (''adjustments.creditNoteApplied'', (REVENUE_CONTRA, AR_CONTROL)),
             (''adjustments.refundCompleted'', (SALES_REFUNDS, CASH)),
             (''receivables.writeOffApproved'', (BAD_DEBT_EXPENSE, AR_CONTROL)),
             (''receivables.lateFeeAssessed'', (AR_CONTROL, OTHER_INCOME))] name"

definition isPostableEvent :: "string \<Rightarrow> bool" where
  "isPostableEvent name \<longleftrightarrow> POSTING_MATRIX name \<noteq> None"

section \<open>Posting\<close>

definition assertIso :: "string \<Rightarrow> unit result" where
  "assertIso value = (if \<not> ISO_PATTERN value \<or> \<not> valid_date value then throw ''LEDGER_OCCURRED_AT_INVALID'' else Inr ())"

definition assertNonBlank :: "string \<Rightarrow> string \<Rightarrow> string result" where
  "assertNonBlank value code = (let trimmed = trim value in if trimmed = [] then throw code else Inr trimmed)"

definition movementMinor :: "money_input \<Rightarrow> int result" where
  "movementMinor amount = and_then (safe_minor amount ''LEDGER_AMOUNT_NOT_INTEGER'') (\<lambda>minor.
     if minor \<le> 0 then throw ''LEDGER_AMOUNT_INVALID'' else Inr minor)"

definition ledger_assertCurrency :: "currency \<Rightarrow> currency result" where
  "ledger_assertCurrency c = (if c \<notin> set CURRENCIES then throw ''LEDGER_CURRENCY_INVALID'' else Inr c)"

definition findPostedEntry :: "journal_entry list \<Rightarrow> string \<Rightarrow> uuid \<Rightarrow> journal_entry option" where
  "findPostedEntry ledger orgId sourceEventId =
     find (\<lambda>e. je_orgId e = orgId \<and> je_sourceEventId e = sourceEventId) ledger"

definition assertSameMovement :: "journal_entry \<Rightarrow> money_movement \<Rightarrow> unit result" where
  "assertSameMovement e ev =
     and_then (if je_sourceEventName e \<noteq> mv_name ev \<or> je_occurredAt e \<noteq> mv_occurredAt ev \<or> length (je_lines e) \<noteq> 2
       then Inr True
       else and_then (movementMinor (mv_amountMinor ev)) (\<lambda>minor.
         Inr (jl_amountMinor (je_lines e ! 0) \<noteq> minor \<or> jl_currency (je_lines e ! 0) \<noteq> mv_currency ev))) (\<lambda>drift.
     if drift then throw ''LEDGER_IDEMPOTENCY_CONFLICT'' else Inr ())"

datatype post_outcome = Posted | Already_Posted

text \<open>\<open>PostResult\<close>: the outcome, the entry and the events emitted.\<close>

type_synonym post_result = "post_outcome \<times> journal_entry \<times> ledger_event list"

definition journal_entry_id :: "uuid option \<Rightarrow> string \<Rightarrow> uuid \<Rightarrow> uuid result" where
  "journal_entry_id entryId orgId sourceEventId = (case entryId of Some i \<Rightarrow> Inr i
     | None \<Rightarrow> uuidFromSeed (''ledger.entry:'' @ orgId @ '':'' @ sourceEventId))"

definition post :: "money_movement \<Rightarrow> journal_entry list \<Rightarrow> clock \<Rightarrow> uuid option \<Rightarrow> post_result result" where
  "post ev ledger clk entryId = (case POSTING_MATRIX (mv_name ev) of
       None \<Rightarrow> throw ''LEDGER_EVENT_NOT_POSTABLE''
     | Some (debit, credit) \<Rightarrow>
     and_then (assertEntryId (mv_sourceEventId ev)) (\<lambda>_.
     and_then (assertNonBlank (mv_orgId ev) ''LEDGER_ORG_REQUIRED'') (\<lambda>orgId.
     and_then (assertNonBlank (mv_reference ev) ''LEDGER_REFERENCE_REQUIRED'') (\<lambda>reference.
     and_then (assertNonBlank (mv_actor ev) ''LEDGER_ACTOR_REQUIRED'') (\<lambda>actor.
     and_then (assertIso (mv_occurredAt ev)) (\<lambda>_.
     and_then (movementMinor (mv_amountMinor ev)) (\<lambda>amountMinor.
     and_then (ledger_assertCurrency (mv_currency ev)) (\<lambda>c.
     case findPostedEntry ledger orgId (mv_sourceEventId ev) of
       Some existing \<Rightarrow> and_then (assertSameMovement existing ev) (\<lambda>_. Inr (Already_Posted, existing, []))
     | None \<Rightarrow>
       and_then (toJournalLine \<lparr>li_account = debit, li_direction = DEBIT, li_amountMinor = BigIntIn amountMinor, li_currency = c\<rparr>) (\<lambda>dr.
       and_then (toJournalLine \<lparr>li_account = credit, li_direction = CREDIT, li_amountMinor = BigIntIn amountMinor, li_currency = c\<rparr>) (\<lambda>cr.
       and_then (assertBalanced [dr, cr]) (\<lambda>_.
       and_then (journal_entry_id entryId orgId (mv_sourceEventId ev)) (\<lambda>newId.
         let entry = \<lparr>je_entryId = newId, je_orgId = orgId, je_occurredAt = mv_occurredAt ev, je_postedAt = toISOString (clk 0),
               je_sourceEventName = mv_name ev, je_sourceEventId = mv_sourceEventId ev, je_reference = reference, je_actor = actor,
               je_status = POSTED, je_lines = [dr, cr], je_reversalOf = None, je_reason = None, je_reversedBy = None\<rparr>
         in and_then (entryPostedEvent entry (clk 1)) (\<lambda>e. Inr (Posted, entry, [e]))))))))))))))"

record post_entry_input =
  pe_entryId :: "uuid option"
  pe_orgId :: string
  pe_occurredAt :: string
  pe_sourceEventName :: string
  pe_sourceEventId :: uuid
  pe_reference :: string
  pe_actor :: string
  pe_lines :: "journal_line_input list"

text \<open>\<open>sameLines\<close> compares the four fields of every line, which is equality of the lists.\<close>

definition sameLines :: "journal_line list \<Rightarrow> journal_line list \<Rightarrow> bool" where
  "sameLines a b \<longleftrightarrow> length a = length b \<and> list_all2 (\<lambda>x y. jl_account y = jl_account x \<and> jl_direction y = jl_direction x \<and>
     jl_amountMinor y = jl_amountMinor x \<and> jl_currency y = jl_currency x) a b"

definition postEntry :: "post_entry_input \<Rightarrow> journal_entry list \<Rightarrow> clock \<Rightarrow> post_result result" where
  "postEntry inp ledger clk =
     and_then (assertEntryId (pe_sourceEventId inp)) (\<lambda>_.
     and_then (assertNonBlank (pe_orgId inp) ''LEDGER_ORG_REQUIRED'') (\<lambda>orgId.
     and_then (assertNonBlank (pe_reference inp) ''LEDGER_REFERENCE_REQUIRED'') (\<lambda>reference.
     and_then (assertNonBlank (pe_actor inp) ''LEDGER_ACTOR_REQUIRED'') (\<lambda>actor.
     and_then (assertIso (pe_occurredAt inp)) (\<lambda>_.
     if trim (pe_sourceEventName inp) = [] then throw ''LEDGER_SOURCE_EVENT_REQUIRED''
     else and_then (traverse toJournalLine (pe_lines inp)) (\<lambda>ls.
       and_then (assertBalanced ls) (\<lambda>_.
       case findPostedEntry ledger orgId (pe_sourceEventId inp) of
         Some existing \<Rightarrow>
           if je_sourceEventName existing = pe_sourceEventName inp \<and> je_occurredAt existing = pe_occurredAt inp \<and>
              sameLines (je_lines existing) ls
           then Inr (Already_Posted, existing, []) else throw ''LEDGER_IDEMPOTENCY_CONFLICT''
       | None \<Rightarrow>
         and_then (journal_entry_id (pe_entryId inp) orgId (pe_sourceEventId inp)) (\<lambda>newId.
           let entry = \<lparr>je_entryId = newId, je_orgId = orgId, je_occurredAt = pe_occurredAt inp, je_postedAt = toISOString (clk 0),
                 je_sourceEventName = pe_sourceEventName inp, je_sourceEventId = pe_sourceEventId inp, je_reference = reference,
                 je_actor = actor, je_status = POSTED, je_lines = ls, je_reversalOf = None, je_reason = None, je_reversedBy = None\<rparr>
           in and_then (entryPostedEvent entry (clk 1)) (\<lambda>e. Inr (Posted, entry, [e]))))))))))"

record reverse_entry_input =
  rv_entryId :: "uuid option"
  rv_reason :: string
  rv_actor :: string
  rv_reference :: "string option"

definition flip_line :: "journal_line \<Rightarrow> journal_line" where
  "flip_line l = (if jl_direction l = DEBIT then l\<lparr>jl_direction := CREDIT\<rparr> else l\<lparr>jl_direction := DEBIT\<rparr>)"

text \<open>The new version of the original, the reversing entry, and the two events.\<close>

definition reverseEntry ::
  "journal_entry \<Rightarrow> reverse_entry_input \<Rightarrow> clock \<Rightarrow> (journal_entry \<times> journal_entry \<times> ledger_event list) result" where
  "reverseEntry original inp clk =
     and_then (assertNonBlank (rv_reason inp) ''REVERSAL_REASON_REQUIRED'') (\<lambda>reason.
     and_then (assertNonBlank (rv_actor inp) ''LEDGER_ACTOR_REQUIRED'') (\<lambda>actor.
     if je_reversalOf original \<noteq> None then throw ''LEDGER_REVERSAL_OF_REVERSAL''
     else if je_status original \<noteq> POSTED then throw ''LEDGER_ENTRY_NOT_REVERSIBLE''
     else and_then (case rv_entryId inp of Some i \<Rightarrow> Inr i | None \<Rightarrow> uuidFromSeed (''ledger.reversal:'' @ je_entryId original)) (\<lambda>reversalId.
       let ls = map flip_line (je_lines original) in
       and_then (assertBalanced ls) (\<lambda>_.
         let reversal = \<lparr>je_entryId = reversalId, je_orgId = je_orgId original, je_occurredAt = toISOString (clk 0),
               je_postedAt = toISOString (clk 1), je_sourceEventName = ''ledger.entryReversed'', je_sourceEventId = reversalId,
               je_reference = (case rv_reference inp of None \<Rightarrow> je_reference original
                 | Some r \<Rightarrow> if trim r = [] then je_reference original else trim r),
               je_actor = actor, je_status = POSTED, je_lines = ls, je_reversalOf = Some (je_entryId original),
               je_reason = Some reason, je_reversedBy = None\<rparr>
         in and_then (entryPostedEvent reversal (clk 2)) (\<lambda>posted.
           Inr (original\<lparr>je_status := REVERSED, je_reversedBy := Some reversalId\<rparr>, reversal,
             [posted, entryReversedEvent (je_entryId original) reversalId reason actor (clock_after 3 clk)]))))))"

definition arControlBalanceMinor :: "journal_entry list \<Rightarrow> int" where
  "arControlBalanceMinor entries = accountBalanceMinor entries AR_CONTROL"

section \<open>Balanced entries\<close>

definition line_net :: "journal_line \<Rightarrow> int" where
  "line_net l = (if jl_direction l = DEBIT then jl_amountMinor l else - jl_amountMinor l)"

definition lines_net :: "journal_line list \<Rightarrow> int" where
  "lines_net ls = sum_list (map line_net ls)"

definition single_currency :: "journal_line list \<Rightarrow> bool" where
  "single_currency ls \<longleftrightarrow> (\<forall>l \<in> set ls. jl_currency l = jl_currency (hd ls))"

definition entry_ok :: "journal_entry \<Rightarrow> bool" where
  "entry_ok e \<longleftrightarrow> je_lines e \<noteq> [] \<and> lines_net (je_lines e) = 0 \<and> 2 \<le> card (set (map jl_account (je_lines e))) \<and>
     single_currency (je_lines e) \<and>
     (\<forall>l \<in> set (je_lines e). isAccount (jl_account l) \<and> isPostingDirection (jl_direction l) \<and> 0 < jl_amountMinor l)"

lemma reduce_balance_line:
  "reduce (balance_line c) (d, k) ls = Inr (d', k') \<longleftrightarrow>
     (\<forall>l \<in> set ls. jl_currency l = c) \<and> d' - k' = d - k + lines_net ls \<and>
     d' = d + sum_list (map (\<lambda>l. if jl_direction l = DEBIT then jl_amountMinor l else 0) ls)"
proof (induction ls arbitrary: d k)
  case (Cons l ls)
  then show ?case by (auto simp: balance_line_def lines_net_def line_net_def)
qed (auto simp: lines_net_def)

lemma assertBalanced_Inr:
  "assertBalanced ls = Inr u \<longleftrightarrow> ls \<noteq> [] \<and> single_currency ls \<and> lines_net ls = 0 \<and> 2 \<le> card (set (map jl_account ls))"
proof -
  define c where "c = jl_currency (hd ls)"
  define d where "d = sum_list (map (\<lambda>l. if jl_direction l = DEBIT then jl_amountMinor l else 0) ls)"
  have "reduce (balance_line c) (0, 0) ls = Inr (d, d - lines_net ls)" if "\<forall>l \<in> set ls. jl_currency l = c"
    using that by (simp add: reduce_balance_line d_def)
  moreover have "\<exists>e. reduce (balance_line c) (0, 0) ls = Inl e" if "\<not> (\<forall>l \<in> set ls. jl_currency l = c)"
    using that reduce_balance_line[of c 0 0 ls] by (cases "reduce (balance_line c) (0, 0) ls") auto
  ultimately show ?thesis
    unfolding assertBalanced_def single_currency_def c_def[symmetric] by (cases "\<forall>l \<in> set ls. jl_currency l = c") (auto simp: not_less)
qed

lemma toJournalLine_Inr:
  "toJournalLine inp = Inr l \<Longrightarrow> isAccount (jl_account l) \<and> isPostingDirection (jl_direction l) \<and> 0 < jl_amountMinor l \<and>
     jl_account l = li_account inp \<and> jl_direction l = li_direction inp \<and> jl_currency l = li_currency inp"
  by (auto simp: toJournalLine_def result_simps)

lemma matrix_accounts: "POSTING_MATRIX name = Some (dr, cr) \<Longrightarrow> isAccount dr \<and> isAccount cr \<and> dr \<noteq> cr"
  by (auto simp: POSTING_MATRIX_def isAccount_def ACCOUNTS_def split: if_splits)

text \<open>The entry the matrix posts for a movement.\<close>

definition matrix_entry :: "money_movement \<Rightarrow> int \<Rightarrow> account \<Rightarrow> account \<Rightarrow> journal_entry \<Rightarrow> bool" where
  "matrix_entry ev amount dr cr e \<longleftrightarrow> je_orgId e = trim (mv_orgId ev) \<and> je_sourceEventId e = mv_sourceEventId ev \<and>
     je_sourceEventName e = mv_name ev \<and> je_occurredAt e = mv_occurredAt ev \<and> je_status e = POSTED \<and> je_reversalOf e = None \<and>
     je_lines e = [\<lparr>jl_account = dr, jl_direction = DEBIT, jl_amountMinor = amount, jl_currency = mv_currency ev\<rparr>,
       \<lparr>jl_account = cr, jl_direction = CREDIT, jl_amountMinor = amount, jl_currency = mv_currency ev\<rparr>]"

lemma matrix_entry_ok:
  assumes "matrix_entry ev amount dr cr e" and "POSTING_MATRIX name = Some (dr, cr)" and "0 < amount"
  shows "entry_ok e"
  using assms matrix_accounts[OF assms(2)]
  by (simp add: matrix_entry_def entry_ok_def single_currency_def lines_net_def line_net_def isPostingDirection_def)

lemma post_guards:
  assumes "post ev ledger clk i = Inr (out, e, evs)"
  obtains dr cr amount where "POSTING_MATRIX (mv_name ev) = Some (dr, cr)" and "movementMinor (mv_amountMinor ev) = Inr amount"
    and "0 < amount" and "assertEntryId (mv_sourceEventId ev) = Inr ()" and "trim (mv_orgId ev) \<noteq> []"
    and "trim (mv_reference ev) \<noteq> []" and "trim (mv_actor ev) \<noteq> []" and "assertIso (mv_occurredAt ev) = Inr ()"
    and "mv_currency ev \<in> set CURRENCIES"
proof -
  from assms obtain dr cr where m: "POSTING_MATRIX (mv_name ev) = Some (dr, cr)"
    by (auto simp: post_def split: option.splits)
  with assms show thesis
    by (auto simp: post_def result_simps assertNonBlank_def ledger_assertCurrency_def movementMinor_def Let_def intro: that)
qed

lemma post_Inr:
  assumes "post ev ledger clk i = Inr (out, e, evs)" and "POSTING_MATRIX (mv_name ev) = Some (dr, cr)"
    and "movementMinor (mv_amountMinor ev) = Inr amount"
  shows "case findPostedEntry ledger (trim (mv_orgId ev)) (mv_sourceEventId ev) of
      Some x \<Rightarrow> out = Already_Posted \<and> e = x \<and> evs = [] \<and> assertSameMovement x ev = Inr ()
    | None \<Rightarrow> out = Posted \<and> matrix_entry ev amount dr cr e \<and> length evs = 1"
  using assms
  by (auto simp: post_def result_simps assertNonBlank_def ledger_assertCurrency_def toJournalLine_def matrix_entry_def Let_def
      split: option.splits)

lemma postEntry_Inr:
  assumes "postEntry inp ledger clk = Inr (out, e, evs)"
  shows "case findPostedEntry ledger (trim (pe_orgId inp)) (pe_sourceEventId inp) of
      Some x \<Rightarrow> out = Already_Posted \<and> e = x \<and> evs = []
    | None \<Rightarrow> out = Posted \<and> je_orgId e = trim (pe_orgId inp) \<and> je_sourceEventId e = pe_sourceEventId inp \<and> entry_ok e \<and> length evs = 1"
proof -
  from assms obtain ls where ls: "traverse toJournalLine (pe_lines inp) = Inr ls" "assertBalanced ls = Inr ()"
    by (auto simp: postEntry_def result_simps)
  then have ok: "\<forall>l \<in> set ls. isAccount (jl_account l) \<and> isPostingDirection (jl_direction l) \<and> 0 < jl_amountMinor l"
    by (auto simp: traverse_Inr_iff list_all2_conv_all_nth in_set_conv_nth dest!: toJournalLine_Inr)
  show ?thesis
    using assms ls ok
    by (auto simp: postEntry_def result_simps assertNonBlank_def assertBalanced_Inr entry_ok_def Let_def
        split: option.splits if_splits)
qed

section \<open>The journal as a log\<close>

lemma find_append_None: "find P xs = None \<Longrightarrow> find P (xs @ ys) = find P ys"
  by (induction xs) (auto split: if_splits)

datatype ledger_command = PostMovement money_movement clock "uuid option" | PostLines post_entry_input clock

fun ledger_post :: "journal_entry list \<Rightarrow> ledger_command \<Rightarrow> post_result result" where
  "ledger_post ledger (PostMovement ev clk i) = post ev ledger clk i"
| "ledger_post ledger (PostLines inp clk) = postEntry inp ledger clk"

definition ledger_submit :: "journal_entry list \<Rightarrow> ledger_command \<Rightarrow> js_error + journal_entry \<times> bool" where
  "ledger_submit ledger c = and_then (ledger_post ledger c) (\<lambda>(out, e, _). Inr (e, out = Already_Posted))"

definition same_source :: "journal_entry \<Rightarrow> journal_entry \<Rightarrow> bool" where
  "same_source x y \<longleftrightarrow> je_orgId x = je_orgId y \<and> je_sourceEventId x = je_sourceEventId y"

lemma findPostedEntry_Some: "findPostedEntry ledger org i = Some x \<Longrightarrow> x \<in> set ledger \<and> je_orgId x = org \<and> je_sourceEventId x = i"
  by (auto simp: findPostedEntry_def dest: find_SomeD)

lemma findPostedEntry_None: "findPostedEntry ledger org i = None \<Longrightarrow> x \<in> set ledger \<Longrightarrow> \<not> (je_orgId x = org \<and> je_sourceEventId x = i)"
  by (auto simp: findPostedEntry_def find_None_iff)

lemma ledger_post_Inr:
  assumes "ledger_post ledger c = Inr (out, e, evs)"
  shows "if out = Already_Posted then e \<in> set ledger \<and> evs = []
    else entry_ok e \<and> (\<forall>x \<in> set ledger. \<not> same_source x e) \<and> length evs = 1"
proof (cases c)
  case (PostMovement ev clk i)
  with assms have p: "post ev ledger clk i = Inr (out, e, evs)" by simp
  from post_guards[OF p] obtain dr cr amount where m: "POSTING_MATRIX (mv_name ev) = Some (dr, cr)"
    "movementMinor (mv_amountMinor ev) = Inr amount" "0 < amount" .
  from post_Inr[OF p m(1,2)] matrix_entry_ok[OF _ m(1,3)] show ?thesis
    by (auto simp: same_source_def matrix_entry_def split: option.splits dest: findPostedEntry_Some findPostedEntry_None)
next
  case (PostLines inp clk)
  with assms have p: "postEntry inp ledger clk = Inr (out, e, evs)" by simp
  from postEntry_Inr[OF p] show ?thesis
    by (auto simp: same_source_def split: option.splits dest: findPostedEntry_Some findPostedEntry_None)
qed

lemma ledger_submit_Inr:
  assumes "ledger_submit ledger c = Inr (e, dup)"
  shows "if dup then e \<in> set ledger else entry_ok e \<and> (\<forall>x \<in> set ledger. \<not> same_source x e)"
proof -
  from assms obtain out evs where "ledger_post ledger c = Inr (out, e, evs)" "dup \<longleftrightarrow> out = Already_Posted"
    by (auto simp: ledger_submit_def result_simps)
  with ledger_post_Inr show ?thesis by fastforce
qed

interpretation journal: idempotent_log ledger_submit same_source
proof (unfold_locales, goal_cases)
  case (1 known c e)
  from ledger_submit_Inr[OF 1] show ?case by simp
next
  case (2 known c e x)
  from ledger_submit_Inr[OF 2(1)] 2(2) show ?case by simp
qed

lemma ledger_feed_ok: "list_all entry_ok ledger \<Longrightarrow> list_all entry_ok (feed ledger_submit ledger cs)"
  by (rule feed_forall) (auto dest: ledger_submit_Inr)

section \<open>Balances\<close>

lemma accountBalanceMinor_sum:
  "accountBalanceMinor es a = sum_list (map (\<lambda>e. sum_list (map (line_effect a) (je_lines e))) es)"
proof -
  have "foldl (\<lambda>net e. foldl (\<lambda>lineNet l. lineNet + line_effect a l) net (je_lines e)) n es =
    n + sum_list (map (\<lambda>e. sum_list (map (line_effect a) (je_lines e))) es)" for n
    by (induction es arbitrary: n) (simp_all add: foldl_plus_sum_list)
  then show ?thesis by (simp add: accountBalanceMinor_def)
qed

lemma line_effect_total: "isAccount (jl_account l) \<Longrightarrow> sum_list (map (\<lambda>a. line_effect a l) ACCOUNTS) = line_net l"
  by (auto simp: isAccount_def ACCOUNTS_def line_effect_def line_net_def)

lemma sum_list_swap:
  fixes f :: "'a \<Rightarrow> 'b \<Rightarrow> int"
  shows "sum_list (map (\<lambda>a. sum_list (map (f a) ys)) xs) = sum_list (map (\<lambda>y. sum_list (map (\<lambda>a. f a y) xs)) ys)"
  by (induction xs) (simp_all add: sum_list_addf)

lemma entry_effect_total:
  assumes "entry_ok e"
  shows "sum_list (map (\<lambda>a. sum_list (map (line_effect a) (je_lines e))) ACCOUNTS) = 0"
proof -
  have "map (\<lambda>l. sum_list (map (\<lambda>a. line_effect a l) ACCOUNTS)) (je_lines e) = map line_net (je_lines e)"
    using assms by (intro map_cong) (auto simp: entry_ok_def line_effect_total)
  then have "sum_list (map (\<lambda>l. sum_list (map (\<lambda>a. line_effect a l) ACCOUNTS)) (je_lines e)) = lines_net (je_lines e)"
    by (simp only: lines_net_def)
  then show ?thesis unfolding sum_list_swap[of line_effect] using assms by (simp only: entry_ok_def)
qed

lemma trial_balance_zero:
  assumes "list_all entry_ok es"
  shows "sum_list (map (accountBalanceMinor es) ACCOUNTS) = 0"
proof -
  have "sum_list (map (accountBalanceMinor es) ACCOUNTS) =
    sum_list (map (\<lambda>e. sum_list (map (\<lambda>a. sum_list (map (line_effect a) (je_lines e))) ACCOUNTS)) es)"
    unfolding accountBalanceMinor_sum by (rule sum_list_swap)
  also have "map (\<lambda>e. sum_list (map (\<lambda>a. sum_list (map (line_effect a) (je_lines e))) ACCOUNTS)) es = map (\<lambda>_. 0) es"
    using assms by (intro map_cong) (auto simp: list_all_iff entry_effect_total)
  finally show ?thesis by simp
qed

lemma flip_line_effect:
  "isPostingDirection (jl_direction l) \<Longrightarrow> line_effect a (flip_line l) = - line_effect a l"
  by (auto simp: flip_line_def line_effect_def isPostingDirection_def)

section \<open>Properties\<close>

text \<open>
  C5. The journal balances and never double-posts: whatever movements and explicit entries are
  submitted, replayed or refused, every entry of the journal has equal debits and credits in
  one currency over at least two accounts of the chart, no two entries stand for the same
  source event of an organisation, posted entries stay, and the balances of all accounts add
  up to zero.
\<close>

theorem journal_balanced_and_unique:
  "list_all entry_ok (feed ledger_submit [] cmds) \<and>
   sorted_wrt (\<lambda>x y. \<not> same_source x y) (feed ledger_submit [] cmds) \<and>
   (\<exists>posted. feed ledger_submit ledger cmds = ledger @ posted) \<and>
   sum_list (map (accountBalanceMinor (feed ledger_submit [] cmds)) ACCOUNTS) = 0"
  using ledger_feed_ok[of "[]" cmds] journal.feed_clash_free[of "[]" cmds] journal.feed_extends[of ledger cmds]
  by (simp add: trial_balance_zero)

text \<open>
  What a movement does to the books: a fresh posting debits and credits exactly the two
  accounts of its matrix row by the amount moved and leaves every other balance as it was.
\<close>

theorem post_moves_matrix_row:
  assumes "post ev ledger clk i = Inr (Posted, e, evs)" and "POSTING_MATRIX (mv_name ev) = Some (dr, cr)"
    and "movementMinor (mv_amountMinor ev) = Inr amount"
  shows "accountBalanceMinor (ledger @ [e]) a =
    accountBalanceMinor ledger a + (if a = dr then amount else if a = cr then - amount else 0) \<and> 0 < amount \<and> entry_ok e"
proof -
  have "matrix_entry ev amount dr cr e"
    using post_Inr[OF assms] by (auto split: option.splits)
  moreover have "0 < amount" using assms(3) by (auto simp: movementMinor_def result_simps)
  moreover have "dr \<noteq> cr" using matrix_accounts[OF assms(2)] by simp
  ultimately show ?thesis
    using matrix_entry_ok[OF _ assms(2)] by (auto simp: accountBalanceMinor_sum matrix_entry_def line_effect_def)
qed

definition sample_movement :: money_movement where
  "sample_movement = \<lparr>mv_name = ''invoicing.invoiceIssued'', mv_sourceEventId = ''00000000-0000-0000-0000-000000000001'',
     mv_orgId = ''org'', mv_occurredAt = ''2026-01-31T08:00:00Z'', mv_amountMinor = BigIntIn 500, mv_currency = KES,
     mv_reference = ''INV-1'', mv_actor = ''system''\<rparr>"

lemma sample_movement_guards:
  "assertEntryId (mv_sourceEventId sample_movement) = Inr ()" "assertIso (mv_occurredAt sample_movement) = Inr ()"
  "POSTING_MATRIX (mv_name sample_movement) = Some (AR_CONTROL, REVENUE)" "trim ''org'' = ''org''" "trim ''INV-1'' = ''INV-1''"
  "trim ''system'' = ''system''" "movementMinor (mv_amountMinor sample_movement) = Inr 500"
  unfolding sample_movement_def by code_simp+

lemma sample_movement_posts: "\<exists>e evs. post sample_movement [] (\<lambda>_. 0) None = Inr (Posted, e, evs)"
  using sample_movement_guards
  by (simp add: post_def assertNonBlank_def ledger_assertCurrency_def CURRENCIES_def findPostedEntry_def toJournalLine_def
      isAccount_def ACCOUNTS_def isPostingDirection_def assertBalanced_def balance_line_def journal_entry_id_def
      entryPostedEvent_def minorUnits_def number_of_int max_safe_integer_def Let_def)
    (simp add: sample_movement_def)


theorem post_moves_matrix_row_witness:
  "\<exists>e evs. post sample_movement [] (\<lambda>_. 0) None = Inr (Posted, e, evs) \<and> accountBalanceMinor [e] AR_CONTROL = 500 \<and>
     accountBalanceMinor [e] REVENUE = - 500 \<and> accountBalanceMinor [e] CASH = 0"
proof -
  from sample_movement_posts obtain e evs where p: "post sample_movement [] (\<lambda>_. 0) None = Inr (Posted, e, evs)" by blast
  note row = post_moves_matrix_row[OF p sample_movement_guards(3,7)]
  have "accountBalanceMinor [] a = 0" for a by (simp add: accountBalanceMinor_def)
  with p row[of AR_CONTROL] row[of REVENUE] row[of CASH] show ?thesis by auto
qed

text \<open>
  Replaying a posted movement against any journal that holds its entry, and no earlier entry
  of the same source, returns that entry unchanged with no events, whatever the clock says.
\<close>

theorem post_replay:
  assumes "post ev ledger clk i = Inr (Posted, e, evs)" and "\<forall>x \<in> set before. \<not> same_source x e"
  shows "post ev (before @ e # after) clk' i' = Inr (Already_Posted, e, [])"
proof -
  from post_guards[OF assms(1)] obtain dr cr amount where m: "POSTING_MATRIX (mv_name ev) = Some (dr, cr)"
    "movementMinor (mv_amountMinor ev) = Inr amount" and g: "assertEntryId (mv_sourceEventId ev) = Inr ()" "trim (mv_orgId ev) \<noteq> []"
    "trim (mv_reference ev) \<noteq> []" "trim (mv_actor ev) \<noteq> []" "assertIso (mv_occurredAt ev) = Inr ()" "mv_currency ev \<in> set CURRENCIES" .
  have e: "matrix_entry ev amount dr cr e" using post_Inr[OF assms(1) m] by (auto split: option.splits)
  have "find (\<lambda>x. je_orgId x = trim (mv_orgId ev) \<and> je_sourceEventId x = mv_sourceEventId ev) before = None"
    using assms(2) e by (auto simp: find_None_iff same_source_def matrix_entry_def)
  then have "findPostedEntry (before @ e # after) (trim (mv_orgId ev)) (mv_sourceEventId ev) = Some e"
    using e by (simp add: findPostedEntry_def find_append_None matrix_entry_def)
  moreover have "assertSameMovement e ev = Inr ()"
    using e m by (simp add: assertSameMovement_def matrix_entry_def)
  ultimately show ?thesis
    using m g by (simp add: post_def assertNonBlank_def ledger_assertCurrency_def Let_def)
qed

theorem post_replay_witness:
  "\<exists>e evs. post sample_movement [] (\<lambda>_. 0) None = Inr (Posted, e, evs) \<and>
     post sample_movement [e] (\<lambda>_. 9) None = Inr (Already_Posted, e, [])"
proof -
  from sample_movement_posts obtain e evs where p: "post sample_movement [] (\<lambda>_. 0) None = Inr (Posted, e, evs)" by blast
  from post_replay[OF p, of "[]" "[]" "\<lambda>_. 9" None] p show ?thesis by auto
qed

lemma reverseEntry_Inr:
  assumes "reverseEntry e inp clk = Inr (marked, rev_entry, evs)"
  shows "je_reversalOf e = None \<and> je_status e = POSTED \<and> trim (rv_reason inp) \<noteq> [] \<and>
    marked = e\<lparr>je_status := REVERSED, je_reversedBy := Some (je_entryId rev_entry)\<rparr> \<and>
    je_lines rev_entry = map flip_line (je_lines e) \<and> je_reversalOf rev_entry = Some (je_entryId e) \<and>
    je_status rev_entry = POSTED \<and> je_orgId rev_entry = je_orgId e \<and> je_reason rev_entry = Some (trim (rv_reason inp)) \<and>
    assertBalanced (map flip_line (je_lines e)) = Inr () \<and> length evs = 2"
  using assms by (auto simp: reverseEntry_def result_simps assertNonBlank_def Let_def)

lemma reverseEntry_refused:
  assumes "je_reversalOf e \<noteq> None \<or> je_status e \<noteq> POSTED"
  shows "\<exists>err. reverseEntry e inp clk = Inl err"
proof (cases "reverseEntry e inp clk")
  case (Inr x)
  obtain marked rev_entry evs where "x = (marked, rev_entry, evs)" by (cases x)
  with reverseEntry_Inr[of e inp clk marked rev_entry evs] Inr assms show ?thesis by simp
qed simp

lemma flip_line_simps [simp]:
  "jl_account (flip_line l) = jl_account l" "jl_amountMinor (flip_line l) = jl_amountMinor l"
  "isPostingDirection (jl_direction (flip_line l))"
  by (simp_all add: flip_line_def isPostingDirection_def)

text \<open>
  C25. A correction cancels and is final (R3, K6): reversing a well-formed entry yields a balanced
  entry that nets with the original to zero on every account and names it, with a non-blank
  reason; the original is only marked as reversed by that entry, and neither the marked original
  nor the reversal can be reversed.
\<close>

theorem reverseEntry_cancels:
  assumes "entry_ok e" and "reverseEntry e inp clk = Inr (marked, rev_entry, evs)"
  shows "entry_ok rev_entry \<and> accountBalanceMinor [marked, rev_entry] a = 0 \<and>
    je_reversalOf rev_entry = Some (je_entryId e) \<and> je_reason rev_entry = Some (trim (rv_reason inp)) \<and> trim (rv_reason inp) \<noteq> [] \<and>
    marked = e\<lparr>je_status := REVERSED, je_reversedBy := Some (je_entryId rev_entry)\<rparr> \<and>
    (\<exists>err. reverseEntry marked inp' clk' = Inl err) \<and> (\<exists>err. reverseEntry rev_entry inp' clk' = Inl err)"
proof -
  note r = reverseEntry_Inr[OF assms(2)]
  have bal: "assertBalanced (je_lines rev_entry) = Inr ()" using r by simp
  have "entry_ok rev_entry"
    using bal r assms(1) unfolding assertBalanced_Inr by (auto simp: entry_ok_def)
  moreover have "sum_list (map (line_effect a) (map flip_line (je_lines e))) = - sum_list (map (line_effect a) (je_lines e))"
  proof -
    have "map (line_effect a) (map flip_line (je_lines e)) = map (\<lambda>l. - line_effect a l) (je_lines e)"
      using assms(1) by (simp add: entry_ok_def flip_line_effect)
    then show ?thesis by (simp only: uminus_sum_list_map o_def)
  qed
  moreover have "\<exists>err. reverseEntry marked inp' clk' = Inl err" "\<exists>err. reverseEntry rev_entry inp' clk' = Inl err"
    using r by (simp_all add: reverseEntry_refused)
  ultimately show ?thesis using r by (simp add: accountBalanceMinor_sum)
qed

definition sample_reversal :: reverse_entry_input where
  "sample_reversal = \<lparr>rv_entryId = None, rv_reason = ''error'', rv_actor = ''system'', rv_reference = None\<rparr>"

definition sample_entry :: journal_entry where
  "sample_entry = \<lparr>je_entryId = ''e1'', je_orgId = ''org'', je_occurredAt = ''2026-01-31T08:00:00Z'', je_postedAt = ''2026-01-31T08:00:00Z'',
     je_sourceEventName = ''invoicing.invoiceIssued'', je_sourceEventId = ''00000000-0000-0000-0000-000000000001'',
     je_reference = ''INV-1'', je_actor = ''system'', je_status = POSTED,
     je_lines = [\<lparr>jl_account = CASH, jl_direction = DEBIT, jl_amountMinor = 500, jl_currency = KES\<rparr>,
       \<lparr>jl_account = REVENUE, jl_direction = CREDIT, jl_amountMinor = 500, jl_currency = KES\<rparr>],
     je_reversalOf = None, je_reason = None, je_reversedBy = None\<rparr>"

lemma sample_entry_ok: "entry_ok sample_entry"
  by (simp add: sample_entry_def entry_ok_def single_currency_def lines_net_def line_net_def isAccount_def ACCOUNTS_def isPostingDirection_def)

theorem reverseEntry_cancels_witness:
  "\<exists>marked rev_entry evs. reverseEntry sample_entry sample_reversal (\<lambda>_. 0) = Inr (marked, rev_entry, evs) \<and>
     accountBalanceMinor [marked, rev_entry] CASH = 0"
proof -
  have t: "trim ''error'' = ''error''" "trim ''system'' = ''system''" by code_simp+
  obtain marked rev_entry evs where r: "reverseEntry sample_entry sample_reversal (\<lambda>_. 0) = Inr (marked, rev_entry, evs)"
    by (simp add: reverseEntry_def sample_entry_def sample_reversal_def assertNonBlank_def t flip_line_def assertBalanced_def
        balance_line_def entryPostedEvent_def minorUnits_def number_of_int max_safe_integer_def Let_def)
  from reverseEntry_cancels[OF sample_entry_ok r, of CASH] r show ?thesis by blast
qed

text \<open>
  The replay check of \<open>post\<close> does not look at the accounts: an entry posted from explicit
  lines under the name, time, amount and currency of a movement is returned as its replay even
  though it touches other accounts, so the invoice below never reaches AR control.
\<close>

theorem post_replay_ignores_accounts:
  "post sample_movement [sample_entry] clk i = Inr (Already_Posted, sample_entry, []) \<and>
   arControlBalanceMinor [sample_entry] = 0 \<and> POSTING_MATRIX (mv_name sample_movement) = Some (AR_CONTROL, REVENUE)"
proof -
  have "assertSameMovement sample_entry sample_movement = Inr ()"
    using sample_movement_guards(7) by (simp add: assertSameMovement_def sample_entry_def sample_movement_def)
  moreover have "findPostedEntry [sample_entry] (trim (mv_orgId sample_movement)) (mv_sourceEventId sample_movement) = Some sample_entry"
    using sample_movement_guards(4) by (simp add: findPostedEntry_def sample_entry_def sample_movement_def)
  moreover have "trim (mv_orgId sample_movement) \<noteq> []" "trim (mv_reference sample_movement) \<noteq> []" "trim (mv_actor sample_movement) \<noteq> []"
    "mv_currency sample_movement = KES"
    using sample_movement_guards(4-6) by (simp_all add: sample_movement_def)
  moreover have "arControlBalanceMinor [sample_entry] = 0"
    by (simp add: arControlBalanceMinor_def accountBalanceMinor_sum sample_entry_def line_effect_def)
  ultimately show ?thesis
    using sample_movement_guards
    by (simp add: post_def assertNonBlank_def ledger_assertCurrency_def CURRENCIES_def Let_def)
qed

end
