(* ===== verification/Reconciliation.thy ===== *)
theory Reconciliation
  imports Ledger
begin

text \<open>
  The daily reconciliation of the sub-ledger with the AR control account
  (\<open>src/src/domain/ledger/reconciliation.ts\<close>): per organisation and currency, the open
  receivable balances must add up to the net balance of AR control over the posted entries.
\<close>

section \<open>The job\<close>

record open_balance_row =
  ob_receivableId :: uuid
  ob_orgId :: string
  ob_currency :: currency
  ob_balanceMinor :: money_input

record recon_job =
  rj_jobId :: uuid
  rj_orgId :: string
  rj_currency :: currency
  rj_runDate :: string

text \<open>\<open>^\d{4}-\d{2}-\d{2}$\<close>, and a valid date at midnight.\<close>

definition RUN_DATE :: "string \<Rightarrow> bool" where
  "RUN_DATE s \<longleftrightarrow> fits (replicate 4 is_digit @ dash # replicate 2 is_digit @ dash # replicate 2 is_digit) s"

definition assertRunDate :: "string \<Rightarrow> string result" where
  "assertRunDate runDate = (if \<not> RUN_DATE runDate \<or> \<not> valid_date (runDate @ ''T00:00:00.000Z'')
     then throw ''LEDGER_RECON_DATE_INVALID'' else Inr runDate)"

definition dailyReconciliationJob :: "string \<Rightarrow> currency \<Rightarrow> string \<Rightarrow> recon_job result" where
  "dailyReconciliationJob orgId c runDate =
     and_then (assertRunDate runDate) (\<lambda>date.
       if trim orgId = [] then throw ''LEDGER_ORG_REQUIRED''
       else and_then (uuidFromSeed (''ledger.recon:'' @ orgId @ '':'' @ currency_code c @ '':'' @ date)) (\<lambda>jobId.
         Inr \<lparr>rj_jobId = jobId, rj_orgId = orgId, rj_currency = c, rj_runDate = date\<rparr>))"

definition balanceMinorOf :: "money_input \<Rightarrow> int result" where
  "balanceMinorOf value = and_then (safe_minor value ''LEDGER_RECON_BALANCE_INVALID'') (\<lambda>minor.
     if minor < 0 then throw ''LEDGER_RECON_BALANCE_INVALID'' else Inr minor)"

datatype recon_outcome = Recon_Ok | Recon_Drift

record recon_result =
  rr_outcome :: recon_outcome
  rr_job :: recon_job
  rr_subLedgerBalanceMinor :: int
  rr_glBalanceMinor :: int
  rr_driftMinor :: int
  rr_openReceivableCount :: nat
  rr_postedEntryCount :: nat
  rr_event :: ledger_event

text \<open>One round of the sub-ledger loop: the receivables seen, the sum and the openCount so far.\<close>

definition recon_row :: "recon_job \<Rightarrow> uuid set \<times> int \<times> nat \<Rightarrow> open_balance_row \<Rightarrow> (uuid set \<times> int \<times> nat) result" where
  "recon_row job acc row = (case acc of (seen, balance, openCount) \<Rightarrow>
     if ob_orgId row \<noteq> rj_orgId job then throw ''LEDGER_RECON_SCOPE_MISMATCH''
     else if ob_currency row \<noteq> rj_currency job then Inr acc
     else and_then (assertEntryId (ob_receivableId row)) (\<lambda>_.
       if ob_receivableId row \<in> seen then throw ''LEDGER_RECON_DUPLICATE_RECEIVABLE''
       else and_then (balanceMinorOf (ob_balanceMinor row)) (\<lambda>minor.
         Inr (insert (ob_receivableId row) seen, balance + minor, openCount + 1))))"

text \<open>The filter of the posted entries, whose predicate may throw.\<close>

fun entries_in_scope :: "recon_job \<Rightarrow> journal_entry list \<Rightarrow> journal_entry list result" where
  "entries_in_scope job [] = Inr []"
| "entries_in_scope job (e # es) =
     (if je_orgId e \<noteq> rj_orgId job then throw ''LEDGER_RECON_SCOPE_MISMATCH''
      else and_then (entries_in_scope job es) (\<lambda>rest.
        Inr (if list_all (\<lambda>l. jl_currency l = rj_currency job) (je_lines e) then e # rest else rest)))"

definition reconciliationDriftDetectedEvent :: "recon_job \<Rightarrow> js_num \<Rightarrow> js_num \<Rightarrow> js_num \<Rightarrow> nat \<Rightarrow> nat \<Rightarrow> date \<Rightarrow> ledger_event" where
  "reconciliationDriftDetectedEvent job sub gl drift rows entries now =
     ledger_emit ''ledger.reconciliationDriftDetected'' (rj_jobId job)
       (ReconciliationDriftDetected (rj_jobId job) (rj_runDate job) (rj_orgId job) (rj_currency job) sub gl drift rows entries) now"

definition reconciliationMatchedEvent :: "recon_job \<Rightarrow> js_num \<Rightarrow> nat \<Rightarrow> nat \<Rightarrow> date \<Rightarrow> ledger_event" where
  "reconciliationMatchedEvent job balance rows entries now =
     ledger_emit ''ledger.reconciliationMatched'' (rj_jobId job)
       (ReconciliationMatched (rj_jobId job) (rj_runDate job) (rj_orgId job) (rj_currency job) balance rows entries) now"

definition recon_report :: "recon_job \<Rightarrow> int \<Rightarrow> int \<Rightarrow> nat \<Rightarrow> nat \<Rightarrow> date \<Rightarrow> recon_result result" where
  "recon_report job sub gl rows entries now =
     (let drift = sub - gl;
          report = (\<lambda>out ev. \<lparr>rr_outcome = out, rr_job = job, rr_subLedgerBalanceMinor = sub, rr_glBalanceMinor = gl,
            rr_driftMinor = drift, rr_openReceivableCount = rows, rr_postedEntryCount = entries, rr_event = ev\<rparr>)
      in if drift \<noteq> 0
         then and_then (minorUnits sub) (\<lambda>s. and_then (minorUnits gl) (\<lambda>g. and_then (minorUnits drift) (\<lambda>d.
           Inr (report Recon_Drift (reconciliationDriftDetectedEvent job s g d rows entries now)))))
         else and_then (minorUnits gl) (\<lambda>g. Inr (report Recon_Ok (reconciliationMatchedEvent job g rows entries now))))"

definition runReconciliationJob ::
  "recon_job \<Rightarrow> open_balance_row list \<Rightarrow> journal_entry list \<Rightarrow> clock \<Rightarrow> recon_result result" where
  "runReconciliationJob job rows ledger clk =
     and_then (assertRunDate (rj_runDate job)) (\<lambda>_.
       if trim (rj_orgId job) = [] then throw ''LEDGER_ORG_REQUIRED''
       else and_then (assertEntryId (rj_jobId job)) (\<lambda>_.
         and_then (reduce (recon_row job) ({}, 0, 0) rows) (\<lambda>(_, sub, openCount).
         and_then (entries_in_scope job ledger) (\<lambda>inScope.
           recon_report job sub (arControlBalanceMinor inScope) openCount (length inScope) (clk 0)))))"

section \<open>What the two sides are\<close>

definition row_minor :: "open_balance_row \<Rightarrow> int" where
  "row_minor row = (case balanceMinorOf (ob_balanceMinor row) of Inl _ \<Rightarrow> 0 | Inr v \<Rightarrow> v)"

definition in_scope_rows :: "recon_job \<Rightarrow> open_balance_row list \<Rightarrow> open_balance_row list" where
  "in_scope_rows job rows = filter (\<lambda>row. ob_currency row = rj_currency job) rows"

lemma recon_rows_Inr:
  assumes "reduce (recon_row job) (seen, b, n) rows = Inr (seen', b', n')"
  shows "b' = b + sum_list (map row_minor (in_scope_rows job rows)) \<and> n' = n + length (in_scope_rows job rows) \<and>
    distinct (map ob_receivableId (in_scope_rows job rows)) \<and>
    set (map ob_receivableId (in_scope_rows job rows)) \<inter> seen = {} \<and> (\<forall>row \<in> set rows. ob_orgId row = rj_orgId job)"
  using assms
proof (induction rows arbitrary: seen b n)
  case (Cons row rows)
  from Cons.prems obtain acc where step: "recon_row job (seen, b, n) row = Inr acc"
    and rest: "reduce (recon_row job) acc rows = Inr (seen', b', n')" by (auto simp: result_simps)
  show ?case
  proof (cases "ob_currency row = rj_currency job")
    case False
    with step have "acc = (seen, b, n)" "ob_orgId row = rj_orgId job" by (auto simp: recon_row_def result_simps)
    with Cons.IH[of seen b n] rest False show ?thesis by (simp add: in_scope_rows_def)
  next
    case True
    with step have "acc = (insert (ob_receivableId row) seen, b + row_minor row, n + 1)" "ob_orgId row = rj_orgId job"
      "ob_receivableId row \<notin> seen" by (auto simp: recon_row_def result_simps row_minor_def)
    with Cons.IH[of "insert (ob_receivableId row) seen" "b + row_minor row" "n + 1"] rest True show ?thesis
      by (auto simp: in_scope_rows_def)
  qed
qed (simp add: in_scope_rows_def)

lemma entries_in_scope_Inr:
  "entries_in_scope job es = Inr out \<longleftrightarrow> (\<forall>e \<in> set es. je_orgId e = rj_orgId job) \<and>
     out = filter (\<lambda>e. list_all (\<lambda>l. jl_currency l = rj_currency job) (je_lines e)) es"
  by (induction es arbitrary: out) (auto simp: result_simps)

text \<open>
  C26. The job is right about the books: it reports ok exactly when the open balances of its
  organisation and currency, each receivable counted once, add up to the net AR control balance
  of the entries in that currency, and otherwise the signed difference as the drift; rows or
  entries of another organisation are never let through.
\<close>

theorem reconciliation_decides:
  assumes "runReconciliationJob job rows ledger clk = Inr r"
  shows "let sub = sum_list (map row_minor (in_scope_rows job rows));
             gl = accountBalanceMinor (filter (\<lambda>e. list_all (\<lambda>l. jl_currency l = rj_currency job) (je_lines e)) ledger) AR_CONTROL
    in rr_subLedgerBalanceMinor r = sub \<and> rr_glBalanceMinor r = gl \<and> rr_driftMinor r = sub - gl \<and>
       (rr_outcome r = Recon_Ok \<longleftrightarrow> sub = gl) \<and>
       distinct (map ob_receivableId (in_scope_rows job rows)) \<and>
       (\<forall>row \<in> set rows. ob_orgId row = rj_orgId job) \<and> (\<forall>e \<in> set ledger. je_orgId e = rj_orgId job)"
proof -
  from assms obtain seen sub openCount inScope where
    rows: "reduce (recon_row job) ({}, 0, 0) rows = Inr (seen, sub, openCount)"
    and scope: "entries_in_scope job ledger = Inr inScope"
    and rep: "recon_report job sub (arControlBalanceMinor inScope) openCount (length inScope) (clk 0) = Inr r"
    by (auto simp: runReconciliationJob_def result_simps)
  have "rr_subLedgerBalanceMinor r = sub \<and> rr_glBalanceMinor r = arControlBalanceMinor inScope \<and>
    rr_driftMinor r = sub - arControlBalanceMinor inScope \<and> (rr_outcome r = Recon_Ok \<longleftrightarrow> sub = arControlBalanceMinor inScope)"
    using rep by (auto simp: recon_report_def result_simps Let_def split: if_splits)
  with recon_rows_Inr[OF rows] scope[unfolded entries_in_scope_Inr] show ?thesis
    by (simp add: arControlBalanceMinor_def Let_def)
qed

definition sample_job :: recon_job where
  "sample_job = \<lparr>rj_jobId = ''00000000-0000-0000-0000-000000000009'', rj_orgId = ''org'', rj_currency = KES, rj_runDate = ''2026-01-31''\<rparr>"

definition sample_rows :: "open_balance_row list" where
  "sample_rows = [\<lparr>ob_receivableId = ''00000000-0000-0000-0000-000000000003'', ob_orgId = ''org'', ob_currency = KES,
     ob_balanceMinor = BigIntIn 200\<rparr>, \<lparr>ob_receivableId = ''00000000-0000-0000-0000-000000000003'', ob_orgId = ''org'',
     ob_currency = USD, ob_balanceMinor = BigIntIn 900\<rparr>]"

lemma sample_job_guards:
  "assertRunDate (rj_runDate sample_job) = Inr (rj_runDate sample_job)" "trim (rj_orgId sample_job) \<noteq> []"
  "assertEntryId (rj_jobId sample_job) = Inr ()" "assertEntryId ''00000000-0000-0000-0000-000000000003'' = Inr ()"
  unfolding sample_job_def by code_simp+

theorem reconciliation_decides_witness:
  "\<exists>r. runReconciliationJob sample_job sample_rows [sample_entry] (\<lambda>_. 0) = Inr r \<and> rr_outcome r = Recon_Drift \<and> rr_driftMinor r = 200"
proof -
  have "reduce (recon_row sample_job) ({}, 0, 0) sample_rows = Inr ({''00000000-0000-0000-0000-000000000003''}, 200, 1)"
    using sample_job_guards(4) by (simp add: sample_rows_def recon_row_def balanceMinorOf_def sample_job_def)
  moreover have "entries_in_scope sample_job [sample_entry] = Inr [sample_entry]"
    by (simp add: sample_job_def sample_entry_def)
  moreover have "arControlBalanceMinor [sample_entry] = 0"
    by (simp add: arControlBalanceMinor_def accountBalanceMinor_sum sample_entry_def line_effect_def)
  ultimately obtain r where r: "runReconciliationJob sample_job sample_rows [sample_entry] (\<lambda>_. 0) = Inr r"
    using sample_job_guards number_of_int[of 0]
    by (simp add: runReconciliationJob_def recon_report_def Let_def minorUnits_def number_of_int max_safe_integer_def)
  have "sum_list (map row_minor (in_scope_rows sample_job sample_rows)) = 200"
    by (simp add: in_scope_rows_def sample_rows_def sample_job_def row_minor_def balanceMinorOf_def)
  moreover have "accountBalanceMinor (filter (\<lambda>e. list_all (\<lambda>l. jl_currency l = rj_currency sample_job) (je_lines e)) [sample_entry]) AR_CONTROL = 0"
    by (simp add: accountBalanceMinor_sum sample_job_def sample_entry_def line_effect_def)
  ultimately have "rr_driftMinor r = 200" "rr_outcome r \<noteq> Recon_Ok"
    using reconciliation_decides[OF r] by (simp_all add: Let_def)
  then show ?thesis using r recon_outcome.exhaust by blast
qed

end
