(* ===== verification/Js_Integer.thy ===== *)
theory Js_Integer
  imports Js_Number Js_Date
begin

text \<open>
  Arithmetic of \<open>number\<close> values that hold integers, as the lanes after the money core use it:
  counters and minor units kept as \<open>number\<close>, and time values. Sums and products are rounded to
  binary64; the lemmas say when that is exact and when a comparison cannot be misled by it.
\<close>

section \<open>Sums\<close>

text \<open>\<open>a + b\<close> for two numbers that hold integers (a double of an integer is an integer).\<close>

definition int_plus :: "int \<Rightarrow> int \<Rightarrow> int" where
  "int_plus a b = \<lfloor>fl (of_int (a + b))\<rfloor>"

lemma int_plus_exact: "\<bar>a + b\<bar> \<le> 2 ^ 53 \<Longrightarrow> int_plus a b = a + b"
  unfolding int_plus_def by (simp only: fl_int floor_of_int)

lemma int_plus_safe: "\<bar>a + b\<bar> \<le> max_safe_integer \<Longrightarrow> int_plus a b = a + b"
  by (rule int_plus_exact) (simp add: max_safe_integer_def)

lemma int_plus_le_iff:
  assumes "0 \<le> a" "a \<le> max_safe_integer" "0 \<le> b" "b \<le> max_safe_integer" "c \<le> max_safe_integer"
  shows "int_plus a b \<le> c \<longleftrightarrow> a + b \<le> c"
proof (cases "a + b \<le> 2 ^ 53")
  case True
  then have "\<bar>a + b\<bar> \<le> 2 ^ 53" using assms by simp
  then show ?thesis by (simp only: int_plus_exact)
next
  case False
  obtain n where n: "fl (of_int (a + b)) = of_int n" using fl_of_int_integer[of "a + b"] by blast
  have "\<bar>n - (a + b)\<bar> * 2 ^ 53 \<le> a + b" using assms by (intro fl_nat_error[OF _ n]) simp
  moreover have "a + b < 2 * 2 ^ 53" using assms by (simp add: max_safe_integer_def)
  ultimately have "\<bar>n - (a + b)\<bar> * 2 ^ 53 < 2 * 2 ^ 53" by simp
  then have "\<bar>n - (a + b)\<bar> < 2" by (simp only: mult_less_cancel_right) simp
  with False have "2 ^ 53 \<le> n" by simp
  moreover have "int_plus a b = n" unfolding int_plus_def n by simp
  ultimately show ?thesis using False assms(5) by (simp add: max_safe_integer_def)
qed

section \<open>Time values\<close>

text \<open>The largest time value of a valid \<open>Date\<close>.\<close>

definition max_time :: int where "max_time = 8640000000000000"

definition valid_time :: "date \<Rightarrow> bool" where "valid_time t \<longleftrightarrow> \<bar>t\<bar> \<le> max_time"

text \<open>\<open>t + n * 86_400_000\<close>: product and sum are rounded.\<close>

definition add_days :: "date \<Rightarrow> int \<Rightarrow> rat" where
  "add_days t n = fl (of_int t + fl (of_int (n * ms_per_day)))"

lemma add_days_exact:
  assumes "valid_time t" and "0 \<le> n" and "n \<le> 4000000"
  shows "add_days t n = of_int (t + n * ms_per_day)"
proof -
  have "\<bar>n * ms_per_day\<bar> \<le> 345600000000000" using assms(2,3) by (simp add: ms_per_day_def abs_mult)
  moreover have "\<bar>t\<bar> \<le> 8640000000000000" using assms(1) by (simp add: valid_time_def max_time_def)
  ultimately have "\<bar>n * ms_per_day\<bar> \<le> 2 ^ 53" "\<bar>t + n * ms_per_day\<bar> \<le> 2 ^ 53" by simp_all
  from fl_int[OF this(1)] fl_int[OF this(2)] show ?thesis unfolding add_days_def by simp
qed

text \<open>\<open>new Date(v)\<close> of a finite \<open>v\<close>: \<open>None\<close> is an invalid date, a fraction of a millisecond is cut.\<close>

definition new_date :: "rat \<Rightarrow> date option" where
  "new_date v = (if \<bar>v\<bar> \<le> of_int max_time then Some (if v < 0 then \<lceil>v\<rceil> else \<lfloor>v\<rfloor>) else None)"

lemma new_date_of_int: "valid_time t \<Longrightarrow> new_date (of_int t) = Some t"
  by (auto simp: new_date_def valid_time_def simp flip: of_int_abs)

lemma new_date_valid: "new_date v = Some t \<Longrightarrow> valid_time t"
  by (auto simp: new_date_def valid_time_def abs_le_iff ceiling_le_iff floor_less_iff minus_le_iff le_floor_iff
      simp flip: of_int_minus split: if_splits) linarith+

lemma floor_quotient_multiple:
  assumes "\<bar>k * d\<bar> \<le> 2 ^ 53" and "0 < d"
  shows "floor_quotient (k * d) d = k"
proof -
  have "\<bar>k\<bar> * 1 \<le> \<bar>k\<bar> * d" using assms(2) by (intro mult_left_mono) simp_all
  with assms have "\<bar>k\<bar> \<le> 2 ^ 53" by (simp add: abs_mult)
  then have "fl (of_int k) = of_int k" by (rule fl_int)
  moreover have "fl (of_int (k * d)) = of_int (k * d)" by (rule fl_int[OF assms(1)])
  ultimately show ?thesis unfolding floor_quotient_def using assms(2) by simp
qed

section \<open>Calendar days\<close>

lemma split_month_sum:
  assumes "0 \<le> n" and "n < sum_list ls"
  shows "sum_list (take (nat (fst (split_month ls m n) - m)) ls) + snd (split_month ls m n) - 1 = n
    \<and> m \<le> fst (split_month ls m n)"
  using assms
proof (induction ls arbitrary: m n)
  case (Cons l ls)
  show ?case
  proof (cases "n < l")
    case False
    with Cons.prems have "0 \<le> n - l" "n - l < sum_list ls" by simp_all
    note ih = Cons.IH[OF this, of "m + 1"]
    define j where "j = fst (split_month ls (m + 1) (n - l)) - (m + 1)"
    have "0 \<le> j" using ih by (simp add: j_def)
    then have "nat (j + 1) = Suc (nat j)" by simp
    moreover have "fst (split_month (l # ls) m n) - m = j + 1" using False by (simp add: j_def)
    ultimately show ?thesis using ih False by (simp flip: j_def)
  qed simp
qed simp

lemma make_day_civil: "make_day (getUTCFullYear t) (getUTCMonth t) (getUTCDate t) = day_of t"
proof -
  let ?y = "year_of_day (day_of t)"
  have "0 \<le> day_of t - day_from_year ?y" "day_of t - day_from_year ?y < sum_list (month_lengths ?y)"
    using year_of_day_bounds[of "day_of t"] by (simp_all add: month_lengths_facts(3))
  from split_month_sum[OF this, of 0] getUTC_bounds[of t] show ?thesis
    by (simp add: make_day_def Let_def getUTCFullYear_def getUTCMonth_def getUTCDate_def civil_of_day_def)
qed

text \<open>\<open>Math.floor(Date.UTC(d.getUTCFullYear(), d.getUTCMonth(), d.getUTCDate()) / 86_400_000)\<close>\<close>

definition utc_day_index :: "date \<Rightarrow> int" where
  "utc_day_index d = floor_quotient (date_UTC (getUTCFullYear d) (getUTCMonth d) (getUTCDate d) 0) ms_per_day"

text \<open>\<open>Date.UTC\<close> reads the years 0 to 99 as 1900 to 1999; on every other date the index is the day number.\<close>

lemma utc_day_index_eq:
  assumes "valid_time t" and "getUTCFullYear t < 0 \<or> 99 < getUTCFullYear t"
  shows "utc_day_index t = day_of t"
proof -
  have "date_UTC (getUTCFullYear t) (getUTCMonth t) (getUTCDate t) 0 = day_of t * ms_per_day"
    using assms(2) by (auto simp: date_UTC_def make_day_civil)
  moreover have "\<bar>day_of t * ms_per_day\<bar> \<le> 2 ^ 53"
  proof -
    have "day_of t * ms_per_day = t - t mod ms_per_day" by (simp add: day_of_def minus_mod_eq_div_mult)
    moreover have "0 \<le> t mod ms_per_day" "t mod ms_per_day < 86400000" by (simp_all add: ms_per_day_def)
    moreover have "\<bar>t\<bar> \<le> 8640000000000000" using assms(1) by (simp add: valid_time_def max_time_def)
    ultimately show ?thesis by simp
  qed
  ultimately show ?thesis unfolding utc_day_index_def
    by (simp only:) (rule floor_quotient_multiple, simp_all add: ms_per_day_def)
qed

end
