(* ===== verification/Promise_To_Pay.thy ===== *)
theory Promise_To_Pay
  imports Money Js_Integer Contracts
begin

text \<open>
  The promise-to-pay of the promises lane (\<open>src/src/domain/promises/promise.ts\<close>) and the events
  of the lane (\<open>events.ts\<close>). A recorded promise is activated, covered by settlements, and ends
  fulfilled, broken after its date, cancelled, or expired after a grace window. Amounts are
  \<open>number\<close>s holding safe integers.
\<close>

section \<open>Data\<close>

datatype promise_source = From_Whatsapp | From_Sms | From_Call | From_Portal

definition PROMISE_SOURCES :: "(string \<times> promise_source) list" where
  "PROMISE_SOURCES = [(''whatsapp'', From_Whatsapp), (''sms'', From_Sms), (''call'', From_Call), (''portal'', From_Portal)]"

definition assertPromiseSource :: "string \<Rightarrow> promise_source result" where
  "assertPromiseSource source = (case map_of PROMISE_SOURCES source of
     None \<Rightarrow> throw ''PROMISE_SOURCE_INVALID'' | Some s \<Rightarrow> Inr s)"

datatype promise_status =
    PS_Created | PS_Pending | PS_Partially_Fulfilled | PS_Fulfilled | PS_Broken | PS_Cancelled | PS_Expired

definition PROMISE_STATUSES :: "(string \<times> promise_status) list" where
  "PROMISE_STATUSES = [(''created'', PS_Created), (''pending'', PS_Pending),
     (''partially_fulfilled'', PS_Partially_Fulfilled), (''fulfilled'', PS_Fulfilled), (''broken'', PS_Broken),
     (''cancelled'', PS_Cancelled), (''expired'', PS_Expired)]"

fun PROMISE_TRANSITIONS :: "promise_status \<Rightarrow> promise_status list" where
  "PROMISE_TRANSITIONS PS_Created = [PS_Pending, PS_Cancelled, PS_Expired]"
| "PROMISE_TRANSITIONS PS_Pending = [PS_Partially_Fulfilled, PS_Fulfilled, PS_Broken, PS_Cancelled, PS_Expired]"
| "PROMISE_TRANSITIONS PS_Partially_Fulfilled = [PS_Fulfilled, PS_Broken, PS_Cancelled]"
| "PROMISE_TRANSITIONS PS_Fulfilled = []"
| "PROMISE_TRANSITIONS PS_Broken = []"
| "PROMISE_TRANSITIONS PS_Cancelled = []"
| "PROMISE_TRANSITIONS PS_Expired = []"

definition MANUAL_TARGETS :: "promise_status list" where
  "MANUAL_TARGETS = [PS_Pending, PS_Cancelled]"

definition PROMISE_EXPIRY_GRACE_DAYS :: js_num where
  "PROMISE_EXPIRY_GRACE_DAYS = Fin 7"

record promise_to_pay =
  pt_promiseId :: uuid
  pt_orgId :: uuid
  pt_customerId :: uuid
  pt_receivableIds :: "uuid list"
  pt_amountMinor :: int
  pt_currency :: currency
  pt_promisedDate :: date
  pt_source :: promise_source
  pt_consentRef :: "string option"
  pt_status :: promise_status
  pt_settledMinor :: int
  pt_createdAt :: date
  pt_pendingAt :: "date option"
  pt_fulfilledAt :: "date option"
  pt_brokenAt :: "date option"
  pt_brokenReason :: "string option"
  pt_cancelledAt :: "date option"
  pt_expiredAt :: "date option"

section \<open>Events\<close>

text \<open>The payloads, their fields in the order of the interfaces.\<close>

datatype promise_payload =
    PromiseCreated uuid uuid uuid "uuid list" int currency string promise_source "string option" string
  | PromiseActivated uuid uuid uuid string
  | PromisePartiallyFulfilled uuid uuid int int int string
  | PromiseFulfilled uuid uuid "uuid list" int int string
  | PromiseBroken uuid uuid "uuid list" string string int string
  | PromiseCancelled uuid uuid string string string
  | PromiseExpired uuid uuid string int string
  | CollectionsPromiseBroken uuid "uuid option" string uuid int string

type_synonym promise_event = "(promise_payload, string) domain_event"

definition promise_domainEvent :: "string \<Rightarrow> uuid \<Rightarrow> 'p \<Rightarrow> date \<Rightarrow> ('p, string) domain_event" where
  "promise_domainEvent name aggregateId payload now =
     \<lparr>ev_name = name, ev_version = 1, ev_aggregateId = aggregateId, ev_payload = payload,
      ev_occurredAt = toISOString now\<rparr>"

definition promise_minorToNumber :: "int \<Rightarrow> int result" where
  "promise_minorToNumber amountMinor =
     (if \<bar>amountMinor\<bar> > max_safe_integer then throw ''EVENT_AMOUNT_NOT_SAFE_INTEGER'' else Inr amountMinor)"

section \<open>Recording a promise\<close>

definition promise_assertNonBlank :: "string \<Rightarrow> string \<Rightarrow> string result" where
  "promise_assertNonBlank raw code = (let value = trim raw in if value = [] then throw code else Inr value)"

definition assertAmountMinor :: "js_num \<Rightarrow> string \<Rightarrow> int result" where
  "assertAmountMinor amountMinor code =
     (if \<not> is_safe_integer amountMinor \<or> js_nonpos amountMinor then throw code else Inr (int_of_num amountMinor))"

definition promise_assertCurrency :: "currency \<Rightarrow> currency result" where
  "promise_assertCurrency c = (if c \<notin> set CURRENCIES then throw ''PROMISE_CURRENCY_INVALID'' else Inr c)"

record promise_args =
  pg_promiseId :: uuid
  pg_orgId :: uuid
  pg_customerId :: uuid
  pg_receivableIds :: "uuid list"
  pg_amountMinor :: js_num
  pg_currency :: currency
  pg_promisedDate :: date
  pg_source :: string
  pg_consentRef :: "string option"

definition createPromise :: "promise_args \<Rightarrow> clock \<Rightarrow> (promise_to_pay \<times> promise_event) result" where
  "createPromise args clk =
     and_then (assertAmountMinor (pg_amountMinor args) ''PROMISE_AMOUNT_INVALID'') (\<lambda>amountMinor.
     and_then (promise_assertCurrency (pg_currency args)) (\<lambda>c.
     and_then (assertPromiseSource (pg_source args)) (\<lambda>source.
       if pg_receivableIds args = [] then throw ''PROMISE_RECEIVABLES_REQUIRED''
       else if \<not> distinct (pg_receivableIds args) then throw ''PROMISE_RECEIVABLE_DUPLICATE''
       else and_then (case pg_consentRef args of None \<Rightarrow> Inr None
             | Some ref \<Rightarrow> and_then (promise_assertNonBlank ref ''PROMISE_CONSENT_REF_INVALID'') (\<lambda>r. Inr (Some r))) (\<lambda>consentRef.
         let createdAt = clk 0;
             p = \<lparr>pt_promiseId = pg_promiseId args, pt_orgId = pg_orgId args, pt_customerId = pg_customerId args,
               pt_receivableIds = pg_receivableIds args, pt_amountMinor = amountMinor, pt_currency = c,
               pt_promisedDate = pg_promisedDate args, pt_source = source, pt_consentRef = consentRef,
               pt_status = PS_Created, pt_settledMinor = 0, pt_createdAt = createdAt, pt_pendingAt = None,
               pt_fulfilledAt = None, pt_brokenAt = None, pt_brokenReason = None, pt_cancelledAt = None, pt_expiredAt = None\<rparr>
         in and_then (promise_minorToNumber amountMinor) (\<lambda>amountNumber.
           Inr (p, promise_domainEvent ''promise.created'' (pt_promiseId p)
             (PromiseCreated (pt_promiseId p) (pt_orgId p) (pt_customerId p) (pt_receivableIds p) amountNumber c
               (toISOString (pg_promisedDate args)) source consentRef (toISOString createdAt)) (clk 1)))))))"

section \<open>Decision-driven transitions\<close>

definition transitionPromise ::
  "promise_to_pay \<Rightarrow> string \<Rightarrow> string \<Rightarrow> string \<Rightarrow> clock \<Rightarrow> (promise_to_pay \<times> promise_event) result" where
  "transitionPromise p target reason0 actorId0 clk =
     (case map_of PROMISE_STATUSES target of
        None \<Rightarrow> throw ''PROMISE_STATUS_INVALID''
      | Some dest \<Rightarrow>
        if dest \<notin> set (PROMISE_TRANSITIONS (pt_status p)) then throw ''PROMISE_TRANSITION_INVALID''
        else if dest \<notin> set MANUAL_TARGETS then throw ''PROMISE_TRANSITION_NOT_AUTOMATIC''
        else and_then (promise_assertNonBlank reason0 ''PROMISE_REASON_REQUIRED'') (\<lambda>reason.
          and_then (promise_assertNonBlank actorId0 ''PROMISE_ACTOR_REQUIRED'') (\<lambda>actorId.
          let at_time = clk 0 in
          if dest = PS_Pending then
            Inr (p\<lparr>pt_status := PS_Pending, pt_pendingAt := Some at_time\<rparr>,
                 promise_domainEvent ''promise.activated'' (pt_promiseId p)
                   (PromiseActivated (pt_promiseId p) (pt_orgId p) (pt_customerId p) (toISOString at_time)) (clk 1))
          else
            Inr (p\<lparr>pt_status := PS_Cancelled, pt_cancelledAt := Some at_time\<rparr>,
                 promise_domainEvent ''promise.cancelled'' (pt_promiseId p)
                   (PromiseCancelled (pt_promiseId p) (pt_customerId p) reason actorId (toISOString at_time)) (clk 1)))))"

section \<open>Settlements\<close>

definition remainingMinor :: "promise_to_pay \<Rightarrow> int" where
  "remainingMinor p = max 0 (int_plus (pt_amountMinor p) (- pt_settledMinor p))"

definition assertTracked :: "promise_to_pay \<Rightarrow> unit result" where
  "assertTracked p = (if pt_status p \<noteq> PS_Pending \<and> pt_status p \<noteq> PS_Partially_Fulfilled
     then throw (if pt_status p = PS_Created then ''PROMISE_NOT_ACTIVE'' else ''PROMISE_TRANSITION_INVALID'')
     else Inr ())"

definition applySettlement :: "promise_to_pay \<Rightarrow> js_num \<Rightarrow> clock \<Rightarrow> (promise_to_pay \<times> promise_event) result" where
  "applySettlement p settledMinor clk =
     and_then (assertTracked p) (\<lambda>_.
     and_then (assertAmountMinor settledMinor ''PROMISE_SETTLEMENT_INVALID'') (\<lambda>amount.
       let totalSettled = int_plus (pt_settledMinor p) amount in
       if totalSettled > pt_amountMinor p then throw ''PROMISE_SETTLEMENT_EXCEEDS_PROMISED''
       else let settledAt = clk 0 in
         if totalSettled = pt_amountMinor p then
           and_then (promise_minorToNumber totalSettled) (\<lambda>totalNumber.
             Inr (p\<lparr>pt_status := PS_Fulfilled, pt_settledMinor := totalSettled, pt_fulfilledAt := Some settledAt\<rparr>,
                  promise_domainEvent ''promise.fulfilled'' (pt_promiseId p)
                    (PromiseFulfilled (pt_promiseId p) (pt_customerId p) (pt_receivableIds p) (pt_amountMinor p)
                      totalNumber (toISOString settledAt)) (clk 1)))
         else let moved = p\<lparr>pt_status := PS_Partially_Fulfilled, pt_settledMinor := totalSettled\<rparr> in
           and_then (promise_minorToNumber amount) (\<lambda>amountNumber.
           and_then (promise_minorToNumber totalSettled) (\<lambda>totalNumber.
           and_then (promise_minorToNumber (remainingMinor moved)) (\<lambda>remainingNumber.
             Inr (moved, promise_domainEvent ''promise.partiallyFulfilled'' (pt_promiseId p)
               (PromisePartiallyFulfilled (pt_promiseId p) (pt_customerId p) amountNumber totalNumber remainingNumber
                 (toISOString settledAt)) (clk 1)))))))"

section \<open>Breaking and expiring\<close>

definition markPromiseBroken ::
  "promise_to_pay \<Rightarrow> string \<Rightarrow> uuid option \<Rightarrow> clock \<Rightarrow> (promise_to_pay \<times> promise_event list) result" where
  "markPromiseBroken p reason0 caseId clk =
     and_then (assertTracked p) (\<lambda>_.
     and_then (promise_assertNonBlank reason0 ''PROMISE_REASON_REQUIRED'') (\<lambda>reason.
       let now = clk 0 in
       if now \<le> pt_promisedDate p then throw ''PROMISE_NOT_DUE''
       else if pt_settledMinor p \<ge> pt_amountMinor p then throw ''PROMISE_ALREADY_FULFILLED''
       else and_then (promise_minorToNumber (pt_settledMinor p)) (\<lambda>settledNumber.
         Inr (p\<lparr>pt_status := PS_Broken, pt_brokenAt := Some now, pt_brokenReason := Some reason\<rparr>,
           [promise_domainEvent ''promise.broken'' (pt_promiseId p)
              (PromiseBroken (pt_promiseId p) (pt_customerId p) (pt_receivableIds p) reason
                (toISOString (pt_promisedDate p)) settledNumber (toISOString now)) (clk 1),
            promise_domainEvent ''collections.promiseBroken'' (pt_promiseId p)
              (CollectionsPromiseBroken (pt_promiseId p) caseId (toISOString (pt_promisedDate p)) (pt_customerId p)
                settledNumber (toISOString now)) (clk 2)]))))"

definition expirePromise :: "promise_to_pay \<Rightarrow> clock \<Rightarrow> js_num option \<Rightarrow> (promise_to_pay \<times> promise_event) result" where
  "expirePromise p clk grace =
     (let graceDays = (case grace of None \<Rightarrow> PROMISE_EXPIRY_GRACE_DAYS | Some g \<Rightarrow> g) in
      if pt_status p \<noteq> PS_Created \<and> pt_status p \<noteq> PS_Pending then throw ''PROMISE_TRANSITION_INVALID''
      else if \<not> is_safe_integer graceDays \<or> js_neg graceDays then throw ''PROMISE_GRACE_INVALID''
      else let now = clk 0; horizon = add_days (pt_promisedDate p) (int_of_num graceDays) in
        if of_int now < horizon then throw ''PROMISE_NOT_DUE''
        else if pt_settledMinor p > 0 then throw ''PROMISE_ALREADY_FULFILLED''
        else Inr (p\<lparr>pt_status := PS_Expired, pt_expiredAt := Some now\<rparr>,
               promise_domainEvent ''promise.expired'' (pt_promiseId p)
                 (PromiseExpired (pt_promiseId p) (pt_customerId p) (toISOString (pt_promisedDate p))
                   (int_of_num graceDays) (toISOString now)) (clk 1)))"

section \<open>The invariant\<close>

fun promise_state_ok :: "promise_status \<Rightarrow> int \<Rightarrow> int \<Rightarrow> bool" where
  "promise_state_ok PS_Created settled amount = (settled = 0)"
| "promise_state_ok PS_Pending settled amount = (settled = 0)"
| "promise_state_ok PS_Partially_Fulfilled settled amount = (0 < settled \<and> settled < amount)"
| "promise_state_ok PS_Fulfilled settled amount = (settled = amount)"
| "promise_state_ok PS_Broken settled amount = (0 \<le> settled \<and> settled < amount)"
| "promise_state_ok PS_Cancelled settled amount = (0 \<le> settled \<and> settled < amount)"
| "promise_state_ok PS_Expired settled amount = (settled = 0)"

definition promise_ok :: "promise_to_pay \<Rightarrow> bool" where
  "promise_ok p \<longleftrightarrow> 0 < pt_amountMinor p \<and> pt_amountMinor p \<le> max_safe_integer \<and>
     promise_state_ok (pt_status p) (pt_settledMinor p) (pt_amountMinor p) \<and>
     (pt_status p = PS_Broken \<longrightarrow> (\<exists>t. pt_brokenAt p = Some t \<and> pt_promisedDate p < t))"

lemma promise_ok_settled: "promise_ok p \<Longrightarrow> 0 \<le> pt_settledMinor p \<and> pt_settledMinor p \<le> pt_amountMinor p"
  by (cases "pt_status p") (auto simp: promise_ok_def)

lemma is_safe_integer_of_int: "is_safe_integer x \<Longrightarrow> x = Fin (of_int (int_of_num x)) \<and> \<bar>int_of_num x\<bar> \<le> max_safe_integer"
  by (cases x) auto

lemma assertAmountMinor_Inr:
  "assertAmountMinor x code = Inr n \<longleftrightarrow> x = Fin (of_int n) \<and> 0 < n \<and> n \<le> max_safe_integer"
proof
  assume "assertAmountMinor x code = Inr n"
  then have "is_safe_integer x" "\<not> js_nonpos x" "n = int_of_num x" by (auto simp: assertAmountMinor_def split: if_splits)
  with is_safe_integer_of_int[of x] show "x = Fin (of_int n) \<and> 0 < n \<and> n \<le> max_safe_integer"
    by (cases x) auto
qed (auto simp: assertAmountMinor_def)

lemma promise_minorToNumber_Inr: "promise_minorToNumber n = Inr m \<longleftrightarrow> m = n \<and> \<bar>n\<bar> \<le> max_safe_integer"
  by (auto simp: promise_minorToNumber_def)

lemma promise_assertNonBlank_Inr: "promise_assertNonBlank raw code = Inr v \<longleftrightarrow> v = trim raw \<and> v \<noteq> []"
  by (auto simp: promise_assertNonBlank_def Let_def)

lemma assertTracked_Inr: "assertTracked p = Inr u \<longleftrightarrow> pt_status p = PS_Pending \<or> pt_status p = PS_Partially_Fulfilled"
  by (auto simp: assertTracked_def)

lemmas promise_guards = assertAmountMinor_Inr promise_minorToNumber_Inr promise_assertNonBlank_Inr assertTracked_Inr

lemma createPromise_ok:
  assumes "createPromise args clk = Inr (p, e)"
  shows "promise_ok p \<and> pt_status p = PS_Created \<and> pt_settledMinor p = 0 \<and> pt_amountMinor p = int_of_num (pg_amountMinor args)"
  using assms by (auto simp: createPromise_def result_simps promise_guards Let_def promise_ok_def)

text \<open>What an accepted settlement does.\<close>

lemma applySettlement_Inr:
  assumes ok: "promise_ok p" and run: "applySettlement p x clk = Inr (p', e)"
  obtains n where "x = Fin (of_int n)" and "0 < n" and "pt_status p = PS_Pending \<or> pt_status p = PS_Partially_Fulfilled"
    and "pt_settledMinor p + n \<le> pt_amountMinor p"
    and "p' = (if pt_settledMinor p + n = pt_amountMinor p
       then p\<lparr>pt_status := PS_Fulfilled, pt_settledMinor := pt_amountMinor p, pt_fulfilledAt := Some (clk 0)\<rparr>
       else p\<lparr>pt_status := PS_Partially_Fulfilled, pt_settledMinor := pt_settledMinor p + n\<rparr>)"
proof -
  from run obtain n where guards: "assertTracked p = Inr ()" "assertAmountMinor x ''PROMISE_SETTLEMENT_INVALID'' = Inr n"
    by (auto simp: applySettlement_def result_simps)
  then have n: "x = Fin (of_int n)" "0 < n" "n \<le> max_safe_integer"
    and st: "pt_status p = PS_Pending \<or> pt_status p = PS_Partially_Fulfilled"
    by (simp_all add: promise_guards)
  have le: "int_plus (pt_settledMinor p) n \<le> pt_amountMinor p"
    using run by (auto simp: applySettlement_def guards result_simps Let_def)
  have p': "p' = (if int_plus (pt_settledMinor p) n = pt_amountMinor p
       then p\<lparr>pt_status := PS_Fulfilled, pt_settledMinor := int_plus (pt_settledMinor p) n, pt_fulfilledAt := Some (clk 0)\<rparr>
       else p\<lparr>pt_status := PS_Partially_Fulfilled, pt_settledMinor := int_plus (pt_settledMinor p) n\<rparr>)"
    using run by (simp add: applySettlement_def guards result_simps Let_def split: if_splits) blast+
  have bound: "0 \<le> pt_settledMinor p" "pt_settledMinor p \<le> max_safe_integer" "pt_amountMinor p \<le> max_safe_integer"
    using ok promise_ok_settled[OF ok] by (auto simp: promise_ok_def)
  have fit: "pt_settledMinor p + n \<le> pt_amountMinor p"
    using le int_plus_le_iff[OF bound(1,2) _ n(3) bound(3)] n(2) by simp
  moreover have "int_plus (pt_settledMinor p) n = pt_settledMinor p + n"
    using fit bound n(2) by (intro int_plus_safe) simp
  ultimately show thesis using p' by (intro that[OF n(1,2) st fit]) (simp only: cong: if_cong)
qed

text \<open>Every settlement that fits is accepted: the rounding of the sum never refuses one.\<close>

lemma applySettlement_accepts:
  assumes ok: "promise_ok p" and st: "pt_status p = PS_Pending \<or> pt_status p = PS_Partially_Fulfilled"
    and n: "0 < n" "pt_settledMinor p + n \<le> pt_amountMinor p"
  shows "\<exists>p' e. applySettlement p (Fin (of_int n)) clk = Inr (p', e)"
proof -
  have bound: "0 \<le> pt_settledMinor p" "pt_amountMinor p \<le> max_safe_integer"
    using ok promise_ok_settled[OF ok] by (auto simp: promise_ok_def)
  with n have plus: "int_plus (pt_settledMinor p) n = pt_settledMinor p + n"
    by (intro int_plus_safe) simp
  have minus: "int_plus (pt_amountMinor p) (- pt_settledMinor p - n) = pt_amountMinor p - pt_settledMinor p - n"
    using int_plus_safe[of "pt_amountMinor p" "- pt_settledMinor p - n"] bound n by simp
  have "assertAmountMinor (Fin (of_int n)) code = Inr n" for code
    using n bound by (simp add: assertAmountMinor_Inr)
  moreover have "assertTracked p = Inr ()" using st by (simp add: assertTracked_Inr)
  moreover have "promise_minorToNumber n = Inr n" "promise_minorToNumber (pt_settledMinor p + n) = Inr (pt_settledMinor p + n)"
    "promise_minorToNumber (pt_amountMinor p) = Inr (pt_amountMinor p)"
    "promise_minorToNumber (max 0 (pt_amountMinor p - pt_settledMinor p - n)) = Inr (max 0 (pt_amountMinor p - pt_settledMinor p - n))"
    using n bound by (simp_all add: promise_minorToNumber_def)
  ultimately show ?thesis using n
    by (cases "pt_settledMinor p + n = pt_amountMinor p") (simp_all add: applySettlement_def plus minus Let_def remainingMinor_def)
qed

section \<open>The machine\<close>

datatype promise_command =
    Transition string string string clock
  | Settle js_num clock
  | Break string "uuid option" clock
  | Expire clock "js_num option"

fun promise_step :: "promise_to_pay \<Rightarrow> promise_command \<Rightarrow> promise_to_pay result" where
  "promise_step p (Transition target reason actorId clk) = and_then (transitionPromise p target reason actorId clk) (\<lambda>(q, _). Inr q)"
| "promise_step p (Settle x clk) = and_then (applySettlement p x clk) (\<lambda>(q, _). Inr q)"
| "promise_step p (Break reason caseId clk) = and_then (markPromiseBroken p reason caseId clk) (\<lambda>(q, _). Inr q)"
| "promise_step p (Expire clk grace) = and_then (expirePromise p clk grace) (\<lambda>(q, _). Inr q)"

lemma transitionPromise_Inr:
  "transitionPromise p target reason actorId clk = Inr (p', e) \<Longrightarrow>
     (pt_status p = PS_Created \<and> p' = p\<lparr>pt_status := PS_Pending, pt_pendingAt := Some (clk 0)\<rparr>) \<or>
     (pt_status p \<in> {PS_Created, PS_Pending, PS_Partially_Fulfilled} \<and> p' = p\<lparr>pt_status := PS_Cancelled, pt_cancelledAt := Some (clk 0)\<rparr>)"
  by (cases "pt_status p") (auto simp: transitionPromise_def result_simps MANUAL_TARGETS_def Let_def split: option.splits if_splits)

lemma markPromiseBroken_Inr:
  "markPromiseBroken p reason caseId clk = Inr (p', es) \<Longrightarrow>
     (pt_status p = PS_Pending \<or> pt_status p = PS_Partially_Fulfilled) \<and> pt_promisedDate p < clk 0 \<and>
     pt_settledMinor p < pt_amountMinor p \<and>
     p' = p\<lparr>pt_status := PS_Broken, pt_brokenAt := Some (clk 0), pt_brokenReason := Some (trim reason)\<rparr>"
  by (auto simp: markPromiseBroken_def result_simps promise_guards Let_def)

lemma expirePromise_Inr:
  "expirePromise p clk grace = Inr (p', e) \<Longrightarrow>
     (pt_status p = PS_Created \<or> pt_status p = PS_Pending) \<and> p' = p\<lparr>pt_status := PS_Expired, pt_expiredAt := Some (clk 0)\<rparr>"
  by (auto simp: expirePromise_def result_simps Let_def)

lemma promise_step_ok:
  assumes ok: "promise_ok p" and step: "promise_step p c = Inr p'"
  shows "promise_ok p'"
proof (cases c)
  case (Transition target reason actorId clk)
  with step obtain e where "transitionPromise p target reason actorId clk = Inr (p', e)" by (auto simp: result_simps)
  from transitionPromise_Inr[OF this] show ?thesis using ok by (auto simp: promise_ok_def)
next
  case (Settle x clk)
  with step obtain e where "applySettlement p x clk = Inr (p', e)" by (auto simp: result_simps)
  with ok show ?thesis by (rule applySettlement_Inr) (use ok promise_ok_settled[OF ok] in \<open>auto simp: promise_ok_def\<close>)
next
  case (Break reason caseId clk)
  with step obtain es where "markPromiseBroken p reason caseId clk = Inr (p', es)" by (auto simp: result_simps)
  from markPromiseBroken_Inr[OF this] show ?thesis using ok promise_ok_settled[OF ok] by (auto simp: promise_ok_def)
next
  case (Expire clk grace)
  with step obtain e where "expirePromise p clk grace = Inr (p', e)" by (auto simp: result_simps)
  from expirePromise_Inr[OF this] show ?thesis using ok by (auto simp: promise_ok_def)
qed

interpretation promise_machine: guarded_machine promise_step promise_ok "\<lambda>_. True"
  by unfold_locales (rule promise_step_ok)

definition promise_final :: "promise_to_pay \<Rightarrow> bool" where
  "promise_final p \<longleftrightarrow> PROMISE_TRANSITIONS (pt_status p) = []"

lemma promise_final_iff: "promise_final p \<longleftrightarrow> pt_status p \<in> {PS_Fulfilled, PS_Broken, PS_Cancelled, PS_Expired}"
  by (cases "pt_status p") (simp_all add: promise_final_def)

interpretation promise_absorbing: absorbing_machine promise_step promise_final
proof unfold_locales
  fix p c p' assume "promise_final p" and "promise_step p c = Inr p'"
  then show "p' = p"
    by (cases c) (auto simp: promise_final_iff result_simps assertTracked_Inr applySettlement_def markPromiseBroken_def
        dest: transitionPromise_Inr expirePromise_Inr)
qed

text \<open>The terms of a promise never change.\<close>

definition same_terms :: "promise_to_pay \<Rightarrow> promise_to_pay \<Rightarrow> bool" where
  "same_terms p q \<longleftrightarrow> pt_promiseId q = pt_promiseId p \<and> pt_orgId q = pt_orgId p \<and> pt_customerId q = pt_customerId p \<and>
     pt_receivableIds q = pt_receivableIds p \<and> pt_amountMinor q = pt_amountMinor p \<and> pt_currency q = pt_currency p \<and>
     pt_promisedDate q = pt_promisedDate p \<and> pt_source q = pt_source p \<and> pt_consentRef q = pt_consentRef p \<and>
     pt_createdAt q = pt_createdAt p"

lemma same_terms_refl [simp]: "same_terms p p"
  by (simp add: same_terms_def)

lemma promise_step_terms:
  assumes "promise_ok p" and "promise_step p c = Inr p'"
  shows "same_terms p p'"
proof (cases c)
  case (Settle x clk)
  with assms(2) obtain e where "applySettlement p x clk = Inr (p', e)" by (auto simp: result_simps)
  with assms(1) show ?thesis by (rule applySettlement_Inr) (simp add: same_terms_def)
qed (use assms(2) in \<open>auto simp: result_simps same_terms_def dest!: transitionPromise_Inr markPromiseBroken_Inr expirePromise_Inr\<close>)

interpretation promise_terms: guarded_machine promise_step "\<lambda>q. promise_ok q \<and> same_terms p q" "\<lambda>_. True" for p
  by unfold_locales (use promise_step_ok promise_step_terms in \<open>force simp: same_terms_def\<close>)

text \<open>What the accepted settlements add.\<close>

fun settled_by :: "promise_command \<Rightarrow> int" where
  "settled_by (Settle x clk) = int_of_num x"
| "settled_by _ = 0"

lemma promise_step_settled:
  assumes "promise_ok p" and "promise_step p c = Inr p'"
  shows "pt_settledMinor p' = pt_settledMinor p + settled_by c"
proof (cases c)
  case (Settle x clk)
  with assms(2) obtain e where "applySettlement p x clk = Inr (p', e)" by (auto simp: result_simps)
  with assms(1) show ?thesis by (rule applySettlement_Inr) (simp add: Settle)
qed (use assms(2) in \<open>auto simp: result_simps dest!: transitionPromise_Inr markPromiseBroken_Inr expirePromise_Inr\<close>)

lemma promise_drive_settled:
  "promise_ok p \<Longrightarrow> pt_settledMinor (drive promise_step p cs) =
     pt_settledMinor p + sum_list (map settled_by (accepted promise_step p cs))"
proof (induction cs arbitrary: p)
  case (Cons c cs)
  show ?case
  proof (cases "promise_step p c")
    case (Inr p')
    from Cons.IH[OF promise_step_ok[OF Cons.prems Inr]] promise_step_settled[OF Cons.prems Inr] Inr show ?thesis by simp
  qed (use Cons in simp)
qed simp

text \<open>
  C27. The books of a promise: after any sequence of commands, accepted or refused, a recorded
  promise keeps its terms; what is settled is the sum of the accepted settlements, never more
  than promised; it is fulfilled exactly when fully covered; a broken one was still short when
  its date had passed; an expired one never received anything; and a promise that reached an
  end never changes again.
\<close>

theorem promise_books:
  assumes "createPromise args clk = Inr (p0, e)" and "p = drive promise_step p0 cmds"
  shows "same_terms p0 p \<and> pt_settledMinor p = sum_list (map settled_by (accepted promise_step p0 cmds)) \<and>
    0 \<le> pt_settledMinor p \<and> pt_settledMinor p \<le> pt_amountMinor p \<and>
    (pt_status p = PS_Fulfilled \<longleftrightarrow> pt_settledMinor p = pt_amountMinor p) \<and>
    (pt_status p = PS_Broken \<longrightarrow> (\<exists>t. pt_brokenAt p = Some t \<and> pt_promisedDate p < t)) \<and>
    (pt_status p = PS_Expired \<longrightarrow> pt_settledMinor p = 0) \<and>
    (promise_final p \<longrightarrow> drive promise_step p more_cmds = p)"
proof -
  note ok0 = createPromise_ok[OF assms(1)]
  have ok: "promise_ok p" "same_terms p0 p"
    using promise_terms.drive_inv[of p0 p0 cmds] ok0 by (simp_all add: assms(2))
  from ok(1) have "pt_status p = PS_Fulfilled \<longleftrightarrow> pt_settledMinor p = pt_amountMinor p"
    by (cases "pt_status p") (auto simp: promise_ok_def)
  then show ?thesis
    using ok promise_ok_settled[OF ok(1)] promise_drive_settled[of p0 cmds] ok0 promise_absorbing.drive_terminal[of p more_cmds]
    by (auto simp: assms(2) promise_ok_def)
qed

section \<open>The transition table\<close>

text \<open>
  The table is the abstract machine of the lane: a promise is its status, a step is an entry of
  the table. A further partial settlement leaves the status where it is.
\<close>

inductive table_reaches :: "promise_status \<Rightarrow> promise_status \<Rightarrow> bool" where
  stay: "table_reaches s s"
| entry: "table_reaches s t \<Longrightarrow> u \<in> set (PROMISE_TRANSITIONS t) \<Longrightarrow> table_reaches s u"

lemma promise_step_table:
  assumes "promise_ok p" and "promise_step p c = Inr p'"
  shows "pt_status p' \<in> set (PROMISE_TRANSITIONS (pt_status p)) \<or>
    (pt_status p = PS_Partially_Fulfilled \<and> pt_status p' = PS_Partially_Fulfilled)"
proof (cases c)
  case (Settle x clk)
  with assms(2) obtain e where "applySettlement p x clk = Inr (p', e)" by (auto simp: result_simps)
  with assms(1) show ?thesis by (rule applySettlement_Inr) auto
qed (use assms(2) in \<open>auto simp: result_simps dest!: transitionPromise_Inr markPromiseBroken_Inr expirePromise_Inr\<close>)

lemma table_reaches_step: "table_reaches s t \<Longrightarrow> u \<in> set (PROMISE_TRANSITIONS t) \<or> u = t \<Longrightarrow> table_reaches s u"
  by (auto intro: entry)

lemma promise_drive_table:
  "promise_ok p \<Longrightarrow> table_reaches s (pt_status p) \<Longrightarrow> table_reaches s (pt_status (drive promise_step p cs))"
proof (induction cs arbitrary: p)
  case (Cons c cs)
  show ?case
  proof (cases "promise_step p c")
    case (Inr p')
    have "table_reaches s (pt_status p')"
      using promise_step_table[OF Cons.prems(1) Inr] by (intro table_reaches_step[OF Cons.prems(2)]) auto
    with Cons.IH[OF promise_step_ok[OF Cons.prems(1) Inr]] Inr show ?thesis by simp
  qed (use Cons in simp)
qed simp

text \<open>Every entry of the table is taken by some command.\<close>

lemma transition_accepts:
  assumes "map_of PROMISE_STATUSES target = Some u" and "u \<in> set MANUAL_TARGETS" and "u \<in> set (PROMISE_TRANSITIONS (pt_status p))"
  shows "\<exists>p'. promise_step p (Transition target ''r'' ''a'' clk) = Inr p' \<and> pt_status p' = u"
proof -
  have "promise_assertNonBlank ''r'' code = Inr ''r''" "promise_assertNonBlank ''a'' code = Inr ''a''" for code
    by (simp_all add: promise_assertNonBlank_Inr trim_no_space is_js_space_def)
  then show ?thesis using assms by (auto simp: transitionPromise_def MANUAL_TARGETS_def Let_def)
qed

lemma break_accepts:
  assumes "promise_ok p" and "pt_status p = PS_Pending \<or> pt_status p = PS_Partially_Fulfilled"
    and "trim reason \<noteq> []" and "pt_promisedDate p < clk 0"
  shows "markPromiseBroken p reason caseId clk =
    Inr (p\<lparr>pt_status := PS_Broken, pt_brokenAt := Some (clk 0), pt_brokenReason := Some (trim reason)\<rparr>,
      [promise_domainEvent ''promise.broken'' (pt_promiseId p)
         (PromiseBroken (pt_promiseId p) (pt_customerId p) (pt_receivableIds p) (trim reason)
           (toISOString (pt_promisedDate p)) (pt_settledMinor p) (toISOString (clk 0))) (clk 1),
       promise_domainEvent ''collections.promiseBroken'' (pt_promiseId p)
         (CollectionsPromiseBroken (pt_promiseId p) caseId (toISOString (pt_promisedDate p)) (pt_customerId p)
           (pt_settledMinor p) (toISOString (clk 0))) (clk 2)])"
proof -
  have short: "pt_settledMinor p < pt_amountMinor p" using assms(1,2) by (auto simp: promise_ok_def)
  have "assertTracked p = Inr ()" using assms(2) by (simp add: assertTracked_Inr)
  moreover have "promise_assertNonBlank reason code = Inr (trim reason)" for code
    using assms(3) by (simp add: promise_assertNonBlank_Inr)
  moreover have "promise_minorToNumber (pt_settledMinor p) = Inr (pt_settledMinor p)"
    using assms(1) promise_ok_settled[OF assms(1)] by (simp add: promise_minorToNumber_Inr promise_ok_def)
  ultimately show ?thesis using assms(4) short by (simp add: markPromiseBroken_def Let_def)
qed

lemma expire_accepts:
  assumes "promise_ok p" and "pt_status p = PS_Created \<or> pt_status p = PS_Pending"
  shows "\<exists>clk p'. promise_step p (Expire clk (Some (Fin 0))) = Inr p' \<and> pt_status p' = PS_Expired"
proof -
  define t where "t = \<lceil>add_days (pt_promisedDate p) 0\<rceil>"
  then have "\<not> of_int t < add_days (pt_promisedDate p) 0" by (simp add: not_less)
  moreover have "is_safe_integer (Fin 0)" by (simp add: max_safe_integer_def)
  moreover have "pt_settledMinor p = 0" using assms by (auto simp: promise_ok_def)
  ultimately show ?thesis using assms(2)
    by (intro exI[of _ "\<lambda>_. t"]) (auto simp: expirePromise_def Let_def)
qed

lemma settle_accepts:
  assumes "promise_ok p" and "pt_status p = PS_Pending \<or> pt_status p = PS_Partially_Fulfilled"
    and "0 < n" "pt_settledMinor p + n \<le> pt_amountMinor p"
  shows "\<exists>p'. promise_step p (Settle (Fin (of_int n)) clk) = Inr p' \<and>
    pt_status p' = (if pt_settledMinor p + n = pt_amountMinor p then PS_Fulfilled else PS_Partially_Fulfilled)"
proof -
  obtain p' e where run: "applySettlement p (Fin (of_int n)) clk = Inr (p', e)"
    using applySettlement_accepts[OF assms] by blast
  from assms(1) run have "pt_status p' = (if pt_settledMinor p + n = pt_amountMinor p then PS_Fulfilled else PS_Partially_Fulfilled)"
    by (rule applySettlement_Inr) simp
  with run show ?thesis by simp
qed

lemma table_entry_taken:
  assumes ok: "promise_ok p" and entry: "u \<in> set (PROMISE_TRANSITIONS (pt_status p))" and "1 < pt_amountMinor p"
  shows "\<exists>c p'. promise_step p c = Inr p' \<and> pt_status p' = u"
proof -
  have tracked: "pt_status p = PS_Pending \<or> pt_status p = PS_Partially_Fulfilled"
    if "u = PS_Partially_Fulfilled \<or> u = PS_Fulfilled \<or> u = PS_Broken"
    using that entry by (cases "pt_status p") auto
  consider "u = PS_Pending \<or> u = PS_Cancelled" | "u = PS_Partially_Fulfilled" | "u = PS_Fulfilled" | "u = PS_Broken" | "u = PS_Expired"
    using entry by (cases "pt_status p") auto
  then show ?thesis
  proof cases
    case 1
    then have "map_of PROMISE_STATUSES (if u = PS_Pending then ''pending'' else ''cancelled'') = Some u" "u \<in> set MANUAL_TARGETS"
      by (auto simp: PROMISE_STATUSES_def MANUAL_TARGETS_def)
    from transition_accepts[OF this entry, of "\<lambda>_. 0"] show ?thesis by blast
  next
    case 2
    with entry ok have "pt_settledMinor p = 0" by (cases "pt_status p") (auto simp: promise_ok_def)
    with settle_accepts[OF ok tracked, of 1 "\<lambda>_. 0"] 2 assms(3)
    have "\<exists>p'. promise_step p (Settle (Fin (of_int 1)) (\<lambda>_. 0)) = Inr p' \<and> pt_status p' = u" by simp
    then show ?thesis by blast
  next
    case 3
    have "0 < pt_amountMinor p - pt_settledMinor p" using ok tracked 3 by (auto simp: promise_ok_def)
    with settle_accepts[OF ok tracked, of "pt_amountMinor p - pt_settledMinor p" "\<lambda>_. 0"] 3
    have "\<exists>p'. promise_step p (Settle (Fin (of_int (pt_amountMinor p - pt_settledMinor p))) (\<lambda>_. 0)) = Inr p' \<and>
      pt_status p' = u" by simp
    then show ?thesis by blast
  next
    case 4
    have "trim ''r'' \<noteq> []" by (simp add: trim_no_space is_js_space_def)
    from break_accepts[OF ok tracked this, of "\<lambda>_. pt_promisedDate p + 1" None] 4
    have "\<exists>p'. promise_step p (Break ''r'' None (\<lambda>_. pt_promisedDate p + 1)) = Inr p' \<and> pt_status p' = u" by simp
    then show ?thesis by blast
  next
    case 5
    with entry have "pt_status p = PS_Created \<or> pt_status p = PS_Pending" by (cases "pt_status p") auto
    with expire_accepts[OF ok] 5 show ?thesis by blast
  qed
qed

text \<open>
  The operations refine the transition table of SPEC 10: after any sequence of commands the
  status of a recorded promise is one the table reaches from \<open>created\<close>, every accepted command
  takes an entry of the table or adds a further partial settlement, and every entry of the
  current row can be taken by some command (partial fulfilment of a promise of more than one
  minor unit).
\<close>

theorem promise_refines_table:
  assumes "createPromise args clk = Inr (p0, e)" and "p = drive promise_step p0 cmds"
  shows "table_reaches PS_Created (pt_status p) \<and>
    (promise_step p c = Inr q \<longrightarrow> pt_status q \<in> set (PROMISE_TRANSITIONS (pt_status p)) \<or>
       pt_status p = PS_Partially_Fulfilled \<and> pt_status q = PS_Partially_Fulfilled) \<and>
    (1 < pt_amountMinor p \<longrightarrow>
       {u. \<exists>c' q'. promise_step p c' = Inr q' \<and> pt_status q' = u \<and> pt_status q' \<noteq> pt_status p} =
         set (PROMISE_TRANSITIONS (pt_status p)))"
proof -
  note ok0 = createPromise_ok[OF assms(1)]
  have ok: "promise_ok p" using promise_machine.drive_inv[of p0 cmds] ok0 by (simp add: assms(2))
  have "table_reaches PS_Created (pt_status p)"
    using ok0 promise_drive_table[of p0 PS_Created cmds] by (simp add: assms(2) stay)
  moreover have irrefl: "s \<notin> set (PROMISE_TRANSITIONS s)" for s by (cases s) simp_all
  have "{u. \<exists>c' q'. promise_step p c' = Inr q' \<and> pt_status q' = u \<and> pt_status q' \<noteq> pt_status p} =
      set (PROMISE_TRANSITIONS (pt_status p))" (is "?A = _") if "1 < pt_amountMinor p"
  proof (intro subset_antisym subsetI)
    fix u assume "u \<in> ?A"
    then show "u \<in> set (PROMISE_TRANSITIONS (pt_status p))" using promise_step_table[OF ok] by force
  next
    fix u assume u: "u \<in> set (PROMISE_TRANSITIONS (pt_status p))"
    with irrefl have "u \<noteq> pt_status p" by metis
    with table_entry_taken[OF ok u that] show "u \<in> ?A" by auto
  qed
  ultimately show ?thesis using promise_step_table[OF ok] by blast
qed

text \<open>
  A missed promise always reaches collections: markPromiseBroken accepts exactly a tracked
  promise after its date with a reason given, and then emits the lane fact and the
  collections trigger, both carrying what was settled; in every other case it raises the
  documented code, never PROMISE_ALREADY_FULFILLED.
\<close>

theorem markPromiseBroken_triggers:
  assumes "createPromise args clk0 = Inr (p0, e)" and "p = drive promise_step p0 cmds"
  shows "markPromiseBroken p reason caseId clk =
    (if pt_status p = PS_Created then throw ''PROMISE_NOT_ACTIVE''
     else if promise_final p then throw ''PROMISE_TRANSITION_INVALID''
     else if trim reason = [] then throw ''PROMISE_REASON_REQUIRED''
     else if clk 0 \<le> pt_promisedDate p then throw ''PROMISE_NOT_DUE''
     else Inr (p\<lparr>pt_status := PS_Broken, pt_brokenAt := Some (clk 0), pt_brokenReason := Some (trim reason)\<rparr>,
      [promise_domainEvent ''promise.broken'' (pt_promiseId p)
         (PromiseBroken (pt_promiseId p) (pt_customerId p) (pt_receivableIds p) (trim reason)
           (toISOString (pt_promisedDate p)) (pt_settledMinor p) (toISOString (clk 0))) (clk 1),
       promise_domainEvent ''collections.promiseBroken'' (pt_promiseId p)
         (CollectionsPromiseBroken (pt_promiseId p) caseId (toISOString (pt_promisedDate p)) (pt_customerId p)
           (pt_settledMinor p) (toISOString (clk 0))) (clk 2)]))"
proof -
  have ok: "promise_ok p" using promise_machine.drive_inv[of p0 cmds] createPromise_ok[OF assms(1)] by (simp add: assms(2))
  have tracked: "pt_status p = PS_Pending \<or> pt_status p = PS_Partially_Fulfilled \<longleftrightarrow> pt_status p \<noteq> PS_Created \<and> \<not> promise_final p"
    by (cases "pt_status p") (simp_all add: promise_final_def)
  show ?thesis
  proof (cases "pt_status p \<noteq> PS_Created \<and> \<not> promise_final p \<and> trim reason \<noteq> [] \<and> pt_promisedDate p < clk 0")
    case True
    with break_accepts[OF ok, of reason clk caseId] tracked show ?thesis by simp
  next
    case False
    then show ?thesis using tracked
      by (auto simp: markPromiseBroken_def assertTracked_def promise_assertNonBlank_def Let_def promise_final_def)
  qed
qed

section \<open>A sample promise\<close>

definition sample_promise_args :: promise_args where
  "sample_promise_args = \<lparr>pg_promiseId = ''p1'', pg_orgId = ''o1'', pg_customerId = ''c1'', pg_receivableIds = [''r1''],
     pg_amountMinor = Fin 1000, pg_currency = KES, pg_promisedDate = 50, pg_source = ''sms'', pg_consentRef = None\<rparr>"

lemma sample_promise: "\<exists>p e. createPromise sample_promise_args (\<lambda>_. 0) = Inr (p, e) \<and> pt_amountMinor p = 1000 \<and> pt_promisedDate p = 50"
  by (simp add: createPromise_def sample_promise_args_def assertAmountMinor_def promise_assertCurrency_def CURRENCIES_def
      assertPromiseSource_def PROMISE_SOURCES_def promise_minorToNumber_def max_safe_integer_def Let_def)

definition sample_promise_cmds :: "promise_command list" where
  "sample_promise_cmds = [Transition ''pending'' ''r'' ''a'' (\<lambda>_. 1), Settle (Fin 400) (\<lambda>_. 2), Settle (Fin 700) (\<lambda>_. 3)]"

lemma sample_promise_run:
  assumes "createPromise sample_promise_args (\<lambda>_. 0) = Inr (p, e)"
  shows "pt_status (drive promise_step p sample_promise_cmds) = PS_Partially_Fulfilled \<and>
    map settled_by (accepted promise_step p sample_promise_cmds) = [0, 400]"
proof -
  have nonblank: "promise_assertNonBlank ''r'' code = Inr ''r''" "promise_assertNonBlank ''a'' code = Inr ''a''" for code
    by (simp_all add: promise_assertNonBlank_Inr trim_no_space is_js_space_def)
  have sums: "int_plus 0 400 = 400" "int_plus 400 700 = 1100" "int_plus 1000 (-400) = 600"
    by (simp_all add: int_plus_exact)
  have amounts: "assertAmountMinor (Fin 400) code = Inr 400" "assertAmountMinor (Fin 700) code = Inr 700" for code
    by (simp_all add: assertAmountMinor_def max_safe_integer_def)
  have numbers: "promise_minorToNumber 400 = Inr 400" "promise_minorToNumber 600 = Inr 600"
    by (simp_all add: promise_minorToNumber_def max_safe_integer_def)
  have p: "pt_status p = PS_Created" "pt_settledMinor p = 0" "pt_amountMinor p = 1000"
    using createPromise_ok[OF assms] by (simp_all add: sample_promise_args_def)
  define p1 p2 where "p1 = p\<lparr>pt_status := PS_Pending, pt_pendingAt := Some 1\<rparr>"
    and "p2 = p1\<lparr>pt_status := PS_Partially_Fulfilled, pt_settledMinor := 400\<rparr>"
  have "promise_step p (Transition ''pending'' ''r'' ''a'' (\<lambda>_. 1)) = Inr p1"
    by (simp add: transitionPromise_def PROMISE_STATUSES_def MANUAL_TARGETS_def nonblank p p1_def Let_def)
  moreover have "promise_step p1 (Settle (Fin 400) (\<lambda>_. 2)) = Inr p2"
    by (simp add: applySettlement_def assertTracked_def amounts numbers sums remainingMinor_def p p1_def p2_def Let_def)
  moreover have "promise_step p2 (Settle (Fin 700) (\<lambda>_. 3)) = throw ''PROMISE_SETTLEMENT_EXCEEDS_PROMISED''"
    by (simp add: applySettlement_def assertTracked_def amounts sums p p1_def p2_def Let_def)
  ultimately show ?thesis
    by (simp add: sample_promise_cmds_def p2_def del: promise_step.simps)
qed

theorem promise_books_witness:
  "\<exists>p e. createPromise sample_promise_args (\<lambda>_. 0) = Inr (p, e) \<and> pt_settledMinor (drive promise_step p sample_promise_cmds) = 400"
proof -
  obtain p e where p: "createPromise sample_promise_args (\<lambda>_. 0) = Inr (p, e)" using sample_promise by blast
  from promise_books[OF p refl, of sample_promise_cmds] sample_promise_run[OF p] p show ?thesis by auto
qed

theorem promise_refines_table_witness:
  "\<exists>p e. createPromise sample_promise_args (\<lambda>_. 0) = Inr (p, e) \<and>
     table_reaches PS_Created (pt_status (drive promise_step p sample_promise_cmds))"
proof -
  obtain p e where p: "createPromise sample_promise_args (\<lambda>_. 0) = Inr (p, e)" using sample_promise by blast
  from promise_refines_table[OF p refl, of sample_promise_cmds] p show ?thesis by blast
qed

theorem markPromiseBroken_triggers_witness:
  "\<exists>p e p' es. createPromise sample_promise_args (\<lambda>_. 0) = Inr (p, e) \<and>
     markPromiseBroken (drive promise_step p sample_promise_cmds) ''late'' None (\<lambda>_. 60) = Inr (p', es) \<and> length es = 2"
proof -
  obtain p e where p: "createPromise sample_promise_args (\<lambda>_. 0) = Inr (p, e)" "pt_promisedDate p = 50" using sample_promise by blast
  have "pt_promisedDate (drive promise_step p sample_promise_cmds) = 50"
    using promise_terms.drive_inv[of p p sample_promise_cmds] createPromise_ok[OF p(1)] p(2) by (simp add: same_terms_def)
  moreover have "trim ''late'' \<noteq> []" by (simp add: trim_no_space is_js_space_def)
  ultimately show ?thesis
    using markPromiseBroken_triggers[OF p(1) refl, of sample_promise_cmds "''late''" None "\<lambda>_. 60"] sample_promise_run[OF p(1)] p(1)
    by (simp add: promise_final_def)
qed

end
