(* ===== verification/Dunning.thy ===== *)
theory Dunning
  imports Promise_To_Pay
begin

text \<open>
  The dunning cadence of the promises lane (\<open>src/src/domain/promises/dunning.ts\<close>): a configured
  ladder of steps relative to the due date, the consent gate, one orchestration tick, and the
  escalation of an unanswered step. The scheduled job that calls a tick and records what was
  sent is the driver at the end.
\<close>

section \<open>The ladder\<close>

datatype dunning_channel = D_Email | D_Sms | D_Whatsapp | D_Task

datatype dunning_kind =
    K_Reminder | K_Payment_Request | K_Whatsapp | K_Sms | K_Collector_Task | K_Manager_Escalation
  | K_Payment_Plan_Offer | K_Recovery_Workflow

record dunning_step =
  ds_key :: string
  ds_dayOffset :: js_num
  ds_kind :: dunning_kind
  ds_channel :: dunning_channel
  ds_requiresConsent :: bool

definition mk_step :: "string \<Rightarrow> js_num \<Rightarrow> dunning_kind \<Rightarrow> dunning_channel \<Rightarrow> bool \<Rightarrow> dunning_step" where
  "mk_step key dayOffset kind channel requiresConsent =
     \<lparr>ds_key = key, ds_dayOffset = dayOffset, ds_kind = kind, ds_channel = channel, ds_requiresConsent = requiresConsent\<rparr>"

definition DEFAULT_DUNNING_LADDER :: "dunning_step list" where
  "DEFAULT_DUNNING_LADDER =
     [mk_step ''pre_due_reminder'' (Fin (-3)) K_Reminder D_Email False,
      mk_step ''due_date_request'' (Fin 0) K_Payment_Request D_Email False,
      mk_step ''overdue_day_3'' (Fin 3) K_Whatsapp D_Whatsapp True,
      mk_step ''overdue_day_7'' (Fin 7) K_Sms D_Sms False,
      mk_step ''overdue_day_14'' (Fin 14) K_Collector_Task D_Task False,
      mk_step ''overdue_day_30'' (Fin 30) K_Manager_Escalation D_Task False,
      mk_step ''overdue_day_45'' (Fin 45) K_Payment_Plan_Offer D_Email False,
      mk_step ''overdue_day_60'' (Fin 60) K_Recovery_Workflow D_Task False]"

text \<open>The loop of \<open>assertLadder\<close>: the keys seen and the previous offset (\<open>None\<close> is \<open>-Infinity\<close>).\<close>

definition ladder_step :: "string set \<times> int option \<Rightarrow> dunning_step \<Rightarrow> (string set \<times> int option) result" where
  "ladder_step acc s = (case acc of (keys, previousOffset) \<Rightarrow>
     if trim (ds_key s) = [] then throw ''DUNNING_LADDER_INVALID''
     else if ds_key s \<in> keys then throw ''DUNNING_LADDER_INVALID''
     else if \<not> is_safe_integer (ds_dayOffset s) then throw ''DUNNING_LADDER_INVALID''
     else let off = int_of_num (ds_dayOffset s) in
       if (case previousOffset of None \<Rightarrow> False | Some prev \<Rightarrow> off < prev) then throw ''DUNNING_LADDER_INVALID''
       else Inr (insert (ds_key s) keys, Some off))"

definition assertLadder :: "dunning_step list \<Rightarrow> dunning_step list result" where
  "assertLadder ladder =
     (if ladder = [] then throw ''DUNNING_LADDER_INVALID''
      else and_then (reduce ladder_step ({}, None) ladder) (\<lambda>_. Inr ladder))"

section \<open>Selecting the due steps\<close>

record dunning_facts =
  df_dueDate :: date
  df_sentSteps :: "string list"
  df_consentRef :: "string option"
  df_subjectId :: uuid
  df_orgId :: uuid

definition utcDaysBetween :: "date \<Rightarrow> date \<Rightarrow> int" where
  "utcDaysBetween from_date to_date = int_plus (utc_day_index to_date) (- utc_day_index from_date)"

definition dueSteps :: "date \<Rightarrow> dunning_facts \<Rightarrow> dunning_step list \<Rightarrow> dunning_step list result" where
  "dueSteps now facts ladder =
     and_then (assertLadder ladder) (\<lambda>steps.
       let daysPast = utcDaysBetween (df_dueDate facts) now in
       Inr (filter (\<lambda>s. ds_key s \<notin> set (df_sentSteps facts) \<and> daysPast \<ge> int_of_num (ds_dayOffset s)) steps))"

section \<open>The consent gate\<close>

text \<open>\<open>None\<close> is the refusal \<open>DUNNING_CONSENT_REQUIRED\<close>.\<close>

definition evaluateDunningSend :: "dunning_step \<Rightarrow> string option \<Rightarrow> dunning_step option" where
  "evaluateDunningSend s consentRef =
     (if \<not> ds_requiresConsent s then Some s
      else case consentRef of Some ref \<Rightarrow> if trim ref \<noteq> [] then Some s else None | None \<Rightarrow> None)"

definition assertDunningSendable :: "dunning_step \<Rightarrow> string option \<Rightarrow> unit result" where
  "assertDunningSendable s consentRef =
     (case evaluateDunningSend s consentRef of None \<Rightarrow> throw ''DUNNING_CONSENT_REQUIRED'' | Some _ \<Rightarrow> Inr ())"

section \<open>One tick\<close>

datatype dunning_payload =
    DunningStepDue uuid uuid string js_num dunning_kind dunning_channel bool string
  | DunningEscalated uuid uuid string string string int string
  | DunningBlockedNoConsent uuid uuid string dunning_channel string

type_synonym dunning_event = "(dunning_payload, string) domain_event"

record dunning_plan =
  dp_sends :: "(dunning_step \<times> dunning_event) list"
  dp_blocked :: "(dunning_step \<times> dunning_event) list"

text \<open>The loop over the due steps: a send reads the clock once, a refusal twice.\<close>

fun orchestrate_steps :: "dunning_facts \<Rightarrow> clock \<Rightarrow> dunning_step list \<Rightarrow> dunning_plan" where
  "orchestrate_steps facts clk [] = \<lparr>dp_sends = [], dp_blocked = []\<rparr>"
| "orchestrate_steps facts clk (s # ss) =
     (case evaluateDunningSend s (df_consentRef facts) of
        Some _ \<Rightarrow>
          let rest = orchestrate_steps facts (clock_after 1 clk) ss
          in rest\<lparr>dp_sends := (s, promise_domainEvent ''dunning.stepDue'' (df_subjectId facts)
               (DunningStepDue (df_orgId facts) (df_subjectId facts) (ds_key s) (ds_dayOffset s) (ds_kind s) (ds_channel s)
                 (ds_requiresConsent s) (toISOString (df_dueDate facts))) (clk 0)) # dp_sends rest\<rparr>
      | None \<Rightarrow>
          let rest = orchestrate_steps facts (clock_after 2 clk) ss
          in rest\<lparr>dp_blocked := (s, promise_domainEvent ''collections.dunningBlockedNoConsent'' (df_subjectId facts)
               (DunningBlockedNoConsent (df_orgId facts) (df_subjectId facts) (ds_key s) (ds_channel s)
                 (toISOString (clk 0))) (clk 1)) # dp_blocked rest\<rparr>)"

definition orchestrateDunning :: "date \<Rightarrow> dunning_facts \<Rightarrow> clock \<Rightarrow> dunning_step list \<Rightarrow> dunning_plan result" where
  "orchestrateDunning now facts clk ladder =
     and_then (dueSteps now facts ladder) (\<lambda>due. Inr (orchestrate_steps facts clk due))"

section \<open>Escalation\<close>

definition DEFAULT_ESCALATION_AFTER_DAYS :: js_num where
  "DEFAULT_ESCALATION_AFTER_DAYS = Fin 3"

record escalation_facts =
  es_lastSendAt :: "date option"
  es_lastResponseAt :: "date option"
  es_stepKey :: string
  es_channel :: string
  es_subjectId :: uuid
  es_orgId :: uuid
  es_escalationAfterDays :: "js_num option"

definition escalationDue :: "date \<Rightarrow> escalation_facts \<Rightarrow> bool result" where
  "escalationDue now facts =
     (let afterDays = (case es_escalationAfterDays facts of None \<Rightarrow> DEFAULT_ESCALATION_AFTER_DAYS | Some n \<Rightarrow> n) in
      if \<not> is_safe_integer afterDays \<or> js_neg afterDays then throw ''DUNNING_ESCALATION_INVALID''
      else case es_lastSendAt facts of None \<Rightarrow> Inr False
        | Some sent \<Rightarrow>
          if (case es_lastResponseAt facts of None \<Rightarrow> False | Some response \<Rightarrow> response \<ge> sent) then Inr False
          else Inr (utcDaysBetween sent now \<ge> int_of_num afterDays))"

definition dunningEscalatedEvent :: "date \<Rightarrow> escalation_facts \<Rightarrow> clock \<Rightarrow> dunning_event result" where
  "dunningEscalatedEvent now facts clk =
     and_then (escalationDue now facts) (\<lambda>due.
       if \<not> due then throw ''DUNNING_ESCALATION_NOT_DUE''
       else let sent = the (es_lastSendAt facts) in
         Inr (promise_domainEvent ''dunning.escalated'' (es_subjectId facts)
           (DunningEscalated (es_orgId facts) (es_subjectId facts) (es_stepKey facts) (es_channel facts)
             (toISOString sent) (utcDaysBetween sent now) (toISOString (clk 0))) (clk 1)))"

section \<open>The ladder check\<close>

definition step_offset :: "dunning_step \<Rightarrow> int" where
  "step_offset s = int_of_num (ds_dayOffset s)"

lemma ladder_steps_Inr:
  "(\<exists>acc. reduce ladder_step (keys, prev) ls = Inr acc) \<longleftrightarrow>
     (\<forall>s \<in> set ls. trim (ds_key s) \<noteq> [] \<and> is_safe_integer (ds_dayOffset s)) \<and>
     distinct (map ds_key ls) \<and> set (map ds_key ls) \<inter> keys = {} \<and> sorted (map step_offset ls) \<and>
     (case prev of None \<Rightarrow> True | Some q \<Rightarrow> \<forall>s \<in> set ls. q \<le> step_offset s)"
proof (induction ls arbitrary: keys prev)
  case (Cons s ls)
  show ?case
  proof (cases "ladder_step (keys, prev) s")
    case (Inl e)
    then have "trim (ds_key s) = [] \<or> ds_key s \<in> keys \<or> \<not> is_safe_integer (ds_dayOffset s) \<or>
      (\<exists>q. prev = Some q \<and> step_offset s < q)"
      by (auto simp: ladder_step_def step_offset_def Let_def split: if_splits option.splits)
    then show ?thesis using Inl by auto
  next
    case (Inr acc)
    then have acc: "acc = (insert (ds_key s) keys, Some (step_offset s))" "trim (ds_key s) \<noteq> []" "ds_key s \<notin> keys"
      "is_safe_integer (ds_dayOffset s)" "\<And>q. prev = Some q \<Longrightarrow> q \<le> step_offset s"
      by (auto simp: ladder_step_def step_offset_def Let_def split: if_splits option.splits)
    show ?thesis using Cons.IH[of "insert (ds_key s) keys" "Some (step_offset s)"] acc Inr
      by (cases prev) force+
  qed
qed (simp split: option.split)

definition ladder_ok :: "dunning_step list \<Rightarrow> bool" where
  "ladder_ok ls \<longleftrightarrow> ls \<noteq> [] \<and> (\<forall>s \<in> set ls. trim (ds_key s) \<noteq> [] \<and> is_safe_integer (ds_dayOffset s)) \<and>
     distinct (map ds_key ls) \<and> sorted (map step_offset ls)"

lemma assertLadder_Inr: "assertLadder ls = Inr ls' \<longleftrightarrow> ladder_ok ls \<and> ls' = ls"
proof -
  have "assertLadder ls = Inr ls' \<longleftrightarrow> ls \<noteq> [] \<and> (\<exists>acc. reduce ladder_step ({}, None) ls = Inr acc) \<and> ls' = ls"
    by (auto simp: assertLadder_def result_simps)
  then show ?thesis unfolding ladder_steps_Inr by (auto simp: ladder_ok_def)
qed

lemma default_ladder_ok: "ladder_ok DEFAULT_DUNNING_LADDER"
  by (simp add: ladder_ok_def DEFAULT_DUNNING_LADDER_def mk_step_def step_offset_def trim_no_space is_js_space_def
      max_safe_integer_def)

section \<open>A tick splits the due steps\<close>

definition sendable :: "dunning_facts \<Rightarrow> dunning_step \<Rightarrow> bool" where
  "sendable facts s \<longleftrightarrow> \<not> ds_requiresConsent s \<or> (\<exists>ref. df_consentRef facts = Some ref \<and> trim ref \<noteq> [])"

lemma evaluateDunningSend_iff:
  "evaluateDunningSend s (df_consentRef facts) = (if sendable facts s then Some s else None)"
  by (auto simp: evaluateDunningSend_def sendable_def split: option.split)

lemma orchestrate_steps_split:
  "map fst (dp_sends (orchestrate_steps facts clk ss)) = filter (sendable facts) ss"
  "map fst (dp_blocked (orchestrate_steps facts clk ss)) = filter (\<lambda>s. \<not> sendable facts s) ss"
  by (induction ss arbitrary: clk) (auto simp: evaluateDunningSend_iff Let_def)

definition step_due :: "date \<Rightarrow> dunning_facts \<Rightarrow> dunning_step \<Rightarrow> bool" where
  "step_due now facts s \<longleftrightarrow> ds_key s \<notin> set (df_sentSteps facts) \<and> utcDaysBetween (df_dueDate facts) now \<ge> step_offset s"

lemma orchestrateDunning_Inr:
  "orchestrateDunning now facts clk ladder = Inr plan \<longleftrightarrow>
     ladder_ok ladder \<and> plan = orchestrate_steps facts clk (filter (step_due now facts) ladder)"
  by (auto simp: orchestrateDunning_def dueSteps_def result_simps assertLadder_Inr step_due_def step_offset_def cong: filter_cong)

text \<open>The days between two dates are the days between their UTC calendar dates.\<close>

definition calendar_date :: "date \<Rightarrow> bool" where
  "calendar_date t \<longleftrightarrow> valid_time t \<and> (getUTCFullYear t < 0 \<or> 99 < getUTCFullYear t)"

lemma utcDaysBetween_eq:
  assumes "calendar_date s" and "calendar_date t"
  shows "utcDaysBetween s t = day_of t - day_of s"
proof -
  have "\<bar>day_of u\<bar> \<le> 100000001" if "valid_time u" for u
    using that by (auto simp: valid_time_def max_time_def day_of_def ms_per_day_def abs_le_iff)
  then have "\<bar>day_of s\<bar> \<le> 100000001" "\<bar>day_of t\<bar> \<le> 100000001" using assms by (simp_all add: calendar_date_def)
  then have "\<bar>day_of t + - day_of s\<bar> \<le> max_safe_integer" by (simp add: max_safe_integer_def)
  from int_plus_safe[OF this] show ?thesis using assms by (simp add: utcDaysBetween_def utc_day_index_eq calendar_date_def)
qed

text \<open>
  A dunning tick partitions the ladder: with a valid ladder the sends and the refusals
  together are exactly the steps that were not sent before and whose UTC day has come, each in
  ladder order; a step is refused exactly when it requires consent and the subject carries no
  non-blank consent reference. An invalid ladder is refused as a whole.
\<close>

theorem orchestrateDunning_partition:
  assumes "calendar_date now" and "calendar_date (df_dueDate facts)"
  shows "case orchestrateDunning now facts clk ladder of
      Inl e \<Rightarrow> e = DomainError ''DUNNING_LADDER_INVALID'' \<and> \<not> ladder_ok ladder
    | Inr plan \<Rightarrow> ladder_ok ladder \<and>
        (let due = filter (\<lambda>s. ds_key s \<notin> set (df_sentSteps facts) \<and>
                     day_of (df_dueDate facts) + step_offset s \<le> day_of now) ladder
         in map fst (dp_sends plan) = filter (sendable facts) due \<and>
            map fst (dp_blocked plan) = filter (\<lambda>s. \<not> sendable facts s) due)"
proof (cases "orchestrateDunning now facts clk ladder")
  case (Inl e)
  then have "assertLadder ladder = Inl e" by (auto simp: orchestrateDunning_def dueSteps_def result_simps Let_def)
  moreover have "reduce ladder_step acc ls = Inl e \<Longrightarrow> e = DomainError ''DUNNING_LADDER_INVALID''" for acc ls
    by (induction ls arbitrary: acc) (auto simp: result_simps ladder_step_def Let_def split: if_splits option.splits prod.splits)
  ultimately have "e = DomainError ''DUNNING_LADDER_INVALID''" by (auto simp: assertLadder_def result_simps split: if_splits)
  moreover have "\<not> ladder_ok ladder" using \<open>assertLadder ladder = Inl e\<close> assertLadder_Inr[of ladder ladder] by auto
  ultimately show ?thesis using Inl by simp
next
  case (Inr plan)
  have due: "step_due now facts = (\<lambda>s. ds_key s \<notin> set (df_sentSteps facts) \<and> day_of (df_dueDate facts) + step_offset s \<le> day_of now)"
    by (rule ext) (auto simp: step_due_def utcDaysBetween_eq[OF assms(2,1)])
  from Inr have "ladder_ok ladder" "plan = orchestrate_steps facts clk (filter (step_due now facts) ladder)"
    by (simp_all add: orchestrateDunning_Inr)
  then show ?thesis using Inr by (simp add: orchestrate_steps_split due Let_def)
qed

section \<open>The scheduled job\<close>

text \<open>A run of the job at \<open>now\<close>: the sends of the tick are recorded in the facts.\<close>

fun dunning_tick :: "dunning_step list \<Rightarrow> dunning_facts \<Rightarrow> date \<times> clock \<Rightarrow> dunning_facts result" where
  "dunning_tick ladder facts (now, clk) = and_then (orchestrateDunning now facts clk ladder) (\<lambda>plan.
     Inr (facts\<lparr>df_sentSteps := df_sentSteps facts @ map ds_key (map fst (dp_sends plan))\<rparr>))"

lemma dunning_tick_Inr:
  "dunning_tick ladder facts (now, clk) = Inr facts' \<longleftrightarrow> ladder_ok ladder \<and>
     facts' = facts\<lparr>df_sentSteps := df_sentSteps facts @
       map ds_key (filter (sendable facts) (filter (step_due now facts) ladder))\<rparr>"
  by (auto simp: result_simps orchestrateDunning_Inr orchestrate_steps_split simp del: map_map)

definition dunning_log_ok :: "dunning_step list \<Rightarrow> dunning_facts \<Rightarrow> dunning_facts \<Rightarrow> bool" where
  "dunning_log_ok ladder f0 f \<longleftrightarrow> f = f0\<lparr>df_sentSteps := df_sentSteps f\<rparr> \<and> distinct (df_sentSteps f) \<and>
     (\<exists>new. df_sentSteps f = df_sentSteps f0 @ new \<and> set new \<subseteq> ds_key ` {s \<in> set ladder. sendable f0 s})"

lemma sendable_sent [simp]: "sendable (f\<lparr>df_sentSteps := xs\<rparr>) = sendable f"
  by (rule ext) (simp add: sendable_def)

interpretation dunning_job: guarded_machine "dunning_tick ladder" "dunning_log_ok ladder f0" "\<lambda>_. True" for ladder f0
proof unfold_locales
  fix f tick f'
  assume inv: "dunning_log_ok ladder f0 f" and run: "dunning_tick ladder f tick = Inr f'"
  obtain now clk where "tick = (now, clk)" by (cases tick)
  with run have ladder: "ladder_ok ladder" and f': "f' = f\<lparr>df_sentSteps := df_sentSteps f @
       map ds_key (filter (sendable f) (filter (step_due now f) ladder))\<rparr>" by (simp_all only: dunning_tick_Inr)
  let ?new = "map ds_key (filter (sendable f) (filter (step_due now f) ladder))"
  have "distinct ?new" using ladder by (simp add: ladder_ok_def distinct_map inj_on_def)
  moreover have "set ?new \<inter> set (df_sentSteps f) = {}" by (auto simp: step_due_def)
  moreover have "sendable f = sendable f0"
  proof -
    from inv have "f = f0\<lparr>df_sentSteps := df_sentSteps f\<rparr>" by (simp add: dunning_log_ok_def)
    then show ?thesis by (metis sendable_sent)
  qed
  ultimately show "dunning_log_ok ladder f0 f'" using inv unfolding dunning_log_ok_def f' by auto
qed

text \<open>
  No step is sent twice and no gated step without consent: over any sequence of runs of the
  job, at whatever times, the keys recorded as sent stay distinct, what was recorded stays, and
  every new key belongs to a step of the ladder the consent gate lets through.
\<close>

theorem dunning_sends_once:
  assumes "distinct (df_sentSteps f0)" and "f = drive (dunning_tick ladder) f0 ticks"
  shows "distinct (df_sentSteps f) \<and>
    (\<exists>new. df_sentSteps f = df_sentSteps f0 @ new \<and> set new \<subseteq> ds_key ` {s \<in> set ladder. sendable f0 s})"
proof -
  have "dunning_log_ok ladder f0 f0" using assms(1) by (simp add: dunning_log_ok_def)
  from dunning_job.drive_inv[OF this, of ticks] show ?thesis by (simp add: dunning_log_ok_def assms(2))
qed

text \<open>
  C28. Dunning catches up: whatever runs of the job were missed or refused before, the next run
  leaves no step of the ladder behind whose day has come. Afterwards each such step is recorded
  as sent, or it is consent-gated, the subject has no consent, and the run reports the refusal.
\<close>

theorem dunning_catches_up:
  assumes "ladder_ok ladder" and "calendar_date now" and "calendar_date (df_dueDate f0)" and "distinct (df_sentSteps f0)"
    and "f = drive (dunning_tick ladder) f0 ticks" and "f' = drive (dunning_tick ladder) f0 (ticks @ [(now, clk)])"
    and "s \<in> set ladder" and "day_of (df_dueDate f0) + step_offset s \<le> day_of now"
  shows "ds_key s \<in> set (df_sentSteps f') \<or>
    (ds_requiresConsent s \<and> \<not> sendable f0 s \<and>
     (\<exists>plan. orchestrateDunning now f clk ladder = Inr plan \<and> s \<in> fst ` set (dp_blocked plan)))"
proof -
  have "dunning_log_ok ladder f0 f0" using assms(4) by (simp add: dunning_log_ok_def)
  from dunning_job.drive_inv[OF this, of ticks] have f: "f = f0\<lparr>df_sentSteps := df_sentSteps f\<rparr>"
    by (simp add: dunning_log_ok_def assms(5))
  then have same: "sendable f = sendable f0" "df_dueDate f = df_dueDate f0"
    by (metis sendable_sent) (metis f dunning_facts.select_convs(1) dunning_facts.surjective dunning_facts.update_convs(2))
  have due: "step_due now f s \<longleftrightarrow> ds_key s \<notin> set (df_sentSteps f)"
    using assms(8) by (simp add: step_due_def same utcDaysBetween_eq[OF assms(3,2)])
  obtain f2 where tick: "dunning_tick ladder f (now, clk) = Inr f2" using assms(1) dunning_tick_Inr by blast
  then have "f' = f2" by (simp add: assms(5,6) drive_append del: dunning_tick.simps)
  with tick have f': "df_sentSteps f' = df_sentSteps f @ map ds_key (filter (sendable f) (filter (step_due now f) ladder))"
    by (simp add: dunning_tick_Inr del: dunning_tick.simps)
  have plan: "orchestrateDunning now f clk ladder = Inr (orchestrate_steps f clk (filter (step_due now f) ladder))"
    using assms(1) by (simp add: orchestrateDunning_Inr)
  have blocked: "fst ` set (dp_blocked (orchestrate_steps f clk ss)) = set (filter (\<lambda>s. \<not> sendable f s) ss)" for ss
    by (metis orchestrate_steps_split(2) set_map)
  show ?thesis
  proof (cases "ds_key s \<in> set (df_sentSteps f) \<or> sendable f0 s")
    case True
    then show ?thesis using f' due assms(7) by (auto simp: same)
  next
    case False
    then have "ds_requiresConsent s" by (simp add: sendable_def)
    moreover have "s \<in> fst ` set (dp_blocked (orchestrate_steps f clk (filter (step_due now f) ladder)))"
      unfolding blocked using False due assms(7) by (simp add: same)
    ultimately show ?thesis using False plan by blast
  qed
qed

section \<open>A sample subject\<close>

definition sample_dunning :: dunning_facts where
  "sample_dunning = \<lparr>df_dueDate = 0, df_sentSteps = [''pre_due_reminder''], df_consentRef = None, df_subjectId = ''r1'', df_orgId = ''o1''\<rparr>"

lemma sample_days: "calendar_date 0" "calendar_date (10 * ms_per_day)" "day_of 0 = 0" "day_of (10 * ms_per_day) = 10"
  by code_simp+

theorem orchestrateDunning_partition_witness:
  "\<exists>plan. orchestrateDunning (10 * ms_per_day) sample_dunning (\<lambda>_. 0) DEFAULT_DUNNING_LADDER = Inr plan \<and>
     map (\<lambda>x. ds_key (fst x)) (dp_sends plan) = [''due_date_request'', ''overdue_day_7'']"
proof -
  let ?o = "orchestrateDunning (10 * ms_per_day) sample_dunning (\<lambda>_. 0) DEFAULT_DUNNING_LADDER"
  obtain plan where plan: "?o = Inr plan" using default_ladder_ok orchestrateDunning_Inr by blast
  have "calendar_date (df_dueDate sample_dunning)" by (simp add: sample_dunning_def sample_days)
  from orchestrateDunning_partition[OF sample_days(2) this, where clk = "\<lambda>_. 0" and ladder = DEFAULT_DUNNING_LADDER] plan
  have "map ds_key (map fst (dp_sends plan)) = [''due_date_request'', ''overdue_day_7'']"
    by (simp add: sample_dunning_def sample_days DEFAULT_DUNNING_LADDER_def mk_step_def step_offset_def sendable_def)
  then show ?thesis using plan by (simp add: comp_def)
qed

theorem dunning_sends_once_witness:
  "distinct (df_sentSteps (drive (dunning_tick DEFAULT_DUNNING_LADDER) sample_dunning [(10 * ms_per_day, \<lambda>_. 0), (10 * ms_per_day, \<lambda>_. 0)]))"
  using dunning_sends_once[OF _ refl, of sample_dunning DEFAULT_DUNNING_LADDER "[(10 * ms_per_day, \<lambda>_. 0), (10 * ms_per_day, \<lambda>_. 0)]"]
  by (simp add: sample_dunning_def)

theorem dunning_catches_up_witness:
  "''overdue_day_7'' \<in> set (df_sentSteps (drive (dunning_tick DEFAULT_DUNNING_LADDER) sample_dunning [(10 * ms_per_day, \<lambda>_. 0)]))"
proof -
  let ?s = "mk_step ''overdue_day_7'' (Fin 7) K_Sms D_Sms False"
  have "?s \<in> set DEFAULT_DUNNING_LADDER" by (simp add: DEFAULT_DUNNING_LADDER_def)
  moreover have "day_of (df_dueDate sample_dunning) + step_offset ?s \<le> day_of (10 * ms_per_day)"
    "calendar_date (df_dueDate sample_dunning)" "distinct (df_sentSteps sample_dunning)"
    by (simp_all add: sample_dunning_def sample_days step_offset_def mk_step_def)
  ultimately have "ds_key ?s \<in> set (df_sentSteps (drive (dunning_tick DEFAULT_DUNNING_LADDER) sample_dunning ([] @ [(10 * ms_per_day, \<lambda>_. 0)]))) \<or>
      ds_requiresConsent ?s"
    using dunning_catches_up[OF default_ladder_ok sample_days(2) _ _ refl refl, of sample_dunning ?s "[]" "\<lambda>_. 0"] by blast
  then show ?thesis by (simp add: mk_step_def)
qed

end
