(* ===== verification/Dispute.thy ===== *)
theory Dispute
  imports Money Js_Date Contracts
begin

text \<open>
  Disputes (\<open>src/src/domain/disputes/dispute.ts\<close>), the collections pause policy (\<open>pause.ts\<close>)
  and the events of the lane (\<open>events.ts\<close>). A dispute challenges one receivable, moves through a
  transition table with an audit row per step, and holds automated collections while it is open.
  The adapter's store is a list of disputes in the order they were opened.
\<close>

section \<open>Data\<close>

datatype dispute_category = Pricing | Quality | Quantity | Delivery | Duplicate | Other_Category

definition DISPUTE_CATEGORIES :: "(string \<times> dispute_category) list" where
  "DISPUTE_CATEGORIES = [(''pricing'', Pricing), (''quality'', Quality), (''quantity'', Quantity), (''delivery'', Delivery),
     (''duplicate'', Duplicate), (''other'', Other_Category)]"

definition assertCategory :: "string \<Rightarrow> dispute_category result" where
  "assertCategory category = (case map_of DISPUTE_CATEGORIES category of
     None \<Rightarrow> throw ''DISPUTE_CATEGORY_INVALID'' | Some c \<Rightarrow> Inr c)"

datatype dispute_status =
    DS_Opened | DS_Investigating | DS_Awaiting_Customer | DS_Awaiting_Business | DS_Resolved | DS_Rejected | DS_Cancelled

definition DISPUTE_STATUSES :: "(string \<times> dispute_status) list" where
  "DISPUTE_STATUSES = [(''opened'', DS_Opened), (''investigating'', DS_Investigating),
     (''awaiting_customer'', DS_Awaiting_Customer), (''awaiting_business'', DS_Awaiting_Business),
     (''resolved'', DS_Resolved), (''rejected'', DS_Rejected), (''cancelled'', DS_Cancelled)]"

definition OPEN_DISPUTE_STATES :: "dispute_status list" where
  "OPEN_DISPUTE_STATES = [DS_Opened, DS_Investigating, DS_Awaiting_Customer, DS_Awaiting_Business]"

definition isDisputeOpen :: "dispute_status \<Rightarrow> bool" where
  "isDisputeOpen status \<longleftrightarrow> status \<in> set OPEN_DISPUTE_STATES"

fun DISPUTE_TRANSITIONS :: "dispute_status \<Rightarrow> dispute_status list" where
  "DISPUTE_TRANSITIONS DS_Opened = [DS_Investigating, DS_Cancelled]"
| "DISPUTE_TRANSITIONS DS_Investigating =
     [DS_Awaiting_Customer, DS_Awaiting_Business, DS_Resolved, DS_Rejected, DS_Cancelled]"
| "DISPUTE_TRANSITIONS DS_Awaiting_Customer = [DS_Investigating, DS_Resolved, DS_Rejected, DS_Cancelled]"
| "DISPUTE_TRANSITIONS DS_Awaiting_Business = [DS_Investigating, DS_Resolved, DS_Rejected, DS_Cancelled]"
| "DISPUTE_TRANSITIONS DS_Resolved = []"
| "DISPUTE_TRANSITIONS DS_Rejected = []"
| "DISPUTE_TRANSITIONS DS_Cancelled = []"

text \<open>A remedy as the caller gives it: the id may be missing and the tag unknown.\<close>

datatype dispute_outcome =
    No_Remedy | Credit_Note_Remedy "uuid option" | Write_Off_Remedy "uuid option" | Unknown_Remedy string

fun assertOutcome :: "dispute_outcome option \<Rightarrow> dispute_outcome result" where
  "assertOutcome None = Inr No_Remedy"
| "assertOutcome (Some No_Remedy) = Inr No_Remedy"
| "assertOutcome (Some (Credit_Note_Remedy i)) =
     (if i = None then throw ''DISPUTE_OUTCOME_INVALID'' else Inr (Credit_Note_Remedy i))"
| "assertOutcome (Some (Write_Off_Remedy i)) =
     (if i = None then throw ''DISPUTE_OUTCOME_INVALID'' else Inr (Write_Off_Remedy i))"
| "assertOutcome (Some (Unknown_Remedy r)) = throw ''DISPUTE_OUTCOME_INVALID''"

record dispute_transition =
  dt_from :: dispute_status
  dt_to :: dispute_status
  dt_reason :: string
  dt_actorId :: string
  dt_at :: date

record dispute =
  di_id :: uuid
  di_disputeNumber :: string
  di_sequence :: int
  di_orgId :: uuid
  di_receivableId :: uuid
  di_category :: dispute_category
  di_description :: string
  di_evidenceRefs :: "string list"
  di_assignedTo :: "uuid option"
  di_openedAt :: date
  di_openedBy :: string
  di_status :: dispute_status
  di_outcome :: "dispute_outcome option"
  di_closedAt :: "date option"
  di_closedBy :: "string option"
  di_history :: "dispute_transition list"

section \<open>Events\<close>

datatype dispute_payload =
    DisputeOpened uuid string uuid uuid dispute_category string "string list" "uuid option" string string
  | DisputeStatusChanged uuid uuid dispute_status dispute_status string string
  | DisputeResolved uuid uuid string string dispute_outcome string
  | DisputeRejected uuid uuid string string string
  | DisputeCancelled uuid uuid string string string

type_synonym dispute_event = "(dispute_payload, string) domain_event"

definition dispute_domainEvent :: "string \<Rightarrow> uuid \<Rightarrow> dispute_payload \<Rightarrow> date \<Rightarrow> dispute_event" where
  "dispute_domainEvent name aggregateId payload now =
     \<lparr>ev_name = name, ev_version = 1, ev_aggregateId = aggregateId, ev_payload = payload,
      ev_occurredAt = toISOString now\<rparr>"

section \<open>Opening\<close>

definition dispute_assertNonBlank :: "string \<Rightarrow> string \<Rightarrow> string result" where
  "dispute_assertNonBlank raw code = (let value = trim raw in if value = [] then throw code else Inr value)"

definition assertActor :: "string \<Rightarrow> string result" where
  "assertActor actorId = dispute_assertNonBlank actorId ''DISPUTE_ACTOR_REQUIRED''"

definition formatDisputeNumber :: "int \<Rightarrow> string" where
  "formatDisputeNumber sequenceNo = ''DSP-'' @ pad_num 6 sequenceNo"

record open_dispute_args =
  od_id :: uuid
  od_orgId :: uuid
  od_receivableId :: uuid
  od_category :: string
  od_description :: string
  od_evidenceRefs :: "string list option"
  od_assignedTo :: "uuid option"
  od_openedBy :: string
  od_sequenceNo :: js_num
  od_formatNumber :: "(int \<Rightarrow> string) option"

definition openDispute :: "open_dispute_args \<Rightarrow> dispute list \<Rightarrow> clock \<Rightarrow> (dispute \<times> dispute_event) result" where
  "openDispute args existing clk =
     and_then (assertCategory (od_category args)) (\<lambda>category.
     and_then (dispute_assertNonBlank (od_description args) ''DISPUTE_DESCRIPTION_REQUIRED'') (\<lambda>description.
     and_then (assertActor (od_openedBy args)) (\<lambda>openedBy.
       let openedAt = clk 0 in
       if \<not> is_safe_integer (od_sequenceNo args) \<or> js_less (od_sequenceNo args) 1 then throw ''DISPUTE_SEQUENCE_INVALID''
       else let sequenceNo = int_of_num (od_sequenceNo args);
                inOrg = filter (\<lambda>d. di_orgId d = od_orgId args) existing;
                latestSequence = foldl (\<lambda>m d. max m (di_sequence d)) 0 inOrg in
       if sequenceNo \<le> latestSequence then throw ''DISPUTE_SEQUENCE_OUT_OF_ORDER''
       else let format = (case od_formatNumber args of None \<Rightarrow> formatDisputeNumber | Some f \<Rightarrow> f) in
       and_then (dispute_assertNonBlank (format sequenceNo) ''DISPUTE_NUMBER_INVALID'') (\<lambda>disputeNumber.
         if list_ex (\<lambda>d. di_disputeNumber d = disputeNumber) inOrg then throw ''DISPUTE_NUMBER_TAKEN''
         else if list_ex (\<lambda>d. di_id d = od_id args) existing then throw ''DISPUTE_ID_TAKEN''
         else if find (\<lambda>d. di_receivableId d = od_receivableId args \<and> isDisputeOpen (di_status d)) existing \<noteq> None
           then throw ''DISPUTE_ALREADY_OPEN''
         else and_then (traverse (\<lambda>ref. dispute_assertNonBlank ref ''DISPUTE_EVIDENCE_INVALID'')
             (case od_evidenceRefs args of None \<Rightarrow> [] | Some refs \<Rightarrow> refs)) (\<lambda>evidenceRefs.
           let d = \<lparr>di_id = od_id args, di_disputeNumber = disputeNumber, di_sequence = sequenceNo, di_orgId = od_orgId args,
               di_receivableId = od_receivableId args, di_category = category, di_description = description,
               di_evidenceRefs = evidenceRefs, di_assignedTo = od_assignedTo args, di_openedAt = openedAt,
               di_openedBy = openedBy, di_status = DS_Opened, di_outcome = None, di_closedAt = None, di_closedBy = None,
               di_history = []\<rparr>
           in Inr (d, dispute_domainEvent ''dispute.opened'' (di_id d)
             (DisputeOpened (di_id d) disputeNumber (di_orgId d) (di_receivableId d) category description evidenceRefs
               (di_assignedTo d) openedBy (toISOString openedAt)) (clk 1)))))))"

section \<open>Moving along the lifecycle\<close>

definition transition_event ::
  "dispute \<Rightarrow> dispute_status \<Rightarrow> string \<Rightarrow> string \<Rightarrow> dispute_outcome option \<Rightarrow> date \<Rightarrow> date \<Rightarrow> dispute_event" where
  "transition_event d dest reason actorId outcome at_time occurred =
     (if dest = DS_Resolved then dispute_domainEvent ''dispute.resolved'' (di_id d)
        (DisputeResolved (di_id d) (di_receivableId d) reason actorId (the outcome) (toISOString at_time)) occurred
      else if dest = DS_Rejected then dispute_domainEvent ''dispute.rejected'' (di_id d)
        (DisputeRejected (di_id d) (di_receivableId d) reason actorId (toISOString at_time)) occurred
      else if dest = DS_Cancelled then dispute_domainEvent ''dispute.cancelled'' (di_id d)
        (DisputeCancelled (di_id d) (di_receivableId d) reason actorId (toISOString at_time)) occurred
      else dispute_domainEvent ''dispute.statusChanged'' (di_id d)
        (DisputeStatusChanged (di_id d) (di_receivableId d) (di_status d) dest reason actorId) occurred)"

definition transitionDispute ::
  "dispute \<Rightarrow> string \<Rightarrow> string \<Rightarrow> string \<Rightarrow> dispute_outcome option \<Rightarrow> clock \<Rightarrow> (dispute \<times> dispute_event) result" where
  "transitionDispute d target reason0 actorId0 outcome0 clk =
     (case map_of DISPUTE_STATUSES target of
        None \<Rightarrow> throw ''DISPUTE_STATUS_INVALID''
      | Some dest \<Rightarrow>
        if dest \<notin> set (DISPUTE_TRANSITIONS (di_status d)) then throw ''DISPUTE_TRANSITION_INVALID''
        else and_then (dispute_assertNonBlank reason0 ''DISPUTE_REASON_REQUIRED'') (\<lambda>reason.
          and_then (assertActor actorId0) (\<lambda>actorId.
          let at_time = clk 0; terminal = (DISPUTE_TRANSITIONS dest = []) in
          and_then (if dest = DS_Resolved then and_then (assertOutcome outcome0) (\<lambda>oc. Inr (Some oc)) else Inr None) (\<lambda>outcome.
            Inr (d\<lparr>di_status := dest,
                   di_outcome := (if dest = DS_Resolved then outcome else di_outcome d),
                   di_closedAt := (if terminal then Some at_time else di_closedAt d),
                   di_closedBy := (if terminal then Some actorId else di_closedBy d),
                   di_history := di_history d @ [\<lparr>dt_from = di_status d, dt_to = dest, dt_reason = reason,
                     dt_actorId = actorId, dt_at = at_time\<rparr>]\<rparr>,
                 transition_event d dest reason actorId outcome at_time (clk 1))))))"

section \<open>The pause policy\<close>

record dispute_facts =
  dx_disputeId :: uuid
  dx_receivableId :: uuid
  dx_status :: dispute_status

definition toDisputeFacts :: "dispute \<Rightarrow> dispute_facts" where
  "toDisputeFacts d = \<lparr>dx_disputeId = di_id d, dx_receivableId = di_receivableId d, dx_status = di_status d\<rparr>"

definition collectionsHoldFor :: "dispute_status list \<Rightarrow> bool" where
  "collectionsHoldFor states \<longleftrightarrow> list_ex isDisputeOpen states"

definition automatedCollectionAllowed :: "dispute_facts list \<Rightarrow> bool" where
  "automatedCollectionAllowed facts \<longleftrightarrow> \<not> list_ex (\<lambda>f. isDisputeOpen (dx_status f)) facts"

section \<open>The store\<close>

text \<open>
  The adapter appends an opened dispute and replaces a moved one in place. A command for an id
  that is not stored never reaches the lane.
\<close>

datatype dispute_command =
    Open_Dispute open_dispute_args clock
  | Move_Dispute uuid string string string "dispute_outcome option" clock

fun dispute_run :: "dispute list \<Rightarrow> dispute_command \<Rightarrow> (dispute list \<times> dispute_event) result" where
  "dispute_run ds (Open_Dispute args clk) = and_then (openDispute args ds clk) (\<lambda>(d, e). Inr (ds @ [d], e))"
| "dispute_run ds (Move_Dispute i target reason actorId outcome clk) =
     (case find (\<lambda>d. di_id d = i) ds of None \<Rightarrow> Inl PlainError
      | Some d \<Rightarrow> and_then (transitionDispute d target reason actorId outcome clk) (\<lambda>(d', e).
          Inr (map (\<lambda>x. if di_id x = i then d' else x) ds, e)))"

definition dispute_step :: "dispute list \<Rightarrow> dispute_command \<Rightarrow> dispute list result" where
  "dispute_step ds c = and_then (dispute_run ds c) (\<lambda>(ds', _). Inr ds')"

section \<open>What the operations do\<close>

lemma isDisputeOpen_iff: "isDisputeOpen s \<longleftrightarrow> DISPUTE_TRANSITIONS s \<noteq> []"
  by (cases s) (simp_all add: isDisputeOpen_def OPEN_DISPUTE_STATES_def)

lemma dispute_assertNonBlank_Inr: "dispute_assertNonBlank raw code = Inr v \<longleftrightarrow> v = trim raw \<and> v \<noteq> []"
  by (auto simp: dispute_assertNonBlank_def Let_def)

lemma foldl_max_ge:
  "m \<le> foldl (\<lambda>m d. max m (f d)) m xs" "x \<in> set xs \<Longrightarrow> f x \<le> foldl (\<lambda>m d. max m (f d)) m xs" for m :: int
proof (induction xs arbitrary: m)
  case (Cons y ys)
  { case 1 show ?case using Cons(1)[of "max m (f y)"] by simp }
  { case 2 then show ?case using Cons(1,2)[of "max m (f y)"] by (auto intro: order_trans[of _ "max m (f y)"]) }
qed simp_all

lemma openDispute_Inr:
  assumes "openDispute args ds clk = Inr (d, e)"
  shows "di_status d = DS_Opened \<and> di_history d = [] \<and> di_outcome d = None \<and> di_closedAt d = None \<and>
    di_receivableId d = od_receivableId args \<and> 0 < di_sequence d \<and>
    (\<forall>x \<in> set ds. di_id x \<noteq> di_id d \<and>
       (di_orgId x = di_orgId d \<longrightarrow> di_sequence x < di_sequence d \<and> di_disputeNumber x \<noteq> di_disputeNumber d) \<and>
       (di_receivableId x = di_receivableId d \<longrightarrow> \<not> isDisputeOpen (di_status x))) \<and>
    (\<exists>n i c b ev a u t. ev_payload e = DisputeOpened i n (di_orgId d) (di_receivableId d) c b ev a u t)"
proof -
  let ?org = "filter (\<lambda>d. di_orgId d = od_orgId args) ds"
  from assms have d: "di_status d = DS_Opened" "di_history d = []" "di_outcome d = None" "di_closedAt d = None"
    "di_receivableId d = od_receivableId args" "di_id d = od_id args" "di_orgId d = od_orgId args"
    and g: "foldl (\<lambda>m d. max m (di_sequence d)) 0 ?org < di_sequence d"
      "\<not> list_ex (\<lambda>x. di_disputeNumber x = di_disputeNumber d) ?org" "\<not> list_ex (\<lambda>x. di_id x = od_id args) ds"
      "find (\<lambda>x. di_receivableId x = od_receivableId args \<and> isDisputeOpen (di_status x)) ds = None"
    and e: "\<exists>n i c b ev a u t. ev_payload e = DisputeOpened i n (di_orgId d) (di_receivableId d) c b ev a u t"
    by (auto simp: openDispute_def result_simps Let_def not_le dispute_domainEvent_def simp del: list_ex_iff)
  have "di_sequence x < di_sequence d" if "x \<in> set ds" "di_orgId x = di_orgId d" for x
    using foldl_max_ge(2)[of x ?org di_sequence 0] that g(1) d by simp
  moreover have "0 < di_sequence d" using foldl_max_ge(1)[of 0 di_sequence ?org] g(1) by simp
  ultimately show ?thesis using d g e by (auto simp: list_ex_iff find_None_iff)
qed

lemma transitionDispute_Inr:
  assumes "transitionDispute d target reason actorId outcome clk = Inr (d', e)"
  obtains dest oc where "dest \<in> set (DISPUTE_TRANSITIONS (di_status d))"
    and "(oc = None) \<longleftrightarrow> dest \<noteq> DS_Resolved"
    and "d' = d\<lparr>di_status := dest, di_outcome := (if dest = DS_Resolved then oc else di_outcome d),
       di_closedAt := (if isDisputeOpen dest then di_closedAt d else Some (clk 0)),
       di_closedBy := (if isDisputeOpen dest then di_closedBy d else Some (trim actorId)),
       di_history := di_history d @ [\<lparr>dt_from = di_status d, dt_to = dest, dt_reason = trim reason,
         dt_actorId = trim actorId, dt_at = clk 0\<rparr>]\<rparr>"
    and "e = transition_event d dest (trim reason) (trim actorId) oc (clk 0) (clk 1)"
proof -
  obtain dest where dest: "map_of DISPUTE_STATUSES target = Some dest" "dest \<in> set (DISPUTE_TRANSITIONS (di_status d))"
    using assms by (auto simp: transitionDispute_def split: option.splits if_splits)
  define m where "m = (if dest = DS_Resolved then and_then (assertOutcome outcome) (\<lambda>oc. Inr (Some oc)) else Inr None)"
  from assms dest obtain oc where oc: "m = Inr oc"
    and d': "d' = d\<lparr>di_status := dest, di_outcome := (if dest = DS_Resolved then oc else di_outcome d),
       di_closedAt := (if DISPUTE_TRANSITIONS dest = [] then Some (clk 0) else di_closedAt d),
       di_closedBy := (if DISPUTE_TRANSITIONS dest = [] then Some (trim actorId) else di_closedBy d),
       di_history := di_history d @ [\<lparr>dt_from = di_status d, dt_to = dest, dt_reason = trim reason,
         dt_actorId = trim actorId, dt_at = clk 0\<rparr>]\<rparr>"
    and e: "e = transition_event d dest (trim reason) (trim actorId) oc (clk 0) (clk 1)"
    unfolding transitionDispute_def m_def
    by (simp add: and_then_Inr_iff dispute_assertNonBlank_Inr assertActor_def Let_def) blast
  from oc have "(oc = None) \<longleftrightarrow> dest \<noteq> DS_Resolved" by (auto simp: m_def result_simps split: if_splits)
  then show thesis using d' e by (intro that[OF dest(2)]) (simp_all add: isDisputeOpen_iff)
qed

section \<open>One dispute: its audit trail\<close>

fun trail :: "dispute_status \<Rightarrow> dispute_transition list \<Rightarrow> dispute_status \<Rightarrow> bool" where
  "trail s [] t = (s = t)"
| "trail s (h # hs) t = (dt_from h = s \<and> dt_to h \<in> set (DISPUTE_TRANSITIONS s) \<and> trail (dt_to h) hs t)"

lemma trail_snoc: "trail s (hs @ [h]) t \<longleftrightarrow> trail s hs (dt_from h) \<and> dt_to h \<in> set (DISPUTE_TRANSITIONS (dt_from h)) \<and> dt_to h = t"
  by (induction hs arbitrary: s) auto

definition dispute_ok :: "dispute \<Rightarrow> bool" where
  "dispute_ok d \<longleftrightarrow> trail DS_Opened (di_history d) (di_status d) \<and>
     (if isDisputeOpen (di_status d) then di_closedAt d = None
      else di_history d \<noteq> [] \<and> di_closedAt d = Some (dt_at (last (di_history d))) \<and>
        di_closedBy d = Some (dt_actorId (last (di_history d)))) \<and>
     (di_outcome d \<noteq> None \<longleftrightarrow> di_status d = DS_Resolved)"

lemma transitionDispute_ok:
  assumes "dispute_ok d" and "transitionDispute d target reason actorId outcome clk = Inr (d', e)"
  shows "dispute_ok d' \<and> isDisputeOpen (di_status d) \<and> di_id d' = di_id d \<and> di_orgId d' = di_orgId d \<and>
    di_sequence d' = di_sequence d \<and> di_disputeNumber d' = di_disputeNumber d \<and> di_receivableId d' = di_receivableId d \<and>
    (\<exists>h. di_history d' = di_history d @ [h])"
  using assms(2)
proof (rule transitionDispute_Inr)
  fix dest oc
  assume dest: "dest \<in> set (DISPUTE_TRANSITIONS (di_status d))" and oc: "(oc = None) \<longleftrightarrow> dest \<noteq> DS_Resolved"
    and d': "d' = d\<lparr>di_status := dest, di_outcome := (if dest = DS_Resolved then oc else di_outcome d),
       di_closedAt := (if isDisputeOpen dest then di_closedAt d else Some (clk 0)),
       di_closedBy := (if isDisputeOpen dest then di_closedBy d else Some (trim actorId)),
       di_history := di_history d @ [\<lparr>dt_from = di_status d, dt_to = dest, dt_reason = trim reason,
         dt_actorId = trim actorId, dt_at = clk 0\<rparr>]\<rparr>"
  have live: "isDisputeOpen (di_status d)" using dest by (auto simp: isDisputeOpen_iff)
  then have "di_closedAt d = None" "di_status d \<noteq> DS_Resolved" "trail DS_Opened (di_history d) (di_status d)" "di_outcome d = None"
    using assms(1) by (auto simp: dispute_ok_def isDisputeOpen_iff)
  then show ?thesis using live dest oc unfolding d' dispute_ok_def by (auto simp: trail_snoc)
qed

section \<open>The store keeps one open dispute per receivable\<close>

definition rivals :: "dispute \<Rightarrow> dispute \<Rightarrow> bool" where
  "rivals x y \<longleftrightarrow> di_id x = di_id y \<or> (di_orgId x = di_orgId y \<and> (di_sequence y \<le> di_sequence x \<or> di_disputeNumber x = di_disputeNumber y)) \<or>
     (di_receivableId x = di_receivableId y \<and> isDisputeOpen (di_status x) \<and> isDisputeOpen (di_status y))"

definition store_ok :: "dispute list \<Rightarrow> bool" where
  "store_ok ds \<longleftrightarrow> list_all dispute_ok ds \<and> sorted_wrt (\<lambda>x y. \<not> rivals x y) ds"

lemma store_ok_ids: "store_ok ds \<Longrightarrow> distinct (map di_id ds)"
  unfolding store_ok_def by (intro distinct_map_sorted_wrt) (auto simp: rivals_def elim: sorted_wrt_mono_rel[rotated])

lemma store_replace:
  assumes "store_ok ds" and "d \<in> set ds" and "dispute_ok d'" and "isDisputeOpen (di_status d)"
    and same: "di_id d' = di_id d" "di_orgId d' = di_orgId d" "di_sequence d' = di_sequence d"
      "di_disputeNumber d' = di_disputeNumber d" "di_receivableId d' = di_receivableId d"
  shows "store_ok (map (\<lambda>x. if di_id x = di_id d then d' else x) ds)"
proof -
  let ?f = "\<lambda>x. if di_id x = di_id d then d' else x"
  have unique: "x = d" if "x \<in> set ds" "di_id x = di_id d" for x
    using store_ok_ids[OF assms(1)] assms(2) that by (auto simp: distinct_map inj_on_def)
  have "rivals x y" if "x \<in> set ds" "y \<in> set ds" "rivals (?f x) (?f y)" for x y
    using that(3) unique[OF that(1)] unique[OF that(2)] same assms(4) by (auto simp: rivals_def split: if_splits)
  then have "sorted_wrt (\<lambda>x y. \<not> rivals (?f x) (?f y)) ds"
    using assms(1) unfolding store_ok_def by (auto elim: sorted_wrt_mono_rel[rotated])
  then show ?thesis using assms(1,3) by (auto simp: store_ok_def sorted_wrt_map list_all_iff)
qed

lemma dispute_step_ok:
  assumes ok: "store_ok ds" and "dispute_step ds c = Inr ds'"
  shows "store_ok ds'"
proof (cases c)
  case (Open_Dispute args clk)
  with assms(2) obtain d e where d: "openDispute args ds clk = Inr (d, e)" "ds' = ds @ [d]"
    by (auto simp: dispute_step_def result_simps)
  note o = openDispute_Inr[OF d(1)]
  then have "dispute_ok d" by (simp add: dispute_ok_def isDisputeOpen_iff)
  moreover have "\<not> rivals x d" if "x \<in> set ds" for x using o that by (auto simp: rivals_def)
  ultimately show ?thesis using ok d(2) by (auto simp: store_ok_def sorted_wrt_append)
next
  case (Move_Dispute i target reason actorId outcome clk)
  with assms(2) obtain d d' e where d: "find (\<lambda>d. di_id d = i) ds = Some d"
    "transitionDispute d target reason actorId outcome clk = Inr (d', e)" "ds' = map (\<lambda>x. if di_id x = i then d' else x) ds"
    by (auto simp: dispute_step_def result_simps split: option.splits)
  from find_SomeD[OF d(1)] have i: "d \<in> set ds" "di_id d = i" by simp_all
  with ok have "dispute_ok d" by (auto simp: store_ok_def list_all_iff)
  from transitionDispute_ok[OF this d(2)] store_replace[OF ok i(1), of d'] show ?thesis by (simp add: d(3) i(2))
qed

interpretation dispute_store: guarded_machine dispute_step store_ok "\<lambda>_. True"
  by unfold_locales (rule dispute_step_ok)

lemma sorted_wrt_pairless:
  assumes "sorted_wrt R xs" and "\<And>x y. x \<in> set xs \<Longrightarrow> y \<in> set xs \<Longrightarrow> \<not> R x y"
  shows "length xs \<le> 1"
proof (cases xs)
  case (Cons x ys)
  then show ?thesis using assms by (cases ys) auto
qed simp

lemma sorted_wrt_pair: "sorted_wrt R xs \<Longrightarrow> x \<in> set xs \<Longrightarrow> y \<in> set xs \<Longrightarrow> x = y \<or> R x y \<or> R y x"
  by (induction xs) auto

lemma store_ok_filter: "store_ok ds \<Longrightarrow> sorted_wrt (\<lambda>x y. \<not> rivals x y) (filter P ds)"
  by (simp add: store_ok_def sorted_wrt_filter)

text \<open>
  C29. One dispute at a time: whatever commands reach an empty store, accepted or refused, ids stay
  distinct, a receivable never carries two open disputes, and within an organisation the
  sequence numbers grow strictly and no dispute number is used twice.
\<close>

theorem dispute_exclusive:
  shows "distinct (map di_id (drive dispute_step [] cmds)) \<and>
    length (filter (\<lambda>d. di_receivableId d = r \<and> isDisputeOpen (di_status d)) (drive dispute_step [] cmds)) \<le> 1 \<and>
    sorted_wrt (<) (map di_sequence (filter (\<lambda>d. di_orgId d = org) (drive dispute_step [] cmds))) \<and>
    distinct (map di_disputeNumber (filter (\<lambda>d. di_orgId d = org) (drive dispute_step [] cmds)))"
proof -
  define ds where "ds = drive dispute_step [] cmds"
  have ok: "store_ok ds" using dispute_store.drive_inv[of "[]" cmds] by (simp add: ds_def store_ok_def)
  have "length (filter (\<lambda>d. di_receivableId d = r \<and> isDisputeOpen (di_status d)) ds) \<le> 1"
    by (rule sorted_wrt_pairless[OF store_ok_filter[OF ok]]) (auto simp: rivals_def)
  moreover have "sorted_wrt (\<lambda>x y. di_sequence x < di_sequence y) (filter (\<lambda>d. di_orgId d = org) ds)"
    using store_ok_filter[OF ok] by (rule sorted_wrt_mono_rel[rotated]) (auto simp: rivals_def)
  moreover have "sorted_wrt (\<lambda>x y. di_disputeNumber x \<noteq> di_disputeNumber y) (filter (\<lambda>d. di_orgId d = org) ds)"
    using store_ok_filter[OF ok] by (rule sorted_wrt_mono_rel[rotated]) (auto simp: rivals_def)
  ultimately show ?thesis using store_ok_ids[OF ok] unfolding ds_def[symmetric]
    by (simp add: sorted_wrt_map distinct_map_sorted_wrt)
qed

section \<open>Pausing and resuming collections\<close>

text \<open>
  A consumer of the events: the receivables on hold, from the pause fact \<open>dispute.opened\<close> and the
  three resume facts.
\<close>

fun hold_after :: "uuid set \<Rightarrow> dispute_payload \<Rightarrow> uuid set" where
  "hold_after H (DisputeOpened _ _ _ r _ _ _ _ _ _) = insert r H"
| "hold_after H (DisputeResolved _ r _ _ _ _) = H - {r}"
| "hold_after H (DisputeRejected _ r _ _ _) = H - {r}"
| "hold_after H (DisputeCancelled _ r _ _ _) = H - {r}"
| "hold_after H (DisputeStatusChanged _ _ _ _ _ _) = H"

text \<open>The events the store emits for a sequence of commands.\<close>

fun dispute_events :: "dispute list \<Rightarrow> dispute_command list \<Rightarrow> dispute_event list" where
  "dispute_events ds [] = []"
| "dispute_events ds (c # cs) = (case dispute_run ds c of Inl _ \<Rightarrow> dispute_events ds cs
     | Inr (ds', e) \<Rightarrow> e # dispute_events ds' cs)"

definition disputed :: "dispute list \<Rightarrow> uuid set" where
  "disputed ds = di_receivableId ` {d \<in> set ds. isDisputeOpen (di_status d)}"

lemma in_disputed: "r \<in> disputed ds \<longleftrightarrow> (\<exists>d \<in> set ds. di_receivableId d = r \<and> isDisputeOpen (di_status d))"
  by (auto simp: disputed_def)

lemma hold_after_transition:
  "hold_after H (ev_payload (transition_event d dest reason actorId oc t t')) =
    (if isDisputeOpen dest then H else H - {di_receivableId d})"
  by (cases dest) (simp_all add: transition_event_def dispute_domainEvent_def isDisputeOpen_iff)

lemma disputed_replace:
  assumes "store_ok ds" and "d \<in> set ds" and "isDisputeOpen (di_status d)" and "di_receivableId d' = di_receivableId d"
  shows "disputed (map (\<lambda>x. if di_id x = di_id d then d' else x) ds) =
    (if isDisputeOpen (di_status d') then disputed ds else disputed ds - {di_receivableId d})"
proof -
  have unique: "x = d" if "x \<in> set ds" "di_id x = di_id d" for x
    using store_ok_ids[OF assms(1)] assms(2) that by (auto simp: distinct_map inj_on_def)
  have "x = d" if "x \<in> set ds" "di_receivableId x = di_receivableId d" "isDisputeOpen (di_status x)" for x
    using sorted_wrt_pair[OF assms(1)[unfolded store_ok_def, THEN conjunct2] that(1) assms(2)] that assms(3) by (auto simp: rivals_def)
  note only = this
  show ?thesis
  proof (rule set_eqI)
    fix r
    have "r \<in> disputed (map (\<lambda>x. if di_id x = di_id d then d' else x) ds) \<longleftrightarrow>
      (r = di_receivableId d \<and> isDisputeOpen (di_status d')) \<or>
      (\<exists>x \<in> set ds. di_id x \<noteq> di_id d \<and> di_receivableId x = r \<and> isDisputeOpen (di_status x))"
      unfolding in_disputed using assms(2,4) by auto
    also have "(\<exists>x \<in> set ds. di_id x \<noteq> di_id d \<and> di_receivableId x = r \<and> isDisputeOpen (di_status x)) \<longleftrightarrow>
      r \<in> disputed ds \<and> r \<noteq> di_receivableId d"
      unfolding in_disputed using unique only by blast
    also have "(r = di_receivableId d \<and> isDisputeOpen (di_status d')) \<or> (r \<in> disputed ds \<and> r \<noteq> di_receivableId d) \<longleftrightarrow>
      r \<in> (if isDisputeOpen (di_status d') then disputed ds else disputed ds - {di_receivableId d})"
      using assms(2,3) by (auto simp: disputed_def)
    finally show "r \<in> disputed (map (\<lambda>x. if di_id x = di_id d then d' else x) ds) \<longleftrightarrow>
      r \<in> (if isDisputeOpen (di_status d') then disputed ds else disputed ds - {di_receivableId d})" .
  qed
qed

lemma dispute_run_hold:
  assumes ok: "store_ok ds" and "dispute_run ds c = Inr (ds', e)"
  shows "disputed ds' = hold_after (disputed ds) (ev_payload e)"
proof (cases c)
  case (Open_Dispute args clk)
  with assms(2) obtain d where d: "openDispute args ds clk = Inr (d, e)" "ds' = ds @ [d]" by (auto simp: result_simps)
  note o = openDispute_Inr[OF d(1)]
  then have "hold_after (disputed ds) (ev_payload e) = insert (di_receivableId d) (disputed ds)" by auto
  moreover have "disputed ds' = insert (di_receivableId d) (disputed ds)"
    using o by (intro set_eqI) (auto simp: d(2) in_disputed isDisputeOpen_iff)
  ultimately show ?thesis by simp
next
  case (Move_Dispute i target reason actorId outcome clk)
  with assms(2) obtain d d' where d: "find (\<lambda>d. di_id d = i) ds = Some d"
    "transitionDispute d target reason actorId outcome clk = Inr (d', e)" "ds' = map (\<lambda>x. if di_id x = i then d' else x) ds"
    by (auto simp: result_simps split: option.splits)
  from find_SomeD[OF d(1)] have i: "d \<in> set ds" "di_id d = i" by simp_all
  with ok have "dispute_ok d" by (auto simp: store_ok_def list_all_iff)
  note t = transitionDispute_ok[OF this d(2)]
  from d(2) show ?thesis
  proof (rule transitionDispute_Inr)
    fix dest oc
    assume d': "d' = d\<lparr>di_status := dest, di_outcome := (if dest = DS_Resolved then oc else di_outcome d),
       di_closedAt := (if isDisputeOpen dest then di_closedAt d else Some (clk 0)),
       di_closedBy := (if isDisputeOpen dest then di_closedBy d else Some (trim actorId)),
       di_history := di_history d @ [\<lparr>dt_from = di_status d, dt_to = dest, dt_reason = trim reason,
         dt_actorId = trim actorId, dt_at = clk 0\<rparr>]\<rparr>"
      and e: "e = transition_event d dest (trim reason) (trim actorId) oc (clk 0) (clk 1)"
    have "di_status d' = dest" by (simp add: d')
    with disputed_replace[OF ok i(1), of d'] t show ?thesis
      by (simp add: d(3) i(2) e hold_after_transition)
  qed
qed

lemma dispute_events_hold:
  "store_ok ds \<Longrightarrow> foldl hold_after (disputed ds) (map ev_payload (dispute_events ds cs)) = disputed (drive dispute_step ds cs)"
proof (induction cs arbitrary: ds)
  case (Cons c cs)
  show ?case
  proof (cases "dispute_run ds c")
    case (Inl err)
    then show ?thesis using Cons by (simp add: dispute_step_def)
  next
    case (Inr r)
    obtain ds' e where r: "r = (ds', e)" by (cases r)
    then have step: "dispute_step ds c = Inr ds'" using Inr by (simp add: dispute_step_def)
    from Cons.IH[OF dispute_step_ok[OF Cons.prems step]] dispute_run_hold[OF Cons.prems, of c ds' e] Inr step show ?thesis
      by (simp add: r)
  qed
qed simp

text \<open>
  C30. Pause and resume facts are enough: a consumer that only folds the events of the lane, holding
  a receivable on \<open>dispute.opened\<close> and releasing it on \<open>dispute.resolved\<close>, \<open>.rejected\<close> or
  \<open>.cancelled\<close>, holds exactly the receivables for which the policy gate over the stored disputes
  refuses automated collection.
\<close>

theorem dispute_hold_refines_events:
  "r \<in> foldl hold_after {} (map ev_payload (dispute_events [] cmds)) \<longleftrightarrow>
     \<not> automatedCollectionAllowed (filter (\<lambda>f. dx_receivableId f = r) (map toDisputeFacts (drive dispute_step [] cmds)))"
proof -
  have "foldl hold_after {} (map ev_payload (dispute_events [] cmds)) = disputed (drive dispute_step [] cmds)"
    using dispute_events_hold[of "[]" cmds] by (simp add: store_ok_def disputed_def)
  then show ?thesis
    by (auto simp: disputed_def automatedCollectionAllowed_def toDisputeFacts_def list_ex_iff)
qed

section \<open>The audit trail only grows\<close>

lemma dispute_step_history:
  assumes ok: "store_ok ds" and "dispute_step ds c = Inr ds'" and x: "x \<in> set ds"
  shows "\<exists>y \<in> set ds'. di_id y = di_id x \<and> (\<exists>more. di_history y = di_history x @ more)"
proof (cases c)
  case (Open_Dispute args clk)
  then show ?thesis using assms(2) x by (auto simp: dispute_step_def result_simps)
next
  case (Move_Dispute i target reason actorId outcome clk)
  with assms(2) obtain d d' e where d: "find (\<lambda>d. di_id d = i) ds = Some d"
    "transitionDispute d target reason actorId outcome clk = Inr (d', e)" "ds' = map (\<lambda>x. if di_id x = i then d' else x) ds"
    by (auto simp: dispute_step_def result_simps split: option.splits)
  from find_SomeD[OF d(1)] have i: "d \<in> set ds" "di_id d = i" by simp_all
  with ok have "dispute_ok d" by (auto simp: store_ok_def list_all_iff)
  note t = transitionDispute_ok[OF this d(2)]
  show ?thesis
  proof (cases "di_id x = i")
    case True
    then have "x = d" using store_ok_ids[OF ok] i x by (auto simp: distinct_map inj_on_def)
    then show ?thesis using t i by (intro bexI[of _ d']) (auto simp: d(3) intro!: rev_image_eqI[of d])
  next
    case False
    then show ?thesis using x by (intro bexI[of _ x]) (auto simp: d(3) intro!: rev_image_eqI[of x])
  qed
qed

lemma dispute_drive_history:
  "store_ok ds \<Longrightarrow> x \<in> set ds \<Longrightarrow>
     \<exists>y \<in> set (drive dispute_step ds cs). di_id y = di_id x \<and> (\<exists>more. di_history y = di_history x @ more)"
proof (induction cs arbitrary: ds x)
  case (Cons c cs)
  show ?case
  proof (cases "dispute_step ds c")
    case (Inr ds')
    from dispute_step_history[OF Cons.prems(1) Inr Cons.prems(2)] obtain y m where
      y: "y \<in> set ds'" "di_id y = di_id x" "di_history y = di_history x @ m" by blast
    from Cons.IH[OF dispute_step_ok[OF Cons.prems(1) Inr] y(1)] y(2,3) Inr show ?thesis by auto
  qed (use Cons in simp)
qed auto

text \<open>
  The audit trail is complete: the history of every stored dispute is a path through the
  transition table from \<open>opened\<close> to its status; a closed one carries the time and actor of its
  last row, an open one none; only a resolved one has an outcome; and no later command removes
  or rewrites a row.
\<close>

theorem dispute_audit_complete:
  assumes "ds = drive dispute_step [] cmds" and "d \<in> set ds"
  shows "trail DS_Opened (di_history d) (di_status d) \<and>
    (if isDisputeOpen (di_status d) then di_closedAt d = None
     else di_closedAt d = Some (dt_at (last (di_history d))) \<and> di_closedBy d = Some (dt_actorId (last (di_history d)))) \<and>
    (di_outcome d \<noteq> None \<longleftrightarrow> di_status d = DS_Resolved) \<and>
    (\<exists>d' \<in> set (drive dispute_step ds more_cmds). di_id d' = di_id d \<and> (\<exists>more. di_history d' = di_history d @ more))"
proof -
  have ok: "store_ok ds" using dispute_store.drive_inv[of "[]" cmds] by (simp add: assms(1) store_ok_def)
  then have "dispute_ok d" using assms(2) by (auto simp: store_ok_def list_all_iff)
  then show ?thesis using dispute_drive_history[OF ok assms(2), of more_cmds] by (auto simp: dispute_ok_def split: if_splits)
qed

section \<open>A sample dispute\<close>

definition sample_dispute_cmds :: "dispute_command list" where
  "sample_dispute_cmds = [Open_Dispute \<lparr>od_id = ''d1'', od_orgId = ''o1'', od_receivableId = ''r1'', od_category = ''pricing'',
     od_description = ''x'', od_evidenceRefs = None, od_assignedTo = None, od_openedBy = ''u1'', od_sequenceNo = Fin 1,
     od_formatNumber = None\<rparr> (\<lambda>_. 5)]"

definition sample_dispute :: dispute where
  "sample_dispute = \<lparr>di_id = ''d1'', di_disputeNumber = ''DSP-000001'', di_sequence = 1, di_orgId = ''o1'', di_receivableId = ''r1'',
     di_category = Pricing, di_description = ''x'', di_evidenceRefs = [], di_assignedTo = None, di_openedAt = 5, di_openedBy = ''u1'',
     di_status = DS_Opened, di_outcome = None, di_closedAt = None, di_closedBy = None, di_history = []\<rparr>"

lemma sample_dispute_number: "formatDisputeNumber 1 = ''DSP-000001''"
  by code_simp

lemma sample_dispute_run: "drive dispute_step [] sample_dispute_cmds = [sample_dispute]"
  by (simp add: sample_dispute_cmds_def sample_dispute_def dispute_step_def openDispute_def assertCategory_def DISPUTE_CATEGORIES_def
      dispute_assertNonBlank_def assertActor_def trim_no_space is_js_space_def sample_dispute_number max_safe_integer_def Let_def)

theorem dispute_audit_complete_witness:
  "sample_dispute \<in> set (drive dispute_step [] sample_dispute_cmds) \<and> trail DS_Opened (di_history sample_dispute) (di_status sample_dispute)"
  using dispute_audit_complete[OF refl, of sample_dispute sample_dispute_cmds "[]"] by (simp add: sample_dispute_run)

end
