(* ===== verification/Payment_Link.thy ===== *)
theory Payment_Link
  imports Money Ids Contracts
begin

text \<open>
  Payment links (\<open>src/src/domain/paymentlinks/link.ts\<close>), their redemption by token
  (\<open>redeem.ts\<close>) and the events of the lane (\<open>events.ts\<close>). A link collects a fixed target or an
  open amount within bounds; a redemption is idempotent per link and key. The token comes from
  an injected generator: its value is an argument of \<open>createLink\<close>.
\<close>

section \<open>Data\<close>

datatype link_status = L_Active | L_Expired | L_Completed | L_Disabled | L_Cancelled

definition LINK_TERMINAL_STATES :: "link_status list" where
  "LINK_TERMINAL_STATES = [L_Expired, L_Completed, L_Disabled, L_Cancelled]"

record link_config =
  lc_singleUse :: bool
  lc_allowPartial :: bool
  lc_expiresAt :: "date option"

record payment_link =
  pl_linkId :: uuid
  pl_orgId :: uuid
  pl_token :: string
  pl_receivableIds :: "uuid list"
  pl_currency :: currency
  pl_targetAmountMinor :: "money option"
  pl_minAmountMinor :: "money option"
  pl_maxAmountMinor :: "money option"
  pl_config :: link_config
  pl_status :: link_status
  pl_redeemedTotalMinor :: money
  pl_redemptionCount :: int
  pl_createdAt :: date
  pl_completedAt :: "date option"
  pl_expiredAt :: "date option"
  pl_disabledAt :: "date option"
  pl_cancelledAt :: "date option"

record create_link_command =
  cl_orgId :: uuid
  cl_receivableIds :: "uuid list"
  cl_currency :: currency
  cl_targetAmountMinor :: "money option"
  cl_minAmountMinor :: "money option"
  cl_maxAmountMinor :: "money option"
  cl_config :: link_config
  cl_linkId :: "uuid option"

section \<open>Events\<close>

datatype link_mode = Fixed_Mode | Open_Mode

datatype link_payload =
    PaymentLinkCreated uuid uuid "uuid list" link_mode "int option" "int option" "int option" currency bool bool "date option"
  | PaymentLinkRedeemed uuid uuid int currency date
  | PaymentLinkCompleted uuid int date
  | PaymentLinkExpired uuid date
  | PaymentLinkDisabled uuid string date
  | PaymentLinkCancelled uuid string date
  | PaymentLinkDuplicateRedemptionObserved uuid string uuid date

type_synonym link_event = "(link_payload, date) domain_event"

definition link_event :: "string \<Rightarrow> uuid \<Rightarrow> link_payload \<Rightarrow> date \<Rightarrow> link_event" where
  "link_event name linkId payload now =
     \<lparr>ev_name = name, ev_version = 1, ev_aggregateId = linkId, ev_payload = payload, ev_occurredAt = now\<rparr>"

definition paymentLinkCreatedEvent ::
  "uuid \<Rightarrow> uuid \<Rightarrow> uuid list \<Rightarrow> link_mode \<Rightarrow> int option \<Rightarrow> int option \<Rightarrow> int option \<Rightarrow> currency \<Rightarrow> bool \<Rightarrow> bool \<Rightarrow>
     date option \<Rightarrow> date \<Rightarrow> link_event" where
  "paymentLinkCreatedEvent linkId orgId receivableIds mode target lo hi c singleUse allowPartial expiresAt now =
     link_event ''paymentlink.created'' linkId
       (PaymentLinkCreated linkId orgId receivableIds mode target lo hi c singleUse allowPartial expiresAt) now"

definition paymentLinkRedeemedEvent :: "uuid \<Rightarrow> uuid \<Rightarrow> int \<Rightarrow> currency \<Rightarrow> date \<Rightarrow> date \<Rightarrow> link_event" where
  "paymentLinkRedeemedEvent linkId intentId amountMinor c redeemedAt now =
     link_event ''paymentlink.redeemed'' linkId (PaymentLinkRedeemed linkId intentId amountMinor c redeemedAt) now"

definition paymentLinkCompletedEvent :: "uuid \<Rightarrow> int \<Rightarrow> date \<Rightarrow> date \<Rightarrow> link_event" where
  "paymentLinkCompletedEvent linkId collectedMinor completedAt now =
     link_event ''paymentlink.completed'' linkId (PaymentLinkCompleted linkId collectedMinor completedAt) now"

definition paymentLinkExpiredEvent :: "uuid \<Rightarrow> date \<Rightarrow> date \<Rightarrow> link_event" where
  "paymentLinkExpiredEvent linkId expiredAt now =
     link_event ''paymentlink.expired'' linkId (PaymentLinkExpired linkId expiredAt) now"

definition paymentLinkDisabledEvent :: "uuid \<Rightarrow> string \<Rightarrow> date \<Rightarrow> date \<Rightarrow> link_event" where
  "paymentLinkDisabledEvent linkId reason disabledAt now =
     link_event ''paymentlink.disabled'' linkId (PaymentLinkDisabled linkId reason disabledAt) now"

definition paymentLinkCancelledEvent :: "uuid \<Rightarrow> string \<Rightarrow> date \<Rightarrow> date \<Rightarrow> link_event" where
  "paymentLinkCancelledEvent linkId reason cancelledAt now =
     link_event ''paymentlink.cancelled'' linkId (PaymentLinkCancelled linkId reason cancelledAt) now"

definition paymentLinkDuplicateRedemptionObservedEvent :: "uuid \<Rightarrow> string \<Rightarrow> uuid \<Rightarrow> date \<Rightarrow> date \<Rightarrow> link_event" where
  "paymentLinkDuplicateRedemptionObservedEvent linkId idempotencyKey intentId seenAt now =
     link_event ''paymentlink.duplicateRedemptionObserved'' linkId
       (PaymentLinkDuplicateRedemptionObserved linkId idempotencyKey intentId seenAt) now"

section \<open>Creating a link\<close>

definition token_char :: "char \<Rightarrow> bool" where
  "token_char c \<longleftrightarrow> (let n = (of_char c :: nat) in
     (65 \<le> n \<and> n \<le> 90) \<or> (97 \<le> n \<and> n \<le> 122) \<or> (48 \<le> n \<and> n \<le> 57) \<or> c = CHR ''_'' \<or> c = CHR ''-'')"

definition TOKEN_PATTERN :: "string \<Rightarrow> bool" where
  "TOKEN_PATTERN s \<longleftrightarrow> 16 \<le> length s \<and> length s \<le> 128 \<and> list_all token_char s"

definition assertTokenShape :: "string \<Rightarrow> unit result" where
  "assertTokenShape token = (if \<not> TOKEN_PATTERN token then throw ''LINK_TOKEN_MALFORMED'' else Inr ())"

definition linkAmountMode :: "payment_link \<Rightarrow> link_mode" where
  "linkAmountMode l = (if pl_targetAmountMinor l \<noteq> None then Fixed_Mode else Open_Mode)"

definition remainingTargetMinor :: "payment_link \<Rightarrow> money option result" where
  "remainingTargetMinor l = (case pl_targetAmountMinor l of None \<Rightarrow> Inr None
     | Some target \<Rightarrow> and_then (subtract_money target (pl_redeemedTotalMinor l)) (\<lambda>m. Inr (Some m)))"

definition effectiveStatus :: "payment_link \<Rightarrow> date \<Rightarrow> link_status" where
  "effectiveStatus l now =
     (if pl_status l = L_Active \<and> (case lc_expiresAt (pl_config l) of None \<Rightarrow> False | Some expiry \<Rightarrow> now \<ge> expiry)
      then L_Expired else pl_status l)"

definition assertActive :: "payment_link \<Rightarrow> unit result" where
  "assertActive l = (if pl_status l \<noteq> L_Active then throw ''LINK_TRANSITION_INVALID'' else Inr ())"

definition assertReason :: "string \<Rightarrow> string result" where
  "assertReason reason = (let why = trim reason in if why = [] then throw ''LINK_REASON_REQUIRED'' else Inr why)"

text \<open>\<open>if (!xs.includes(raw)) xs.push(raw)\<close> over the ids of the command.\<close>

definition push_new :: "uuid list \<Rightarrow> uuid \<Rightarrow> uuid list" where
  "push_new xs raw = (if raw \<in> set xs then xs else xs @ [raw])"

definition bad_bound :: "money option \<Rightarrow> bool" where
  "bad_bound b \<longleftrightarrow> (case b of None \<Rightarrow> False | Some m \<Rightarrow> m_amount m \<le> 0)"

definition createLink :: "create_link_command \<Rightarrow> clock \<Rightarrow> string \<Rightarrow> (payment_link \<times> link_event list) result" where
  "createLink cmd clk token =
     (let receivableIds = foldl push_new [] (cl_receivableIds cmd) in
      if receivableIds = [] then throw ''LINK_RECEIVABLE_REQUIRED''
      else let fixed = (cl_targetAmountMinor cmd \<noteq> None);
               bounded = (cl_minAmountMinor cmd \<noteq> None \<or> cl_maxAmountMinor cmd \<noteq> None) in
      if fixed \<and> bounded then throw ''LINK_AMOUNT_MODE_CONFLICT''
      else if bad_bound (cl_targetAmountMinor cmd) then throw ''LINK_TARGET_INVALID''
      else if bad_bound (cl_minAmountMinor cmd) \<or> bad_bound (cl_maxAmountMinor cmd) then throw ''LINK_BOUNDS_INVALID''
      else and_then (case (cl_minAmountMinor cmd, cl_maxAmountMinor cmd) of
            (Some lo, Some hi) \<Rightarrow> and_then (compareTo lo hi) (\<lambda>cmp. if cmp > 0 then throw ''LINK_BOUNDS_INVALID'' else Inr ())
          | _ \<Rightarrow> Inr ()) (\<lambda>_.
        let createdAt = clk 0; expiresAt = lc_expiresAt (cl_config cmd) in
        if (case expiresAt of None \<Rightarrow> False | Some expiry \<Rightarrow> expiry \<le> createdAt) then throw ''LINK_EXPIRY_INVALID''
        else and_then (assertTokenShape token) (\<lambda>_.
          and_then (case cl_linkId cmd of Some i \<Rightarrow> Inr i
            | None \<Rightarrow> uuidFromSeed (''paymentlink:'' @ cl_orgId cmd @ '':'' @ token)) (\<lambda>linkId.
            Inr (\<lparr>pl_linkId = linkId, pl_orgId = cl_orgId cmd, pl_token = token, pl_receivableIds = receivableIds,
                  pl_currency = cl_currency cmd, pl_targetAmountMinor = cl_targetAmountMinor cmd,
                  pl_minAmountMinor = cl_minAmountMinor cmd, pl_maxAmountMinor = cl_maxAmountMinor cmd,
                  pl_config = cl_config cmd, pl_status = L_Active, pl_redeemedTotalMinor = zero_money (cl_currency cmd),
                  pl_redemptionCount = 0, pl_createdAt = createdAt, pl_completedAt = None, pl_expiredAt = None,
                  pl_disabledAt = None, pl_cancelledAt = None\<rparr>,
               [paymentLinkCreatedEvent linkId (cl_orgId cmd) receivableIds (if fixed then Fixed_Mode else Open_Mode)
                  (map_option m_amount (cl_targetAmountMinor cmd)) (map_option m_amount (cl_minAmountMinor cmd))
                  (map_option m_amount (cl_maxAmountMinor cmd)) (cl_currency cmd) (lc_singleUse (cl_config cmd))
                  (lc_allowPartial (cl_config cmd)) expiresAt (clk 1)])))))"

section \<open>Expiry and the admin transitions\<close>

definition expireIfDue :: "payment_link \<Rightarrow> clock \<Rightarrow> payment_link \<times> link_event list" where
  "expireIfDue l clk =
     (let now = clk 0 in
      if pl_status l \<noteq> L_Active \<or> (case lc_expiresAt (pl_config l) of None \<Rightarrow> True | Some expiry \<Rightarrow> now < expiry) then (l, [])
      else (l\<lparr>pl_status := L_Expired, pl_expiredAt := Some now\<rparr>, [paymentLinkExpiredEvent (pl_linkId l) now (clk 1)]))"

definition disableLink :: "payment_link \<Rightarrow> string \<Rightarrow> clock \<Rightarrow> (payment_link \<times> link_event list) result" where
  "disableLink l reason clk =
     and_then (assertActive l) (\<lambda>_. and_then (assertReason reason) (\<lambda>why.
       Inr (l\<lparr>pl_status := L_Disabled, pl_disabledAt := Some (clk 0)\<rparr>,
            [paymentLinkDisabledEvent (pl_linkId l) why (clk 0) (clk 1)])))"

definition cancelLink :: "payment_link \<Rightarrow> string \<Rightarrow> clock \<Rightarrow> (payment_link \<times> link_event list) result" where
  "cancelLink l reason clk =
     and_then (assertActive l) (\<lambda>_. and_then (assertReason reason) (\<lambda>why.
       Inr (l\<lparr>pl_status := L_Cancelled, pl_cancelledAt := Some (clk 0)\<rparr>,
            [paymentLinkCancelledEvent (pl_linkId l) why (clk 0) (clk 1)])))"

section \<open>Redemption\<close>

record redeem_command =
  rd_token :: string
  rd_idempotencyKey :: string
  rd_amount :: money
  rd_intentId :: "uuid option"

record redemption_record =
  rr_redemptionId :: uuid
  rr_linkId :: uuid
  rr_intentId :: uuid
  rr_amount :: money
  rr_idempotencyKey :: string
  rr_redeemedAt :: date

record redeem_result =
  rs_link :: payment_link
  rs_redemption :: redemption_record
  rs_duplicate :: bool
  rs_events :: "link_event list"

definition link_assertPositive :: "money \<Rightarrow> unit result" where
  "link_assertPositive amount = (if m_amount amount \<le> 0 then throw ''AMOUNT_MUST_BE_POSITIVE'' else Inr ())"

definition link_assertSameCurrency :: "payment_link \<Rightarrow> money \<Rightarrow> unit result" where
  "link_assertSameCurrency l amount = (if m_currency amount \<noteq> pl_currency l then throw ''CURRENCY_MISMATCH'' else Inr ())"

definition rejectStatus :: "payment_link \<Rightarrow> link_status \<Rightarrow> string" where
  "rejectStatus l status =
     (if status = L_Expired then ''LINK_EXPIRED'' else if status = L_Disabled then ''LINK_DISABLED''
      else if status = L_Cancelled then ''LINK_CANCELLED''
      else if lc_singleUse (pl_config l) then ''LINK_ALREADY_REDEEMED'' else ''LINK_COMPLETED'')"

definition assertAmount :: "payment_link \<Rightarrow> money \<Rightarrow> unit result" where
  "assertAmount l amount =
     (if pl_targetAmountMinor l \<noteq> None then
        and_then (remainingTargetMinor l) (\<lambda>remaining0. let remaining = the remaining0 in
          if \<not> lc_allowPartial (pl_config l) then
            and_then (equals_money amount remaining) (\<lambda>eq. if \<not> eq then throw ''LINK_AMOUNT_EXACT_REQUIRED'' else Inr ())
          else and_then (compareTo amount remaining) (\<lambda>cmp. if cmp > 0 then throw ''LINK_AMOUNT_EXCEEDS_TARGET'' else Inr ()))
      else
        and_then (case pl_minAmountMinor l of None \<Rightarrow> Inr () | Some lo \<Rightarrow>
            and_then (compareTo amount lo) (\<lambda>cmp. if cmp < 0 then throw ''LINK_AMOUNT_BELOW_MIN'' else Inr ())) (\<lambda>_.
          case pl_maxAmountMinor l of None \<Rightarrow> Inr () | Some hi \<Rightarrow>
            and_then (compareTo amount hi) (\<lambda>cmp. if cmp > 0 then throw ''LINK_AMOUNT_ABOVE_MAX'' else Inr ())))"

text \<open>The part of \<open>redeem\<close> after the lookup of the link and of a prior redemption.\<close>

definition redeem_fresh :: "redeem_command \<Rightarrow> clock \<Rightarrow> payment_link \<Rightarrow> string \<Rightarrow> redeem_result result" where
  "redeem_fresh cmd clk l idempotencyKey =
     (let now = clk 0; status = effectiveStatus l now in
      if status \<noteq> L_Active then throw (rejectStatus l status)
      else and_then (link_assertSameCurrency l (rd_amount cmd)) (\<lambda>_.
        and_then (assertAmount l (rd_amount cmd)) (\<lambda>_.
        and_then (add_money (pl_redeemedTotalMinor l) (rd_amount cmd)) (\<lambda>redeemedTotal.
        and_then (case pl_targetAmountMinor l of None \<Rightarrow> Inr False | Some target \<Rightarrow> equals_money redeemedTotal target) (\<lambda>targetMet.
        let completes = (lc_singleUse (pl_config l) \<or> targetMet) in
        and_then (case rd_intentId cmd of Some i \<Rightarrow> Inr i
          | None \<Rightarrow> uuidFromSeed (''payment-intent:'' @ pl_linkId l @ '':'' @ idempotencyKey)) (\<lambda>intentId.
        and_then (uuidFromSeed (''plink-redemption:'' @ pl_linkId l @ '':'' @ idempotencyKey)) (\<lambda>redemptionId.
          Inr \<lparr>rs_link = l\<lparr>pl_status := (if completes then L_Completed else L_Active), pl_redeemedTotalMinor := redeemedTotal,
                  pl_redemptionCount := pl_redemptionCount l + 1,
                  pl_completedAt := (if completes then Some now else pl_completedAt l)\<rparr>,
               rs_redemption = \<lparr>rr_redemptionId = redemptionId, rr_linkId = pl_linkId l, rr_intentId = intentId,
                  rr_amount = rd_amount cmd, rr_idempotencyKey = idempotencyKey, rr_redeemedAt = now\<rparr>,
               rs_duplicate = False,
               rs_events = paymentLinkRedeemedEvent (pl_linkId l) intentId (m_amount (rd_amount cmd)) (m_currency (rd_amount cmd)) now (clk 1) #
                  (if completes then [paymentLinkCompletedEvent (pl_linkId l) (m_amount redeemedTotal) now (clk 2)] else [])\<rparr>)))))))"

definition redeem :: "redeem_command \<Rightarrow> clock \<Rightarrow> payment_link list \<Rightarrow> redemption_record list \<Rightarrow> redeem_result result" where
  "redeem cmd clk links redemptions =
     (let token = trim (rd_token cmd) in
      if token = [] then throw ''LINK_TOKEN_REQUIRED''
      else let idempotencyKey = trim (rd_idempotencyKey cmd) in
      if idempotencyKey = [] then throw ''LINK_IDEMPOTENCY_KEY_REQUIRED''
      else and_then (link_assertPositive (rd_amount cmd)) (\<lambda>_.
        case find (\<lambda>l. pl_token l = token) links of None \<Rightarrow> throw ''LINK_NOT_FOUND''
        | Some l \<Rightarrow>
          (case find (\<lambda>r. rr_linkId r = pl_linkId l \<and> rr_idempotencyKey r = idempotencyKey) redemptions of
             Some prior \<Rightarrow>
               and_then (equals_money (rr_amount prior) (rd_amount cmd)) (\<lambda>same.
                 if \<not> same then throw ''LINK_REDEMPTION_AMOUNT_MISMATCH''
                 else Inr \<lparr>rs_link = l, rs_redemption = prior, rs_duplicate = True,
                   rs_events = [paymentLinkDuplicateRedemptionObservedEvent (pl_linkId l) idempotencyKey (rr_intentId prior) (clk 0) (clk 1)]\<rparr>)
           | None \<Rightarrow> redeem_fresh cmd clk l idempotencyKey)))"

section \<open>What a link owes to its redemptions\<close>

definition within_bounds :: "payment_link \<Rightarrow> money \<Rightarrow> bool" where
  "within_bounds l m \<longleftrightarrow> (case pl_minAmountMinor l of None \<Rightarrow> True | Some lo \<Rightarrow> m_amount lo \<le> m_amount m) \<and>
     (case pl_maxAmountMinor l of None \<Rightarrow> True | Some hi \<Rightarrow> m_amount m \<le> m_amount hi)"

definition link_target_ok :: "payment_link \<Rightarrow> bool" where
  "link_target_ok l \<longleftrightarrow> (case pl_targetAmountMinor l of None \<Rightarrow> True
     | Some t \<Rightarrow> pl_minAmountMinor l = None \<and> pl_maxAmountMinor l = None \<and>
         m_amount (pl_redeemedTotalMinor l) \<le> m_amount t \<and>
         (pl_status l = L_Active \<longrightarrow> m_amount (pl_redeemedTotalMinor l) < m_amount t))"

definition link_status_ok :: "payment_link \<Rightarrow> redemption_record list \<Rightarrow> bool" where
  "link_status_ok l rows \<longleftrightarrow> (lc_singleUse (pl_config l) \<longrightarrow> length rows \<le> 1 \<and> (pl_status l = L_Active \<longrightarrow> rows = [])) \<and>
     (pl_status l = L_Completed \<longrightarrow> (lc_singleUse (pl_config l) \<and> rows \<noteq> []) \<or>
        (\<exists>t. pl_targetAmountMinor l = Some t \<and> m_amount (pl_redeemedTotalMinor l) = m_amount t))"

definition link_rows_ok :: "payment_link \<Rightarrow> redemption_record list \<Rightarrow> bool" where
  "link_rows_ok l rows \<longleftrightarrow> m_currency (pl_redeemedTotalMinor l) = pl_currency l \<and>
     m_amount (pl_redeemedTotalMinor l) = sum_list (map (\<lambda>r. m_amount (rr_amount r)) rows) \<and>
     pl_redemptionCount l = int (length rows) \<and> distinct (map rr_idempotencyKey rows) \<and>
     list_all (\<lambda>r. 0 < m_amount (rr_amount r) \<and> m_currency (rr_amount r) = pl_currency l \<and> within_bounds l (rr_amount r)) rows"

definition link_ok :: "payment_link \<Rightarrow> redemption_record list \<Rightarrow> bool" where
  "link_ok l rows \<longleftrightarrow> link_rows_ok l rows \<and> link_target_ok l \<and> link_status_ok l rows"

lemmas link_ok_defs = link_ok_def link_rows_ok_def link_target_ok_def link_status_ok_def

lemma createLink_ok:
  assumes "createLink cmd clk token = Inr (l, es)"
  shows "link_ok l [] \<and> pl_status l = L_Active \<and> pl_token l = token \<and> TOKEN_PATTERN token"
  using assms
  by (auto simp: createLink_def result_simps Let_def link_ok_defs zero_money_def bad_bound_def assertTokenShape_def split: option.splits)

lemma assertAmount_Inr:
  assumes "assertAmount l amount = Inr u" and "m_currency (pl_redeemedTotalMinor l) = pl_currency l"
  shows "case pl_targetAmountMinor l of
      Some t \<Rightarrow> m_currency t = pl_currency l \<and> m_amount (pl_redeemedTotalMinor l) + m_amount amount \<le> m_amount t \<and>
        (\<not> lc_allowPartial (pl_config l) \<longrightarrow> m_amount (pl_redeemedTotalMinor l) + m_amount amount = m_amount t)
    | None \<Rightarrow> within_bounds l amount"
proof (cases "pl_targetAmountMinor l")
  case None
  then show ?thesis using assms(1)
    by (auto simp: assertAmount_def result_simps within_bounds_def money_simps split: option.splits if_splits)
next
  case (Some t)
  then show ?thesis using assms
    by (auto simp: assertAmount_def remainingTargetMinor_def result_simps money_simps Let_def split: if_splits)
qed

lemma redeem_fresh_Inr:
  assumes "redeem_fresh cmd clk l key = Inr res" and "m_currency (pl_redeemedTotalMinor l) = pl_currency l"
  obtains full i where "pl_status l = L_Active" and "effectiveStatus l (clk 0) = L_Active"
    and "m_currency (rd_amount cmd) = pl_currency l" and "assertAmount l (rd_amount cmd) = Inr ()"
    and "full \<longleftrightarrow> lc_singleUse (pl_config l) \<or>
       (\<exists>t. pl_targetAmountMinor l = Some t \<and> m_amount (pl_redeemedTotalMinor l) + m_amount (rd_amount cmd) = m_amount t)"
    and "rs_link res = l\<lparr>pl_status := (if full then L_Completed else L_Active),
       pl_redeemedTotalMinor := mk_money (m_amount (pl_redeemedTotalMinor l) + m_amount (rd_amount cmd)) (pl_currency l),
       pl_redemptionCount := pl_redemptionCount l + 1, pl_completedAt := (if full then Some (clk 0) else pl_completedAt l)\<rparr>"
    and "rs_redemption res = \<lparr>rr_redemptionId = seed_id (''plink-redemption:'' @ pl_linkId l @ '':'' @ key),
       rr_linkId = pl_linkId l, rr_intentId = i, rr_amount = rd_amount cmd, rr_idempotencyKey = key, rr_redeemedAt = clk 0\<rparr>"
    and "rs_duplicate res = False"
proof -
  have st: "effectiveStatus l (clk 0) = L_Active" "pl_status l = L_Active"
    using assms(1) by (auto simp: redeem_fresh_def Let_def effectiveStatus_def split: if_splits)
  have cur: "m_currency (rd_amount cmd) = pl_currency l" and am: "assertAmount l (rd_amount cmd) = Inr ()"
    using assms(1) st(1) by (auto simp: redeem_fresh_def Let_def link_assertSameCurrency_def result_simps)
  define sumM where "sumM = mk_money (m_amount (pl_redeemedTotalMinor l) + m_amount (rd_amount cmd)) (pl_currency l)"
  have add: "add_money (pl_redeemedTotalMinor l) (rd_amount cmd) = Inr sumM"
    using assms(2) cur by (simp add: add_money_Inr sumM_def)
  define met where "met = (case pl_targetAmountMinor l of None \<Rightarrow> Inr False | Some target \<Rightarrow> equals_money sumM target)"
  define d where "d \<longleftrightarrow> lc_singleUse (pl_config l) \<or>
       (\<exists>t. pl_targetAmountMinor l = Some t \<and> m_amount (pl_redeemedTotalMinor l) + m_amount (rd_amount cmd) = m_amount t)"
  have "met = Inr (\<exists>t. pl_targetAmountMinor l = Some t \<and> m_amount (pl_redeemedTotalMinor l) + m_amount (rd_amount cmd) = m_amount t)"
    using assertAmount_Inr[OF am assms(2)]
    by (auto simp: met_def sumM_def equals_money_def compareTo_def assertSame_def split: option.splits)
  then have fresh: "rs_link res = l\<lparr>pl_status := (if d then L_Completed else L_Active), pl_redeemedTotalMinor := sumM,
       pl_redemptionCount := pl_redemptionCount l + 1, pl_completedAt := (if d then Some (clk 0) else pl_completedAt l)\<rparr>"
    "\<exists>i. rs_redemption res = \<lparr>rr_redemptionId = seed_id (''plink-redemption:'' @ pl_linkId l @ '':'' @ key),
       rr_linkId = pl_linkId l, rr_intentId = i, rr_amount = rd_amount cmd, rr_idempotencyKey = key, rr_redeemedAt = clk 0\<rparr>"
    "rs_duplicate res = False"
    using assms(1) st(1) cur am
    by (auto simp: redeem_fresh_def Let_def link_assertSameCurrency_def add met_def[symmetric] d_def and_then_Inr_iff)
  then show thesis using that[of d] st cur am by (auto simp: sumM_def d_def)
qed

lemma redeem_fresh_ok:
  assumes ok: "link_ok l rows" and "redeem_fresh cmd clk l key = Inr res" and "0 < m_amount (rd_amount cmd)"
    and new: "key \<notin> set (map rr_idempotencyKey rows)"
  shows "link_ok (rs_link res) (rows @ [rs_redemption res])"
proof -
  have cur: "m_currency (pl_redeemedTotalMinor l) = pl_currency l" using ok by (simp add: link_ok_defs)
  from assms(2) cur show ?thesis
  proof (rule redeem_fresh_Inr)
    fix d i
    assume st: "pl_status l = L_Active" and am: "assertAmount l (rd_amount cmd) = Inr ()"
      and c: "m_currency (rd_amount cmd) = pl_currency l"
      and d: "d \<longleftrightarrow> lc_singleUse (pl_config l) \<or>
       (\<exists>t. pl_targetAmountMinor l = Some t \<and> m_amount (pl_redeemedTotalMinor l) + m_amount (rd_amount cmd) = m_amount t)"
      and l: "rs_link res = l\<lparr>pl_status := (if d then L_Completed else L_Active),
       pl_redeemedTotalMinor := mk_money (m_amount (pl_redeemedTotalMinor l) + m_amount (rd_amount cmd)) (pl_currency l),
       pl_redemptionCount := pl_redemptionCount l + 1, pl_completedAt := (if d then Some (clk 0) else pl_completedAt l)\<rparr>"
      and r: "rs_redemption res = \<lparr>rr_redemptionId = seed_id (''plink-redemption:'' @ pl_linkId l @ '':'' @ key),
       rr_linkId = pl_linkId l, rr_intentId = i, rr_amount = rd_amount cmd, rr_idempotencyKey = key, rr_redeemedAt = clk 0\<rparr>"
    note amt = assertAmount_Inr[OF am cur]
    have "within_bounds l (rd_amount cmd)"
      using amt ok by (auto simp: link_ok_defs within_bounds_def split: option.splits)
    moreover have "within_bounds (rs_link res) = within_bounds l" by (rule ext) (simp add: l within_bounds_def)
    ultimately have "link_rows_ok (rs_link res) (rows @ [rs_redemption res])"
      using ok new assms(3) c unfolding link_ok_def link_rows_ok_def by (simp add: l r)
    moreover have "link_target_ok (rs_link res)"
      using ok amt d by (auto simp: l link_ok_def link_target_ok_def split: option.splits)
    moreover have "link_status_ok (rs_link res) (rows @ [rs_redemption res])"
      using ok st d by (auto simp: l link_ok_def link_status_ok_def)
    ultimately show ?thesis by (simp add: link_ok_def)
  qed
qed

section \<open>The store of links\<close>

text \<open>
  The adapter keeps the links and the redemptions: it refuses a link whose id it already has,
  replaces a link by the one an operation returns, and appends a redemption that is not a
  duplicate.
\<close>

record link_store =
  lt_links :: "payment_link list"
  lt_redemptions :: "redemption_record list"

datatype link_command =
    Create_Link create_link_command clock string
  | Redeem_Link redeem_command clock
  | Sweep_Link uuid clock
  | Disable_Link uuid string clock
  | Cancel_Link uuid string clock

definition put_link :: "payment_link \<Rightarrow> payment_link list \<Rightarrow> payment_link list" where
  "put_link l' ls = map (\<lambda>l. if pl_linkId l = pl_linkId l' then l' else l) ls"

definition on_link :: "link_store \<Rightarrow> uuid \<Rightarrow> (payment_link \<Rightarrow> (payment_link \<times> link_event list) result) \<Rightarrow> link_store result" where
  "on_link st i f = (case find (\<lambda>l. pl_linkId l = i) (lt_links st) of None \<Rightarrow> Inl PlainError
     | Some l \<Rightarrow> and_then (f l) (\<lambda>(l', _). Inr (st\<lparr>lt_links := put_link l' (lt_links st)\<rparr>)))"

fun link_step :: "link_store \<Rightarrow> link_command \<Rightarrow> link_store result" where
  "link_step st (Create_Link cmd clk token) = and_then (createLink cmd clk token) (\<lambda>(l, _).
     if pl_linkId l \<in> pl_linkId ` set (lt_links st) then Inl PlainError
     else Inr (st\<lparr>lt_links := lt_links st @ [l]\<rparr>))"
| "link_step st (Redeem_Link cmd clk) = and_then (redeem cmd clk (lt_links st) (lt_redemptions st)) (\<lambda>res.
     Inr (if rs_duplicate res then st
       else st\<lparr>lt_links := put_link (rs_link res) (lt_links st), lt_redemptions := lt_redemptions st @ [rs_redemption res]\<rparr>))"
| "link_step st (Sweep_Link i clk) = on_link st i (\<lambda>l. Inr (expireIfDue l clk))"
| "link_step st (Disable_Link i reason clk) = on_link st i (\<lambda>l. disableLink l reason clk)"
| "link_step st (Cancel_Link i reason clk) = on_link st i (\<lambda>l. cancelLink l reason clk)"

definition rows_of :: "link_store \<Rightarrow> uuid \<Rightarrow> redemption_record list" where
  "rows_of st i = filter (\<lambda>r. rr_linkId r = i) (lt_redemptions st)"

definition link_store_ok :: "link_store \<Rightarrow> bool" where
  "link_store_ok st \<longleftrightarrow> distinct (map pl_linkId (lt_links st)) \<and>
     (\<forall>l \<in> set (lt_links st). link_ok l (rows_of st (pl_linkId l))) \<and>
     (\<forall>r \<in> set (lt_redemptions st). rr_linkId r \<in> pl_linkId ` set (lt_links st))"

lemma put_link_ids [simp]: "map pl_linkId (put_link l' ls) = map pl_linkId ls"
  by (induction ls) (simp_all add: put_link_def)

lemma put_link_set: "set (put_link l' ls) \<subseteq> insert l' {l \<in> set ls. pl_linkId l \<noteq> pl_linkId l'}"
  by (auto simp: put_link_def)

lemma put_link_image [simp]: "pl_linkId ` set (put_link l' ls) = pl_linkId ` set ls"
  by (metis put_link_ids set_map)

text \<open>Closing a link without a redemption.\<close>

definition closed_as :: "payment_link \<Rightarrow> payment_link \<Rightarrow> bool" where
  "closed_as l l' \<longleftrightarrow> l' = l \<or> (\<exists>s. s \<noteq> L_Active \<and> s \<noteq> L_Completed \<and> pl_status l = L_Active \<and>
     l' = l\<lparr>pl_status := s, pl_expiredAt := pl_expiredAt l', pl_disabledAt := pl_disabledAt l', pl_cancelledAt := pl_cancelledAt l'\<rparr>)"

lemma closed_as_ok: "link_ok l rows \<Longrightarrow> closed_as l l' \<Longrightarrow> link_ok l' rows \<and> pl_linkId l' = pl_linkId l \<and> pl_token l' = pl_token l"
proof -
  assume ok: "link_ok l rows" and c: "closed_as l l'"
  show ?thesis
  proof (cases "l' = l")
    case False
    with c obtain s where s: "s \<noteq> L_Active" "s \<noteq> L_Completed"
      and l': "l' = l\<lparr>pl_status := s, pl_expiredAt := pl_expiredAt l', pl_disabledAt := pl_disabledAt l', pl_cancelledAt := pl_cancelledAt l'\<rparr>"
      by (auto simp: closed_as_def)
    define a b d where "a = pl_expiredAt l'" and "b = pl_disabledAt l'" and "d = pl_cancelledAt l'"
    have eq: "l' = l\<lparr>pl_status := s, pl_expiredAt := a, pl_disabledAt := b, pl_cancelledAt := d\<rparr>"
      using l' unfolding a_def b_def d_def .
    have "within_bounds l' = within_bounds l" by (rule ext) (simp add: eq within_bounds_def)
    then show ?thesis using ok s unfolding link_ok_defs by (simp add: eq split: option.splits)
  qed (use ok in simp)
qed

lemma closing_ops:
  "closed_as l (fst (expireIfDue l clk))"
  "disableLink l reason clk = Inr (l', es) \<Longrightarrow> closed_as l l'"
  "cancelLink l reason clk = Inr (l', es) \<Longrightarrow> closed_as l l'"
  by (auto simp: closed_as_def expireIfDue_def disableLink_def cancelLink_def assertActive_def result_simps Let_def)

lemma on_link_Inr:
  assumes "on_link st i f = Inr st'"
  obtains l l' es where "l \<in> set (lt_links st)" and "pl_linkId l = i" and "f l = Inr (l', es)"
    and "st' = st\<lparr>lt_links := put_link l' (lt_links st)\<rparr>"
  using assms by (auto simp: on_link_def result_simps split: option.splits dest!: find_SomeD)

lemma store_put:
  assumes ok: "link_store_ok st" and "l \<in> set (lt_links st)" and "pl_linkId l' = pl_linkId l"
    and rows: "link_ok l' (filter (\<lambda>r. rr_linkId r = pl_linkId l) rs)"
    and others: "\<And>i. i \<noteq> pl_linkId l \<Longrightarrow> filter (\<lambda>r. rr_linkId r = i) rs = rows_of st i"
    and known: "\<forall>r \<in> set rs. rr_linkId r \<in> pl_linkId ` set (lt_links st)"
  shows "link_store_ok (st\<lparr>lt_links := put_link l' (lt_links st), lt_redemptions := rs\<rparr>)"
proof -
  let ?st = "st\<lparr>lt_links := put_link l' (lt_links st), lt_redemptions := rs\<rparr>"
  have "link_ok x (rows_of ?st (pl_linkId x))" if "x \<in> set (put_link l' (lt_links st))" for x
  proof (cases "x = l'")
    case True
    then show ?thesis using rows assms(3) by (simp add: rows_of_def)
  next
    case False
    then have "x \<in> set (lt_links st)" "pl_linkId x \<noteq> pl_linkId l" using that put_link_set[of l' "lt_links st"] assms(3) by auto
    then show ?thesis using ok others[of "pl_linkId x"] by (simp add: link_store_ok_def rows_of_def)
  qed
  then show ?thesis using ok known by (simp add: link_store_ok_def)
qed

lemma on_link_ok:
  assumes ok: "link_store_ok st" and run: "on_link st i f = Inr st'" and c: "\<And>l l' es. f l = Inr (l', es) \<Longrightarrow> closed_as l l'"
  shows "link_store_ok st'"
  using run
proof (rule on_link_Inr)
  fix l l' es
  assume l: "l \<in> set (lt_links st)" and f: "f l = Inr (l', es)" and st': "st' = st\<lparr>lt_links := put_link l' (lt_links st)\<rparr>"
  have "link_ok l (rows_of st (pl_linkId l))" using ok l by (simp add: link_store_ok_def)
  from closed_as_ok[OF this c[OF f]] have "link_store_ok (st\<lparr>lt_links := put_link l' (lt_links st), lt_redemptions := lt_redemptions st\<rparr>)"
    using ok by (intro store_put[OF ok l]) (simp_all add: rows_of_def link_store_ok_def)
  then show ?thesis by (simp add: st')
qed

lemma redeem_Inr:
  assumes "redeem cmd clk links reds = Inr res"
  obtains l where "find (\<lambda>l. pl_token l = trim (rd_token cmd)) links = Some l" and "0 < m_amount (rd_amount cmd)"
    and "trim (rd_idempotencyKey cmd) \<noteq> []"
    and "(\<exists>prior. find (\<lambda>r. rr_linkId r = pl_linkId l \<and> rr_idempotencyKey r = trim (rd_idempotencyKey cmd)) reds = Some prior \<and>
           rr_amount prior = rd_amount cmd \<and> rs_duplicate res \<and> rs_redemption res = prior \<and> rs_link res = l) \<or>
         (find (\<lambda>r. rr_linkId r = pl_linkId l \<and> rr_idempotencyKey r = trim (rd_idempotencyKey cmd)) reds = None \<and>
           redeem_fresh cmd clk l (trim (rd_idempotencyKey cmd)) = Inr res)"
  using assms
  by (auto simp: redeem_def Let_def result_simps link_assertPositive_def money_simps split: option.splits if_splits)

lemma redeem_step_ok:
  assumes ok: "link_store_ok st" and "redeem cmd clk (lt_links st) (lt_redemptions st) = Inr res" and "\<not> rs_duplicate res"
  shows "link_store_ok (st\<lparr>lt_links := put_link (rs_link res) (lt_links st), lt_redemptions := lt_redemptions st @ [rs_redemption res]\<rparr>)"
proof -
  from assms(2) obtain l where "find (\<lambda>l. pl_token l = trim (rd_token cmd)) (lt_links st) = Some l" and pos: "0 < m_amount (rd_amount cmd)"
    and new: "find (\<lambda>r. rr_linkId r = pl_linkId l \<and> rr_idempotencyKey r = trim (rd_idempotencyKey cmd)) (lt_redemptions st) = None"
    and fresh: "redeem_fresh cmd clk l (trim (rd_idempotencyKey cmd)) = Inr res"
    by (rule redeem_Inr) (use assms(3) in auto)
  from find_SomeD[OF this(1)] have l: "l \<in> set (lt_links st)" by simp
  then have lok: "link_ok l (rows_of st (pl_linkId l))" using ok by (simp add: link_store_ok_def)
  have key: "trim (rd_idempotencyKey cmd) \<notin> set (map rr_idempotencyKey (rows_of st (pl_linkId l)))"
    using new by (auto simp: rows_of_def find_None_iff)
  have ids: "pl_linkId (rs_link res) = pl_linkId l" "rr_linkId (rs_redemption res) = pl_linkId l"
    using fresh lok by (auto elim!: redeem_fresh_Inr simp: link_ok_defs)
  have "filter (\<lambda>r. rr_linkId r = pl_linkId l) (lt_redemptions st @ [rs_redemption res]) = rows_of st (pl_linkId l) @ [rs_redemption res]"
    by (simp add: rows_of_def ids)
  with redeem_fresh_ok[OF lok fresh pos key] show ?thesis
    using ok l ids by (intro store_put[OF ok l]) (auto simp: rows_of_def link_store_ok_def)
qed

lemma link_step_ok:
  assumes ok: "link_store_ok st" and step: "link_step st c = Inr st'"
  shows "link_store_ok st'"
proof (cases c)
  case (Create_Link cmd clk token)
  with step obtain l es where l: "createLink cmd clk token = Inr (l, es)" "pl_linkId l \<notin> pl_linkId ` set (lt_links st)"
    "st' = st\<lparr>lt_links := lt_links st @ [l]\<rparr>" by (auto simp: result_simps split: if_splits)
  have "rows_of st (pl_linkId l) = []"
    using ok l(2) unfolding rows_of_def link_store_ok_def filter_empty_conv by metis
  then show ?thesis using ok createLink_ok[OF l(1)] l(2) by (auto simp: l(3) link_store_ok_def rows_of_def)
next
  case (Redeem_Link cmd clk)
  with step ok redeem_step_ok[OF ok] show ?thesis by (auto simp: result_simps split: if_splits)
next
  case (Sweep_Link i clk)
  then show ?thesis using step on_link_ok[OF ok, of i "\<lambda>l. Inr (expireIfDue l clk)" st'] closing_ops(1) by (auto, metis fst_conv)
next
  case (Disable_Link i reason clk)
  then show ?thesis using step on_link_ok[OF ok, of i "\<lambda>l. disableLink l reason clk" st'] closing_ops(2) by auto
next
  case (Cancel_Link i reason clk)
  then show ?thesis using step on_link_ok[OF ok, of i "\<lambda>l. cancelLink l reason clk" st'] closing_ops(3) by auto
qed

interpretation link_machine: guarded_machine link_step link_store_ok "\<lambda>_. True"
  by unfold_locales (rule link_step_ok)

abbreviation no_links :: link_store where
  "no_links \<equiv> \<lparr>lt_links = [], lt_redemptions = []\<rparr>"

lemma no_links_ok: "link_store_ok no_links"
  by (simp add: link_store_ok_def)

text \<open>
  C31. A link never collects too much: whatever commands reach an empty store, what every link has
  collected is the sum of its redemptions, all positive, in its currency, within its bounds and
  under distinct idempotency keys; a fixed target is never overshot; a single-use link is
  redeemed at most once; and a completed link was consumed or has met its target exactly.
\<close>

theorem links_never_overcollect:
  assumes "st = drive link_step no_links cmds" and "l \<in> set (lt_links st)"
    and "rows = filter (\<lambda>r. rr_linkId r = pl_linkId l) (lt_redemptions st)"
  shows "m_amount (pl_redeemedTotalMinor l) = sum_list (map (\<lambda>r. m_amount (rr_amount r)) rows) \<and>
    pl_redemptionCount l = int (length rows) \<and> distinct (map rr_idempotencyKey rows) \<and>
    list_all (\<lambda>r. 0 < m_amount (rr_amount r) \<and> m_currency (rr_amount r) = pl_currency l \<and> within_bounds l (rr_amount r)) rows \<and>
    (case pl_targetAmountMinor l of None \<Rightarrow> True | Some t \<Rightarrow> m_amount (pl_redeemedTotalMinor l) \<le> m_amount t) \<and>
    (lc_singleUse (pl_config l) \<longrightarrow> length rows \<le> 1) \<and>
    (pl_status l = L_Completed \<longrightarrow> lc_singleUse (pl_config l) \<and> rows \<noteq> [] \<or>
       (\<exists>t. pl_targetAmountMinor l = Some t \<and> m_amount (pl_redeemedTotalMinor l) = m_amount t))"
proof -
  have "link_store_ok st" using link_machine.drive_inv[OF no_links_ok, of cmds] by (simp add: assms(1))
  then have "link_ok l rows" using assms(2) by (simp add: link_store_ok_def rows_of_def assms(3))
  then show ?thesis unfolding link_ok_defs by (auto split: option.splits)
qed

section \<open>Retries\<close>

definition link_keys :: "payment_link list \<Rightarrow> (string \<times> uuid) list" where
  "link_keys ls = map (\<lambda>l. (pl_token l, pl_linkId l)) ls"

lemma put_link_keys:
  assumes "distinct (map pl_linkId ls)" and "l \<in> set ls" and "pl_linkId l' = pl_linkId l" and "pl_token l' = pl_token l"
  shows "link_keys (put_link l' ls) = link_keys ls"
proof -
  have "pl_token x = pl_token l" if "x \<in> set ls" "pl_linkId x = pl_linkId l" for x
    using assms(1,2) that by (auto simp: distinct_map inj_on_def)
  then show ?thesis using assms(3,4) by (auto simp: link_keys_def put_link_def)
qed

lemma on_link_keys:
  assumes ok: "link_store_ok st" and run: "on_link st i f = Inr st'" and c: "\<And>l l' es. f l = Inr (l', es) \<Longrightarrow> closed_as l l'"
  shows "link_keys (lt_links st') = link_keys (lt_links st) \<and> lt_redemptions st' = lt_redemptions st"
  using run
proof (rule on_link_Inr)
  fix l l' es
  assume l: "l \<in> set (lt_links st)" and f: "f l = Inr (l', es)" and st': "st' = st\<lparr>lt_links := put_link l' (lt_links st)\<rparr>"
  have "link_ok l (rows_of st (pl_linkId l))" using ok l by (simp add: link_store_ok_def)
  from closed_as_ok[OF this c[OF f]] ok l show ?thesis by (auto simp: st' link_store_ok_def intro!: put_link_keys[of _ l])
qed

lemma redeem_fresh_same:
  assumes "redeem_fresh cmd clk l key = Inr res" and "m_currency (pl_redeemedTotalMinor l) = pl_currency l"
  shows "pl_linkId (rs_link res) = pl_linkId l \<and> pl_token (rs_link res) = pl_token l \<and> rr_linkId (rs_redemption res) = pl_linkId l \<and>
    rr_idempotencyKey (rs_redemption res) = key \<and> rr_amount (rs_redemption res) = rd_amount cmd"
  using assms by (rule redeem_fresh_Inr) simp

lemma link_step_extends:
  assumes ok: "link_store_ok st" and step: "link_step st c = Inr st'"
  shows "\<exists>ks rs. link_keys (lt_links st') = link_keys (lt_links st) @ ks \<and> lt_redemptions st' = lt_redemptions st @ rs"
proof (cases c)
  case (Create_Link cmd clk token)
  with step show ?thesis by (auto simp: result_simps link_keys_def split: if_splits)
next
  case (Redeem_Link cmd clk)
  with step obtain res where res: "redeem cmd clk (lt_links st) (lt_redemptions st) = Inr res"
    and st': "st' = (if rs_duplicate res then st else st\<lparr>lt_links := put_link (rs_link res) (lt_links st),
       lt_redemptions := lt_redemptions st @ [rs_redemption res]\<rparr>)" by (auto simp: result_simps)
  show ?thesis
  proof (cases "rs_duplicate res")
    case False
    from res obtain l where "find (\<lambda>l. pl_token l = trim (rd_token cmd)) (lt_links st) = Some l"
      and fresh: "redeem_fresh cmd clk l (trim (rd_idempotencyKey cmd)) = Inr res"
      by (rule redeem_Inr) (use False in auto)
    from find_SomeD[OF this(1)] have l: "l \<in> set (lt_links st)" by simp
    then have "m_currency (pl_redeemedTotalMinor l) = pl_currency l" using ok by (auto simp: link_store_ok_def link_ok_defs)
    from redeem_fresh_same[OF fresh this] ok l show ?thesis
      using put_link_keys[of "lt_links st" l "rs_link res"] by (simp add: st' False link_store_ok_def)
  qed (simp add: st')
next
  case (Sweep_Link i clk)
  have "link_keys (lt_links st') = link_keys (lt_links st) \<and> lt_redemptions st' = lt_redemptions st"
    by (rule on_link_keys[OF ok, of i "\<lambda>l. Inr (expireIfDue l clk)"])
      (use step Sweep_Link closing_ops(1)[of _ clk] in \<open>simp, metis fst_conv sum.inject(2)\<close>)
  then show ?thesis by simp
next
  case (Disable_Link i reason clk)
  have "link_keys (lt_links st') = link_keys (lt_links st) \<and> lt_redemptions st' = lt_redemptions st"
    by (rule on_link_keys[OF ok, of i "\<lambda>l. disableLink l reason clk"]) (use step Disable_Link closing_ops(2) in simp, rule closing_ops(2))
  then show ?thesis by simp
next
  case (Cancel_Link i reason clk)
  have "link_keys (lt_links st') = link_keys (lt_links st) \<and> lt_redemptions st' = lt_redemptions st"
    by (rule on_link_keys[OF ok, of i "\<lambda>l. cancelLink l reason clk"]) (use step Cancel_Link closing_ops(3) in simp, rule closing_ops(3))
  then show ?thesis by simp
qed

lemma link_drive_extends:
  "link_store_ok st \<Longrightarrow> \<exists>ks rs. link_keys (lt_links (drive link_step st cs)) = link_keys (lt_links st) @ ks \<and>
     lt_redemptions (drive link_step st cs) = lt_redemptions st @ rs"
proof (induction cs arbitrary: st)
  case (Cons c cs)
  show ?case
  proof (cases "link_step st c")
    case (Inr st')
    from link_step_extends[OF Cons.prems Inr] Cons.IH[OF link_step_ok[OF Cons.prems Inr]] Inr show ?thesis by fastforce
  qed (use Cons in simp)
qed simp

lemma find_token_prefix:
  assumes "find (\<lambda>l. pl_token l = t) ls = Some l" and "link_keys ls' = link_keys ls @ ks"
  shows "\<exists>l'. find (\<lambda>l. pl_token l = t) ls' = Some l' \<and> pl_linkId l' = pl_linkId l"
  using assms
proof (induction ls arbitrary: ls')
  case (Cons x xs)
  then obtain y ys where "ls' = y # ys" "pl_token y = pl_token x" "pl_linkId y = pl_linkId x" "link_keys ys = link_keys xs @ ks"
    by (cases ls') (auto simp: link_keys_def)
  then show ?case using Cons by (auto split: if_splits)
qed simp

lemma find_append: "find P (xs @ ys) = (case find P xs of None \<Rightarrow> find P ys | Some x \<Rightarrow> Some x)"
  by (induction xs) simp_all

text \<open>
  Retries are observed, never re-processed (R9): after an accepted redemption, and whatever
  happens to the store afterwards (other redemptions, completion, expiry, an admin closing the
  link), presenting the same token, key and amount again returns the original redemption with
  its payment intent, marked as a duplicate, and leaves the store as it is.
\<close>

theorem redeem_retry:
  assumes "st = drive link_step no_links cmds"
    and "redeem cmd clk (lt_links st) (lt_redemptions st) = Inr res"
    and "st' = drive link_step st (Redeem_Link cmd clk # more_cmds)"
  shows "\<exists>res'. redeem cmd clk' (lt_links st') (lt_redemptions st') = Inr res' \<and> rs_duplicate res' \<and>
    rs_redemption res' = rs_redemption res \<and> link_step st' (Redeem_Link cmd clk') = Inr st'"
proof -
  let ?k = "trim (rd_idempotencyKey cmd)"
  let ?P = "\<lambda>l r. rr_linkId r = pl_linkId l \<and> rr_idempotencyKey r = ?k"
  have ok: "link_store_ok st" using link_machine.drive_inv[OF no_links_ok, of cmds] by (simp add: assms(1))
  obtain st1 where step: "link_step st (Redeem_Link cmd clk) = Inr st1" using assms(2) by simp
  note ok1 = link_step_ok[OF ok step]
  have st': "st' = drive link_step st1 more_cmds" using assms(3) step by (simp del: link_step.simps)
  obtain l where l: "find (\<lambda>l. pl_token l = trim (rd_token cmd)) (lt_links st) = Some l" and pos: "0 < m_amount (rd_amount cmd)"
    and key: "?k \<noteq> []" and reds: "find (?P l) (lt_redemptions st1) = Some (rs_redemption res)" "rr_amount (rs_redemption res) = rd_amount cmd"
    using assms(2)
  proof (rule redeem_Inr)
    fix l assume l: "find (\<lambda>l. pl_token l = trim (rd_token cmd)) (lt_links st) = Some l" "0 < m_amount (rd_amount cmd)" "?k \<noteq> []"
      and "(\<exists>prior. find (?P l) (lt_redemptions st) = Some prior \<and> rr_amount prior = rd_amount cmd \<and> rs_duplicate res \<and>
             rs_redemption res = prior \<and> rs_link res = l) \<or>
           (find (?P l) (lt_redemptions st) = None \<and> redeem_fresh cmd clk l ?k = Inr res)"
    then consider "find (?P l) (lt_redemptions st) = Some (rs_redemption res)" "rr_amount (rs_redemption res) = rd_amount cmd" "rs_duplicate res"
      | "find (?P l) (lt_redemptions st) = None" "redeem_fresh cmd clk l ?k = Inr res" by auto
    then show thesis
    proof cases
      case 1
      then show thesis using step assms(2) by (intro that[OF l]) auto
    next
      case 2
      have "m_currency (pl_redeemedTotalMinor l) = pl_currency l"
        using find_SomeD[OF l(1)] ok by (auto simp: link_store_ok_def link_ok_defs)
      note same = redeem_fresh_same[OF 2(2) this]
      have "\<not> rs_duplicate res" using 2(2) by (auto simp: redeem_fresh_def result_simps Let_def split: if_splits)
      then show thesis using step assms(2) 2(1) same by (intro that[OF l]) (auto simp: find_append)
    qed
  qed
  obtain ks rs where ext: "link_keys (lt_links st') = link_keys (lt_links st) @ ks" "lt_redemptions st' = lt_redemptions st1 @ rs"
    using link_step_extends[OF ok step] link_drive_extends[OF ok1, of more_cmds] by (auto simp: st')
  obtain l' where l': "find (\<lambda>l. pl_token l = trim (rd_token cmd)) (lt_links st') = Some l'" "pl_linkId l' = pl_linkId l"
    using find_token_prefix[OF l ext(1)] by blast
  have prior: "find (?P l') (lt_redemptions st') = Some (rs_redemption res)" by (simp add: ext(2) find_append reds(1) l'(2))
  have "trim (rd_token cmd) \<noteq> []" using assms(2) by (auto simp: redeem_def Let_def split: if_splits)
  then show ?thesis using key pos l'(1) prior reds(2)
    by (simp add: redeem_def Let_def link_assertPositive_def money_simps)
qed

section \<open>Expiry\<close>

lemma redeem_fresh_expired: "effectiveStatus l (clk 0) = L_Expired \<Longrightarrow> redeem_fresh cmd clk l key = throw ''LINK_EXPIRED''"
  by (simp add: redeem_fresh_def rejectStatus_def)

lemma expireIfDue_cases:
  obtains "fst (expireIfDue l clk) = l" and "effectiveStatus l (clk 0) = pl_status l"
  | t where "pl_status l = L_Active" and "lc_expiresAt (pl_config l) = Some t" and "t \<le> clk 0"
    and "fst (expireIfDue l clk) = l\<lparr>pl_status := L_Expired, pl_expiredAt := Some (clk 0)\<rparr>"
proof (cases "pl_status l = L_Active \<and> (\<exists>t. lc_expiresAt (pl_config l) = Some t \<and> t \<le> clk 0)")
  case True
  then show ?thesis using that(2) by (auto simp: expireIfDue_def Let_def)
next
  case False
  then show ?thesis by (intro that(1)) (auto simp: expireIfDue_def effectiveStatus_def Let_def split: option.splits)
qed

text \<open>
  The sweeper is invisible to payers: a link past its expiry answers a redemption in the same
  way whether or not the sweep has persisted the flip; the sweep stores exactly the status the
  time-aware view shows, and a redemption at or after the expiry instant is refused with
  LINK_EXPIRED.
\<close>

theorem sweep_invisible:
  assumes "clk 0 \<le> clk' 0"
  shows "redeem_fresh cmd clk' (fst (expireIfDue l clk)) key = redeem_fresh cmd clk' l key \<and>
    pl_status (fst (expireIfDue l clk)) = effectiveStatus l (clk 0) \<and>
    (pl_status l = L_Active \<and> lc_expiresAt (pl_config l) = Some t \<and> t \<le> clk' 0 \<longrightarrow>
       redeem_fresh cmd clk' l key = throw ''LINK_EXPIRED'')"
proof -
  have late: "redeem_fresh cmd clk' l key = throw ''LINK_EXPIRED''"
    if "pl_status l = L_Active" "lc_expiresAt (pl_config l) = Some t" "t \<le> clk' 0" for t
    using that by (intro redeem_fresh_expired) (simp add: effectiveStatus_def)
  show ?thesis
  proof (cases rule: expireIfDue_cases[of l clk])
    case 1
    then show ?thesis using late by auto
  next
    case (2 t')
    then have "redeem_fresh cmd clk' (fst (expireIfDue l clk)) key = throw ''LINK_EXPIRED''"
      by (intro redeem_fresh_expired) (simp add: effectiveStatus_def)
    then show ?thesis using 2 late[of t'] assms by (simp add: effectiveStatus_def)
  qed
qed

section \<open>A sample link\<close>

definition sample_link_cmd :: create_link_command where
  "sample_link_cmd = \<lparr>cl_orgId = ''o1'', cl_receivableIds = [''r1''], cl_currency = KES, cl_targetAmountMinor = Some (mk_money 500 KES),
     cl_minAmountMinor = None, cl_maxAmountMinor = None,
     cl_config = \<lparr>lc_singleUse = False, lc_allowPartial = True, lc_expiresAt = Some 100\<rparr>, cl_linkId = Some ''l1''\<rparr>"

definition sample_redeem :: "string \<Rightarrow> int \<Rightarrow> redeem_command" where
  "sample_redeem key n = \<lparr>rd_token = ''abcdefghijklmnop'', rd_idempotencyKey = key, rd_amount = mk_money n KES, rd_intentId = Some ''i1''\<rparr>"

definition sample_link_cmds :: "link_command list" where
  "sample_link_cmds = [Create_Link sample_link_cmd (\<lambda>_. 1) ''abcdefghijklmnop'', Redeem_Link (sample_redeem ''k1'' 200) (\<lambda>_. 2)]"

lemma sample_token: "TOKEN_PATTERN ''abcdefghijklmnop''" "trim ''abcdefghijklmnop'' = ''abcdefghijklmnop''" "trim ''k1'' = ''k1''" "trim ''k2'' = ''k2''"
  by code_simp+

definition sample_link :: payment_link where
  "sample_link = \<lparr>pl_linkId = ''l1'', pl_orgId = ''o1'', pl_token = ''abcdefghijklmnop'', pl_receivableIds = [''r1''], pl_currency = KES,
     pl_targetAmountMinor = Some (mk_money 500 KES), pl_minAmountMinor = None, pl_maxAmountMinor = None,
     pl_config = \<lparr>lc_singleUse = False, lc_allowPartial = True, lc_expiresAt = Some 100\<rparr>, pl_status = L_Active,
     pl_redeemedTotalMinor = mk_money 0 KES, pl_redemptionCount = 0, pl_createdAt = 1, pl_completedAt = None, pl_expiredAt = None,
     pl_disabledAt = None, pl_cancelledAt = None\<rparr>"

lemma sample_link_created: "link_step no_links (Create_Link sample_link_cmd (\<lambda>_. 1) ''abcdefghijklmnop'') = Inr \<lparr>lt_links = [sample_link], lt_redemptions = []\<rparr>"
  by (simp add: createLink_def sample_link_cmd_def sample_link_def push_new_def bad_bound_def assertTokenShape_def sample_token zero_money_def Let_def)

lemma sample_redeemed:
  "\<exists>res. redeem (sample_redeem ''k1'' 200) (\<lambda>_. 2) [sample_link] [] = Inr res \<and> \<not> rs_duplicate res \<and>
     rs_link res = sample_link\<lparr>pl_redeemedTotalMinor := mk_money 200 KES, pl_redemptionCount := 1\<rparr> \<and>
     rr_amount (rs_redemption res) = mk_money 200 KES \<and> rr_linkId (rs_redemption res) = ''l1''"
  by (simp add: redeem_def redeem_fresh_def sample_redeem_def sample_link_def sample_token link_assertPositive_def effectiveStatus_def
      link_assertSameCurrency_def assertAmount_def remainingTargetMinor_def subtract_money_def compareTo_def assertSame_def add_money_def
      equals_money_def Let_def)

theorem links_never_overcollect_witness:
  "\<exists>l. l \<in> set (lt_links (drive link_step no_links sample_link_cmds)) \<and> m_amount (pl_redeemedTotalMinor l) = 200 \<and> m_amount (pl_redeemedTotalMinor l) \<le> 500"
proof -
  obtain res where res: "redeem (sample_redeem ''k1'' 200) (\<lambda>_. 2) [sample_link] [] = Inr res" "\<not> rs_duplicate res"
    "rs_link res = sample_link\<lparr>pl_redeemedTotalMinor := mk_money 200 KES, pl_redemptionCount := 1\<rparr>"
    using sample_redeemed by blast
  then have st: "lt_links (drive link_step no_links sample_link_cmds) = [rs_link res]"
    by (simp add: sample_link_cmds_def sample_link_created put_link_def sample_link_def del: link_step.simps(1))
  from links_never_overcollect[OF refl, of "rs_link res" sample_link_cmds, OF _ refl] st res(3) show ?thesis
    by (simp add: sample_link_def)
qed

theorem redeem_retry_witness:
  "\<exists>res res'. redeem (sample_redeem ''k1'' 200) (\<lambda>_. 2) [sample_link] [] = Inr res \<and>
     redeem (sample_redeem ''k1'' 200) (\<lambda>_. 900)
       (lt_links (drive link_step \<lparr>lt_links = [sample_link], lt_redemptions = []\<rparr> [Redeem_Link (sample_redeem ''k1'' 200) (\<lambda>_. 2), Sweep_Link ''l1'' (\<lambda>_. 200)]))
       (lt_redemptions (drive link_step \<lparr>lt_links = [sample_link], lt_redemptions = []\<rparr> [Redeem_Link (sample_redeem ''k1'' 200) (\<lambda>_. 2), Sweep_Link ''l1'' (\<lambda>_. 200)])) = Inr res' \<and>
     rs_duplicate res' \<and> rs_redemption res' = rs_redemption res"
proof -
  obtain res where res: "redeem (sample_redeem ''k1'' 200) (\<lambda>_. 2) [sample_link] [] = Inr res" using sample_redeemed by blast
  have st: "\<lparr>lt_links = [sample_link], lt_redemptions = []\<rparr> = drive link_step no_links [Create_Link sample_link_cmd (\<lambda>_. 1) ''abcdefghijklmnop'']"
    by (simp add: sample_link_created del: link_step.simps)
  from redeem_retry[OF st _ refl, of "sample_redeem ''k1'' 200" "\<lambda>_. 2" res "\<lambda>_. 900" "[Sweep_Link ''l1'' (\<lambda>_. 200)]"] res
  show ?thesis by (metis link_store.select_convs)
qed

theorem sweep_invisible_witness:
  "redeem_fresh (sample_redeem ''k2'' 10) (\<lambda>_. 150) sample_link ''k2'' = throw ''LINK_EXPIRED''"
  using sweep_invisible[of "\<lambda>_. 120" "\<lambda>_. 150" "sample_redeem ''k2'' 10" sample_link "''k2''" 100] by (simp add: sample_link_def)

end
