(* ===== verification/Approval_Policy.thy ===== *)
theory Approval_Policy
  imports Money Js_Integer
begin

text \<open>
  Approval policies (\<open>src/src/domain/approvals/policy.ts\<close>): which sensitive operations of an
  organisation need a second pair of eyes. The validation of one policy and of a whole set, the
  frozen definitions, and the evaluation that picks the most specific gate for a request.
\<close>

section \<open>Vocabularies and data\<close>

definition OPERATION_TYPES :: "string list" where
  "OPERATION_TYPES = [''refund'', ''write_off'', ''credit_note'', ''bank_destination_change'', ''manual_adjustment'']"

definition AMOUNT_REQUIRED_OPERATIONS :: "string list" where
  "AMOUNT_REQUIRED_OPERATIONS = [''refund'', ''write_off'']"

record approval_threshold =
  th_amountMinor :: js_num
  th_currency :: currency

text \<open>A nullable member of an object the caller builds: it may also be absent.\<close>

datatype 'a field = Undefined | Null | Given 'a

record approval_policy =
  ap_policyId :: uuid
  ap_orgId :: uuid
  ap_operationType :: string
  ap_threshold :: "approval_threshold field"
  ap_requiredApproverRoles :: "string list"
  ap_quorum :: js_num
  ap_ttlDays :: js_num

section \<open>Validation\<close>

definition isNonBlank :: "string \<Rightarrow> bool" where
  "isNonBlank value \<longleftrightarrow> trim value \<noteq> []"

fun assertThreshold :: "approval_threshold field \<Rightarrow> unit result" where
  "assertThreshold (Given t) =
     (if \<not> is_safe_integer (th_amountMinor t) \<or> js_neg (th_amountMinor t) then throw ''APPROVAL_POLICY_THRESHOLD_INVALID''
      else if th_currency t \<notin> set CURRENCIES then throw ''APPROVAL_POLICY_CURRENCY_INVALID''
      else Inr ())"
| "assertThreshold _ = Inr ()"

definition assertApprovalPolicy :: "approval_policy \<Rightarrow> unit result" where
  "assertApprovalPolicy policy =
     (let roles = ap_requiredApproverRoles policy in
      if \<not> isNonBlank (ap_orgId policy) then throw ''APPROVAL_POLICY_ORG_REQUIRED''
      else if \<not> isNonBlank (ap_policyId policy) then throw ''APPROVAL_POLICY_ID_REQUIRED''
      else if ap_operationType policy \<notin> set OPERATION_TYPES then throw ''APPROVAL_POLICY_OPERATION_INVALID''
      else and_then (assertThreshold (ap_threshold policy)) (\<lambda>_.
        if roles = [] then throw ''APPROVAL_POLICY_ROLES_REQUIRED''
        else if list_ex (\<lambda>role. \<not> isNonBlank role) roles then throw ''APPROVAL_POLICY_ROLE_INVALID''
        else if card (set roles) \<noteq> length roles then throw ''APPROVAL_POLICY_ROLE_DUPLICATE''
        else if \<not> is_safe_integer (ap_quorum policy) \<or> js_less (ap_quorum policy) 1
        then throw ''APPROVAL_POLICY_QUORUM_INVALID''
        else if int_of_num (ap_quorum policy) > int (length roles) then throw ''APPROVAL_POLICY_QUORUM_EXCEEDS_ROLES''
        else if \<not> is_safe_integer (ap_ttlDays policy) \<or> js_less (ap_ttlDays policy) 1
        then throw ''APPROVAL_POLICY_TTL_INVALID''
        else Inr ()))"

text \<open>The four \<open>Set\<close>s the validation of a set fills.\<close>

record policy_seen =
  sn_ids :: "uuid set"
  sn_orgs :: "uuid set"
  sn_catchAll :: "string set"
  sn_thresholds :: "string set"

fun threshold_key :: "approval_policy \<Rightarrow> string" where
  "threshold_key p = ap_operationType p @ (case ap_threshold p of
      Given t \<Rightarrow> '':'' @ currency_code (th_currency t) @ '':'' @ int_to_string (int_of_num (th_amountMinor t))
    | _ \<Rightarrow> [])"

fun catch_all :: "approval_policy \<Rightarrow> bool" where
  "catch_all p = (case ap_threshold p of Given _ \<Rightarrow> False | _ \<Rightarrow> True)"

definition policy_set_step :: "policy_seen \<Rightarrow> approval_policy \<Rightarrow> policy_seen result" where
  "policy_set_step seen policy = and_then (assertApprovalPolicy policy) (\<lambda>_.
     if ap_policyId policy \<in> sn_ids seen then throw ''APPROVAL_POLICY_ID_DUPLICATE''
     else if sn_orgs seen \<noteq> {} \<and> ap_orgId policy \<notin> sn_orgs seen then throw ''APPROVAL_POLICYSET_ORG_MISMATCH''
     else let seen = seen\<lparr>sn_ids := insert (ap_policyId policy) (sn_ids seen), sn_orgs := insert (ap_orgId policy) (sn_orgs seen)\<rparr> in
       if catch_all policy then
         (if ap_operationType policy \<in> sn_catchAll seen then throw ''APPROVAL_POLICY_DUPLICATE''
          else Inr (seen\<lparr>sn_catchAll := insert (ap_operationType policy) (sn_catchAll seen)\<rparr>))
       else (if threshold_key policy \<in> sn_thresholds seen then throw ''APPROVAL_POLICY_DUPLICATE''
          else Inr (seen\<lparr>sn_thresholds := insert (threshold_key policy) (sn_thresholds seen)\<rparr>)))"

definition assertPolicySet :: "approval_policy list \<Rightarrow> unit result" where
  "assertPolicySet policies =
     and_then (reduce policy_set_step \<lparr>sn_ids = {}, sn_orgs = {}, sn_catchAll = {}, sn_thresholds = {}\<rparr> policies) (\<lambda>_. Inr ())"

definition defineApprovalPolicy :: "approval_policy \<Rightarrow> approval_policy result" where
  "defineApprovalPolicy policy = and_then (assertApprovalPolicy policy) (\<lambda>_.
     Inr (policy\<lparr>ap_threshold := (case ap_threshold policy of Given t \<Rightarrow> Given t | _ \<Rightarrow> Null)\<rparr>))"

definition definePolicySet :: "approval_policy list \<Rightarrow> approval_policy list result" where
  "definePolicySet policies = and_then (assertPolicySet policies) (\<lambda>_. traverse defineApprovalPolicy policies)"

section \<open>Evaluation\<close>

record approval_eval_request =
  er_orgId :: uuid
  er_operationType :: string
  er_amountMinor :: "js_num option"
  er_currency :: "currency option"

datatype requirement_basis = MATCH_THRESHOLD_MET | MATCH_ALWAYS

record requirement_evidence =
  re_orgId :: uuid
  re_policyId :: uuid
  re_operationType :: string
  re_matchBasis :: requirement_basis
  re_amountMinor :: "js_num option"
  re_currency :: "currency option"
  re_threshold :: "approval_threshold field"
  re_requiredApproverRoles :: "string list"
  re_quorum :: js_num
  re_ttlDays :: js_num
  re_evaluatedAt :: string

datatype approval_requirement = Approval_Required approval_policy requirement_evidence | No_Policy_Match

text \<open>Amount and currency come together, and the amount is a non-negative safe integer.\<close>

fun assertAmountPair :: "js_num option \<Rightarrow> currency option \<Rightarrow> unit result" where
  "assertAmountPair (Some amount) (Some c) =
     (if \<not> is_safe_integer amount \<or> js_neg amount then throw ''APPROVAL_AMOUNT_INVALID''
      else if c \<notin> set CURRENCIES then throw ''APPROVAL_CURRENCY_INVALID'' else Inr ())"
| "assertAmountPair None None = Inr ()"
| "assertAmountPair _ _ = throw ''APPROVAL_AMOUNT_INVALID''"

text \<open>
  The filter of the candidates. A policy without the member \<open>threshold\<close> is not \<open>=== null\<close>: the
  comparison with an amount then reads a member of \<open>undefined\<close>.
\<close>

fun policy_matches :: "js_num option \<Rightarrow> currency option \<Rightarrow> approval_policy \<Rightarrow> bool result" where
  "policy_matches amount c policy = (case ap_threshold policy of
      Null \<Rightarrow> Inr True
    | Undefined \<Rightarrow> (if amount = None then Inr False else Inl TypeError)
    | Given t \<Rightarrow> Inr (case amount of None \<Rightarrow> False
        | Some a \<Rightarrow> c = Some (th_currency t) \<and> int_of_num a \<ge> int_of_num (th_amountMinor t)))"

fun filter_throwing :: "('a \<Rightarrow> bool result) \<Rightarrow> 'a list \<Rightarrow> 'a list result" where
  "filter_throwing f [] = Inr []"
| "filter_throwing f (x # xs) = and_then (f x) (\<lambda>b. and_then (filter_throwing f xs) (\<lambda>ys. Inr (if b then x # ys else ys)))"

fun gate_amount :: "approval_policy \<Rightarrow> int" where
  "gate_amount p = (case ap_threshold p of Given t \<Rightarrow> int_of_num (th_amountMinor t) | _ \<Rightarrow> - 1)"

definition more_specific :: "approval_policy \<Rightarrow> approval_policy \<Rightarrow> approval_policy" where
  "more_specific best policy = (if gate_amount policy > gate_amount best then policy else best)"

definition requirement_of :: "approval_eval_request \<Rightarrow> string \<Rightarrow> approval_policy \<Rightarrow> approval_requirement" where
  "requirement_of request evaluatedAt winner = Approval_Required winner
     \<lparr>re_orgId = er_orgId request, re_policyId = ap_policyId winner, re_operationType = ap_operationType winner,
      re_matchBasis = (if ap_threshold winner = Null then MATCH_ALWAYS else MATCH_THRESHOLD_MET),
      re_amountMinor = er_amountMinor request, re_currency = er_currency request, re_threshold = ap_threshold winner,
      re_requiredApproverRoles = ap_requiredApproverRoles winner, re_quorum = ap_quorum winner,
      re_ttlDays = ap_ttlDays winner, re_evaluatedAt = evaluatedAt\<rparr>"

definition evaluateApprovalRequirement ::
  "approval_policy list \<Rightarrow> approval_eval_request \<Rightarrow> clock \<Rightarrow> approval_requirement result" where
  "evaluateApprovalRequirement policies request clk = and_then (assertPolicySet policies) (\<lambda>_.
     if \<not> isNonBlank (er_orgId request) then throw ''APPROVAL_ORG_REQUIRED''
     else if er_operationType request \<notin> set OPERATION_TYPES then throw ''APPROVAL_OPERATION_INVALID''
     else and_then (assertAmountPair (er_amountMinor request) (er_currency request)) (\<lambda>_.
       if er_operationType request \<in> set AMOUNT_REQUIRED_OPERATIONS \<and> er_amountMinor request = None
       then throw ''APPROVAL_AMOUNT_REQUIRED''
       else if policies \<noteq> [] \<and> ap_orgId (hd policies) \<noteq> er_orgId request then throw ''APPROVAL_POLICYSET_ORG_MISMATCH''
       else let evaluatedAt = toISOString (clk 0);
                candidates = filter (\<lambda>policy. ap_operationType policy = er_operationType request) policies in
         and_then (filter_throwing (policy_matches (er_amountMinor request) (er_currency request)) candidates) (\<lambda>matched.
           case matched of [] \<Rightarrow> Inr No_Policy_Match
           | best # rest \<Rightarrow> Inr (requirement_of request evaluatedAt (foldl more_specific best rest)))))"

section \<open>What the validation accepts\<close>

definition policy_set_ok :: "approval_policy list \<Rightarrow> bool" where
  "policy_set_ok ps \<longleftrightarrow> (\<forall>p \<in> set ps. assertApprovalPolicy p = Inr ()) \<and> distinct (map ap_policyId ps) \<and>
     (\<forall>p \<in> set ps. \<forall>q \<in> set ps. ap_orgId p = ap_orgId q) \<and>
     distinct (map ap_operationType (filter catch_all ps)) \<and>
     distinct (map threshold_key (filter (\<lambda>p. \<not> catch_all p) ps))"

lemma policy_set_step_Inr:
  "policy_set_step s p = Inr s' \<longleftrightarrow> assertApprovalPolicy p = Inr () \<and> ap_policyId p \<notin> sn_ids s \<and>
     (sn_orgs s = {} \<or> ap_orgId p \<in> sn_orgs s) \<and> (catch_all p \<longrightarrow> ap_operationType p \<notin> sn_catchAll s) \<and>
     (\<not> catch_all p \<longrightarrow> threshold_key p \<notin> sn_thresholds s) \<and>
     s' = \<lparr>sn_ids = insert (ap_policyId p) (sn_ids s), sn_orgs = insert (ap_orgId p) (sn_orgs s),
       sn_catchAll = (if catch_all p then insert (ap_operationType p) (sn_catchAll s) else sn_catchAll s),
       sn_thresholds = (if catch_all p then sn_thresholds s else insert (threshold_key p) (sn_thresholds s))\<rparr>"
  unfolding policy_set_step_def
  by (auto simp: and_then_Inr_iff Let_def simp del: catch_all.simps threshold_key.simps split: if_splits)

text \<open>What the \<open>Set\<close>s still allow: keys that are new and distinct, and a single organisation.\<close>

definition fresh_keys :: "string set \<Rightarrow> string list \<Rightarrow> bool" where
  "fresh_keys S xs \<longleftrightarrow> distinct xs \<and> set xs \<inter> S = {}"

definition one_org :: "uuid set \<Rightarrow> uuid list \<Rightarrow> bool" where
  "one_org S xs \<longleftrightarrow> (\<forall>x \<in> set xs. \<forall>y \<in> set xs. x = y) \<and> (\<forall>x \<in> set xs. S \<subseteq> {x})"

lemma fresh_keys_simps [simp]:
  "fresh_keys S []" "fresh_keys S (x # xs) \<longleftrightarrow> x \<notin> S \<and> fresh_keys (insert x S) xs" "fresh_keys {} xs = distinct xs"
  by (auto simp: fresh_keys_def)

lemma one_org_Nil [simp]: "one_org S []"
  by (simp add: one_org_def)

lemma one_org_Cons: "S \<subseteq> {y} \<Longrightarrow> one_org S (x # xs) \<longleftrightarrow> (S = {} \<or> x \<in> S) \<and> one_org (insert x S) xs"
  by (auto simp: one_org_def) blast

lemma policy_set_reduce:
  assumes "sn_orgs s \<subseteq> {org}"
  shows "(\<exists>s'. reduce policy_set_step s ps = Inr s') \<longleftrightarrow> (\<forall>p \<in> set ps. assertApprovalPolicy p = Inr ()) \<and>
    fresh_keys (sn_ids s) (map ap_policyId ps) \<and> one_org (sn_orgs s) (map ap_orgId ps) \<and>
    fresh_keys (sn_catchAll s) (map ap_operationType (filter catch_all ps)) \<and>
    fresh_keys (sn_thresholds s) (map threshold_key (filter (\<lambda>p. \<not> catch_all p) ps))"
  using assms
proof (induction ps arbitrary: s org)
  case (Cons p ps)
  show ?case
  proof (cases "\<exists>s'. policy_set_step s p = Inr s'")
    case False
    then have "\<not> (\<exists>s'. reduce policy_set_step s (p # ps) = Inr s')" by (auto simp: and_then_Inr_iff)
    with False one_org_Cons[OF Cons.prems] show ?thesis unfolding policy_set_step_Inr
      by (auto simp del: catch_all.simps threshold_key.simps split: if_splits)
  next
    case True
    then obtain s' where s': "policy_set_step s p = Inr s'" by blast
    note step = s'[unfolded policy_set_step_Inr]
    have "sn_orgs s' \<subseteq> {ap_orgId p}" using step Cons.prems by auto
    note Cons.IH[OF this]
    moreover have "(\<exists>t. reduce policy_set_step s (p # ps) = Inr t) \<longleftrightarrow> (\<exists>t. reduce policy_set_step s' ps = Inr t)"
      using s' by simp
    ultimately show ?thesis using step one_org_Cons[OF Cons.prems, of "ap_orgId p" "map ap_orgId ps"]
      by (simp del: catch_all.simps threshold_key.simps reduce.simps)
  qed
qed simp

lemma assertPolicySet_iff: "assertPolicySet ps = Inr () \<longleftrightarrow> policy_set_ok ps"
  using policy_set_reduce[of "\<lparr>sn_ids = {}, sn_orgs = {}, sn_catchAll = {}, sn_thresholds = {}\<rparr>" "[]" ps]
  by (simp add: assertPolicySet_def and_then_Inr_iff policy_set_ok_def one_org_def del: catch_all.simps threshold_key.simps)

lemma policy_set_ok_mset:
  assumes "mset ps = mset qs"
  shows "policy_set_ok ps \<longleftrightarrow> policy_set_ok qs"
proof -
  have "distinct (map f (filter P ps)) \<longleftrightarrow> distinct (map f (filter P qs))" for f :: "approval_policy \<Rightarrow> string" and P
    using assms by (intro mset_eq_imp_distinct_iff) (simp add: mset_map mset_filter)
  from this[of ap_policyId "\<lambda>_. True"] this mset_eq_setD[OF assms] show ?thesis
    by (simp add: policy_set_ok_def del: catch_all.simps threshold_key.simps)
qed

section \<open>The most specific gate\<close>

definition governs :: "approval_eval_request \<Rightarrow> approval_policy \<Rightarrow> bool" where
  "governs request p \<longleftrightarrow> ap_operationType p = er_operationType request \<and>
     policy_matches (er_amountMinor request) (er_currency request) p = Inr True"

lemma policy_matches_Inl: "policy_matches a c p = Inl e \<Longrightarrow> e = TypeError"
  by (auto split: field.splits if_splits option.splits)

lemma filter_matches:
  "filter_throwing (policy_matches a c) ps =
     (if \<exists>p \<in> set ps. policy_matches a c p = Inl TypeError then Inl TypeError
      else Inr (filter (\<lambda>p. policy_matches a c p = Inr True) ps))"
proof (induction ps)
  case (Cons p ps)
  show ?case
  proof (cases "policy_matches a c p")
    case (Inl e)
    with policy_matches_Inl[OF this] show ?thesis by (simp del: policy_matches.simps)
  next
    case (Inr b)
    with Cons.IH show ?thesis by (cases b) (simp_all del: policy_matches.simps)
  qed
qed simp

lemma foldl_more_specific:
  "foldl more_specific b ps \<in> set (b # ps) \<and> (\<forall>p \<in> set (b # ps). gate_amount p \<le> gate_amount (foldl more_specific b ps))"
proof (induction ps arbitrary: b)
  case (Cons p ps)
  from Cons.IH[of "more_specific b p"] show ?case
    by (cases "gate_amount p > gate_amount b") (auto simp add: more_specific_def simp del: gate_amount.simps)
qed simp

lemma gate_amount_given:
  assumes "assertApprovalPolicy p = Inr ()" and "\<not> catch_all p"
  shows "0 \<le> gate_amount p"
proof -
  from assms(2) obtain t where t: "ap_threshold p = Given t" by (auto split: field.splits)
  with assms(1) have "\<not> js_neg (th_amountMinor t)"
    by (auto simp: assertApprovalPolicy_def Let_def result_simps)
  then show ?thesis using t by (cases "th_amountMinor t") auto
qed

text \<open>Two gates of a valid set that govern one request never tie.\<close>

lemma gate_unique:
  assumes "policy_set_ok ps" and "p \<in> set ps" "governs r p" and "q \<in> set ps" "governs r q"
    and "gate_amount p = gate_amount q"
  shows "p = q"
proof (cases "catch_all p")
  case True
  with assms gate_amount_given[of q] have "catch_all q" by (fastforce simp: policy_set_ok_def split: field.splits)
  with True assms show ?thesis
    by (auto simp: policy_set_ok_def distinct_map governs_def inj_on_def simp del: catch_all.simps)
next
  case False
  with assms gate_amount_given[of p] have "\<not> catch_all q" by (fastforce simp: policy_set_ok_def split: field.splits)
  with False obtain t u where tu: "ap_threshold p = Given t" "ap_threshold q = Given u" by (auto split: field.splits)
  with assms(3,5,6) have "threshold_key p = threshold_key q"
    by (auto simp: governs_def split: option.splits)
  with False \<open>\<not> catch_all q\<close> assms(1,2,4) show ?thesis
    by (auto simp: policy_set_ok_def distinct_map inj_on_def simp del: catch_all.simps threshold_key.simps)
qed

lemma foldl_more_specific_order:
  assumes "mset (b # ps) = mset (c # qs)" and "inj_on gate_amount (set (b # ps))"
  shows "foldl more_specific b ps = foldl more_specific c qs"
proof -
  have sets: "set (b # ps) = set (c # qs)" using assms(1) by (rule mset_eq_setD)
  note l = foldl_more_specific[of b ps] and r = foldl_more_specific[of c qs, folded sets]
  from l r have "gate_amount (foldl more_specific b ps) = gate_amount (foldl more_specific c qs)"
    by (meson order_antisym)
  with l r assms(2) show ?thesis by (meson inj_onD)
qed

section \<open>Properties of the policies\<close>

definition sample_policy :: "uuid \<Rightarrow> string \<Rightarrow> approval_threshold field \<Rightarrow> approval_policy" where
  "sample_policy i operation threshold =
     \<lparr>ap_policyId = i, ap_orgId = ''org'', ap_operationType = operation, ap_threshold = threshold,
      ap_requiredApproverRoles = [''manager'', ''finance''], ap_quorum = Fin 2, ap_ttlDays = Fin 7\<rparr>"

definition sample_policies :: "approval_policy list" where
  "sample_policies = [sample_policy ''a'' ''refund'' Null,
     sample_policy ''b'' ''refund'' (Given \<lparr>th_amountMinor = Fin 1000, th_currency = KES\<rparr>)]"

definition sample_eval :: approval_eval_request where
  "sample_eval = \<lparr>er_orgId = ''org'', er_operationType = ''refund'', er_amountMinor = Some (Fin 2500), er_currency = Some KES\<rparr>"

lemma sample_policies_ok: "assertPolicySet sample_policies = Inr ()" "assertPolicySet (rev sample_policies) = Inr ()"
  by code_simp+

lemma sample_evaluation: "\<exists>ev. evaluateApprovalRequirement sample_policies sample_eval clk =
    Inr (Approval_Required (sample_policies ! 1) ev)"
proof -
  have guards: "isNonBlank (er_orgId sample_eval)" "er_operationType sample_eval \<in> set OPERATION_TYPES"
    "assertAmountPair (er_amountMinor sample_eval) (er_currency sample_eval) = Inr ()" by code_simp+
  show ?thesis unfolding evaluateApprovalRequirement_def sample_policies_ok(1) guards(3)
    using guards(1,2) by (simp add: sample_policies_def sample_policy_def sample_eval_def requirement_of_def more_specific_def)
qed

text \<open>
  C36. The most specific gate wins: an evaluation that returns
  finds no approval needed exactly when no policy of the operation is met by the amount, and
  otherwise demands the one of the policies met whose threshold is strictly above that of every
  other, an explicit threshold beating the catch-all.
\<close>

theorem evaluateApproval_most_specific:
  assumes "evaluateApprovalRequirement policies request clk = Inr req"
  shows "(req = No_Policy_Match \<longleftrightarrow> (\<forall>p \<in> set policies. \<not> governs request p)) \<and>
    (\<forall>w ev. req = Approval_Required w ev \<longrightarrow> w \<in> set policies \<and> governs request w \<and>
      (\<forall>p \<in> set policies. governs request p \<and> p \<noteq> w \<longrightarrow> gate_amount p < gate_amount w))"
proof -
  define ms where "ms = filter (\<lambda>p. policy_matches (er_amountMinor request) (er_currency request) p = Inr True)
    (filter (\<lambda>policy. ap_operationType policy = er_operationType request) policies)"
  from assms have ok: "policy_set_ok policies"
    by (auto simp: evaluateApprovalRequirement_def result_simps assertPolicySet_iff[symmetric])
  from assms have req: "req = (case ms of [] \<Rightarrow> No_Policy_Match
      | b # rest \<Rightarrow> requirement_of request (toISOString (clk 0)) (foldl more_specific b rest))"
    by (auto simp: evaluateApprovalRequirement_def result_simps Let_def filter_matches ms_def
        simp del: policy_matches.simps split: if_splits list.splits)
  have ms: "set ms = {p \<in> set policies. governs request p}" by (auto simp: ms_def governs_def)
  show ?thesis
  proof (cases ms)
    case Nil
    with req ms show ?thesis by auto
  next
    case (Cons b rest)
    have "foldl more_specific b rest \<in> set policies \<and> governs request (foldl more_specific b rest) \<and>
      (\<forall>p \<in> set policies. governs request p \<longrightarrow> gate_amount p \<le> gate_amount (foldl more_specific b rest))"
      using foldl_more_specific[of b rest] ms unfolding Cons by blast
    with gate_unique[OF ok] have "\<forall>p \<in> set policies. governs request p \<and> p \<noteq> foldl more_specific b rest \<longrightarrow>
        gate_amount p < gate_amount (foldl more_specific b rest)" by (meson order_le_less)
    then show ?thesis using req Cons ms foldl_more_specific[of b rest] unfolding Cons
      by (auto simp: requirement_of_def simp del: gate_amount.simps)
  qed
qed

theorem evaluateApproval_most_specific_witness:
  "\<exists>req. evaluateApprovalRequirement sample_policies sample_eval (\<lambda>_. 0) = Inr req \<and>
    (req = No_Policy_Match \<longleftrightarrow> (\<forall>p \<in> set sample_policies. \<not> governs sample_eval p))"
  using sample_evaluation[of "\<lambda>_. 0"] evaluateApproval_most_specific by blast

text \<open>
  Matching is order-independent: any reordering of a valid policy set gives the same
  requirement with the same evidence, or the same error, on every request.
\<close>

theorem evaluateApproval_order_independent:
  assumes "mset policies = mset policies'" and "assertPolicySet policies = Inr ()"
  shows "evaluateApprovalRequirement policies request clk = evaluateApprovalRequirement policies' request clk"
proof -
  let ?match = "policy_matches (er_amountMinor request) (er_currency request)"
  let ?cand = "\<lambda>ps. filter (\<lambda>policy. ap_operationType policy = er_operationType request) ps"
  define ms where "ms = (\<lambda>ps. filter (\<lambda>p. ?match p = Inr True) (?cand ps))"
  have ok: "policy_set_ok policies" "policy_set_ok policies'"
    using assms policy_set_ok_mset[OF assms(1)] by (simp_all add: assertPolicySet_iff)
  have sets: "set policies = set policies'" by (rule mset_eq_setD[OF assms(1)])
  have org: "policies \<noteq> [] \<and> ap_orgId (hd policies) \<noteq> er_orgId request \<longleftrightarrow>
      policies' \<noteq> [] \<and> ap_orgId (hd policies') \<noteq> er_orgId request"
    using ok sets unfolding policy_set_ok_def by (metis hd_in_set list.set_sel(1) set_empty)
  have fail: "(\<exists>p \<in> set (?cand policies). ?match p = Inl TypeError) \<longleftrightarrow> (\<exists>p \<in> set (?cand policies'). ?match p = Inl TypeError)"
    using sets by simp
  have msets: "mset (ms policies) = mset (ms policies')" using assms(1) by (simp add: ms_def mset_filter del: policy_matches.simps)
  have "inj_on gate_amount (set (ms policies))"
    using gate_unique[OF ok(1), of _ request] by (auto simp: inj_on_def ms_def governs_def simp del: policy_matches.simps gate_amount.simps)
  then have win: "(case ms policies of [] \<Rightarrow> Inr No_Policy_Match | b # rest \<Rightarrow> Inr (k (foldl more_specific b rest))) =
      (case ms policies' of [] \<Rightarrow> Inr No_Policy_Match | b # rest \<Rightarrow> Inr (k (foldl more_specific b rest)))"
    for k :: "approval_policy \<Rightarrow> approval_requirement"
    using msets foldl_more_specific_order by (auto split: list.splits)
  have tail: "and_then (filter_throwing ?match (?cand policies)) (\<lambda>matched. case matched of [] \<Rightarrow> Inr No_Policy_Match
        | b # rest \<Rightarrow> Inr (k (foldl more_specific b rest))) =
      and_then (filter_throwing ?match (?cand policies')) (\<lambda>matched. case matched of [] \<Rightarrow> Inr No_Policy_Match
        | b # rest \<Rightarrow> Inr (k (foldl more_specific b rest)))" for k :: "approval_policy \<Rightarrow> approval_requirement"
    unfolding filter_matches fail if_distrib[of "\<lambda>m. and_then m _"] and_then.simps win[unfolded ms_def] by (rule refl)
  show ?thesis
    unfolding evaluateApprovalRequirement_def assertPolicySet_iff[THEN iffD2, OF ok(1)] assertPolicySet_iff[THEN iffD2, OF ok(2)]
      and_then.simps org Let_def tail by (rule refl)
qed

theorem evaluateApproval_order_independent_witness:
  "assertPolicySet sample_policies = Inr () \<and>
   evaluateApprovalRequirement sample_policies sample_eval (\<lambda>_. 0) =
     evaluateApprovalRequirement (rev sample_policies) sample_eval (\<lambda>_. 0)"
  using evaluateApproval_order_independent[of sample_policies "rev sample_policies"] sample_policies_ok by simp

text \<open>
  A catch-all that lost its \<open>threshold\<close> member fails open: the set is valid, and once defined
  it demands approval of a change of bank destination, but evaluated as it is it exempts it.
\<close>

theorem absent_threshold_exempts:
  "let raw = sample_policy ''a'' ''bank_destination_change'' Undefined;
       request = \<lparr>er_orgId = ''org'', er_operationType = ''bank_destination_change'', er_amountMinor = None, er_currency = None\<rparr> in
   assertPolicySet [raw] = Inr () \<and> evaluateApprovalRequirement [raw] request clk = Inr No_Policy_Match \<and>
   (\<exists>defined w ev. definePolicySet [raw] = Inr defined \<and>
      evaluateApprovalRequirement defined request clk = Inr (Approval_Required w ev))"
proof -
  define raw where "raw = sample_policy ''a'' ''bank_destination_change'' Undefined"
  define request where "request = \<lparr>er_orgId = ''org'', er_operationType = ''bank_destination_change'',
    er_amountMinor = None :: js_num option, er_currency = None :: currency option\<rparr>"
  let ?defined = "sample_policy ''a'' ''bank_destination_change'' Null"
  have ok: "assertPolicySet [raw] = Inr ()" "assertPolicySet [?defined] = Inr ()" "assertApprovalPolicy raw = Inr ()"
    unfolding raw_def by code_simp+
  have guards: "isNonBlank ''org''" "''bank_destination_change'' \<in> set OPERATION_TYPES"
    "''bank_destination_change'' \<notin> set AMOUNT_REQUIRED_OPERATIONS" by code_simp+
  have "evaluateApprovalRequirement [raw] request clk = Inr No_Policy_Match"
    unfolding evaluateApprovalRequirement_def ok using guards by (simp add: raw_def request_def sample_policy_def)
  moreover have "definePolicySet [raw] = Inr [?defined]"
    using ok by (simp add: definePolicySet_def defineApprovalPolicy_def) (simp add: raw_def sample_policy_def)
  moreover have "\<exists>w ev. evaluateApprovalRequirement [?defined] request clk = Inr (Approval_Required w ev)"
    unfolding evaluateApprovalRequirement_def ok using guards by (simp add: request_def sample_policy_def requirement_of_def)
  ultimately show ?thesis using ok(1) unfolding raw_def request_def Let_def by blast
qed

end
