(* ===== verification/Approval_Request.thy ===== *)
theory Approval_Request
  imports Approval_Policy Contracts
begin

text \<open>
  Approval requests (\<open>src/src/domain/approvals/request.ts\<close>) and the events of the lane
  (\<open>events.ts\<close>): a maker opens a request against a policy, checkers approve it until the quorum
  of distinct approvers is reached, and only an approved request is marked applied. A refusal
  of governance is a value that carries the unchanged aggregate and an event.
\<close>

section \<open>Data\<close>

datatype approval_status = A_Drafted | A_Pending | A_Approved | A_Rejected | A_Expired | A_Cancelled | A_Applied

fun APPROVAL_TRANSITIONS :: "approval_status \<Rightarrow> approval_status list" where
  "APPROVAL_TRANSITIONS A_Drafted = [A_Pending]"
| "APPROVAL_TRANSITIONS A_Pending = [A_Approved, A_Rejected, A_Expired, A_Cancelled]"
| "APPROVAL_TRANSITIONS A_Approved = [A_Applied]"
| "APPROVAL_TRANSITIONS A_Rejected = []"
| "APPROVAL_TRANSITIONS A_Expired = []"
| "APPROVAL_TRANSITIONS A_Cancelled = []"
| "APPROVAL_TRANSITIONS A_Applied = []"

definition APPROVAL_MANUAL_TARGETS :: "approval_status list" where
  "APPROVAL_MANUAL_TARGETS = [A_Cancelled]"

record payload_snapshot =
  sn_amountMinor :: "js_num option"
  sn_currency :: "currency option"
  sn_summary :: string

record approval_decision =
  ad_approverId :: string
  ad_matchedRoles :: "string list"
  ad_decidedAt :: date

record approval_request =
  aq_approvalRequestId :: uuid
  aq_orgId :: uuid
  aq_operationType :: string
  aq_policyId :: uuid
  aq_subjectRefs :: "uuid list"
  aq_payloadSnapshot :: payload_snapshot
  aq_requesterId :: string
  aq_state :: approval_status
  aq_requiredApproverRoles :: "string list"
  aq_quorum :: int
  aq_createdAt :: date
  aq_expiresAt :: date
  aq_submittedAt :: "date option"
  aq_approvedAt :: "date option"
  aq_rejectedAt :: "date option"
  aq_rejectedReason :: "string option"
  aq_expiredAt :: "date option"
  aq_cancelledAt :: "date option"
  aq_cancelledBy :: "string option"
  aq_appliedAt :: "date option"
  aq_decisions :: "approval_decision list"

datatype refusal_operation = Op_Submit | Op_Approve | Op_Reject | Op_Expire | Op_Cancel | Op_Apply

section \<open>Events\<close>

datatype approval_payload =
    RequestCreated approval_request int string string
  | QuorumMet uuid uuid string int nat string
  | Approved uuid uuid string int nat string
  | Rejected uuid uuid string string string string
  | Expired uuid uuid string string string
  | Cancelled uuid uuid string string string
  | Applied uuid uuid string string
  | DecisionRefused uuid uuid string refusal_operation "string option" string

type_synonym approval_event = "(approval_payload, string) domain_event"

definition approval_domainEvent :: "string \<Rightarrow> uuid \<Rightarrow> approval_payload \<Rightarrow> date \<Rightarrow> approval_event" where
  "approval_domainEvent name aggregateId payload now =
     \<lparr>ev_name = name, ev_version = 1, ev_aggregateId = aggregateId, ev_payload = payload, ev_occurredAt = toISOString now\<rparr>"

section \<open>Results\<close>

record approval_refusal =
  rf_operation :: refusal_operation
  rf_reasonCode :: string
  rf_attemptedBy :: "string option"

record approval_evidence =
  ae_approvalRequestId :: uuid
  ae_orgId :: uuid
  ae_operationType :: string
  ae_policyId :: uuid
  ae_subjectRefs :: "uuid list"
  ae_payloadSnapshot :: payload_snapshot
  ae_requesterId :: string
  ae_requiredApproverRoles :: "string list"
  ae_quorum :: int
  ae_distinctApproverCount :: nat
  ae_decisions :: "(string \<times> string list \<times> string) list"
  ae_createdAt :: string
  ae_expiresAt :: string
  ae_approvedAt :: string
  ae_appliedAt :: string

datatype approval_outcome =
    Accepted approval_request "approval_event list"
  | Applied_With approval_request approval_event approval_evidence
  | Refused approval_request approval_refusal approval_event

section \<open>Helpers\<close>

definition SUMMARY_MAX_CHARS :: nat where "SUMMARY_MAX_CHARS = 512"

definition validateSnapshot :: "payload_snapshot \<Rightarrow> unit result" where
  "validateSnapshot snapshot =
     (if \<not> isNonBlank (sn_summary snapshot) then throw ''APPROVAL_SUMMARY_REQUIRED''
      else if length (sn_summary snapshot) > SUMMARY_MAX_CHARS then throw ''APPROVAL_SUMMARY_TOO_LONG''
      else assertAmountPair (sn_amountMinor snapshot) (sn_currency snapshot))"

definition stateRefusalFor :: "approval_request \<Rightarrow> date \<Rightarrow> string \<Rightarrow> string option" where
  "stateRefusalFor request now fallbackCode =
     (if aq_state request = A_Pending then
        (if now > aq_expiresAt request then Some ''APPROVAL_REQUEST_EXPIRED'' else None)
      else if aq_state request = A_Expired then Some ''APPROVAL_REQUEST_EXPIRED''
      else if aq_state request = A_Cancelled then Some ''APPROVAL_REQUEST_CANCELLED''
      else Some fallbackCode)"

definition refuse :: "approval_request \<Rightarrow> refusal_operation \<Rightarrow> string option \<Rightarrow> string \<Rightarrow> date \<Rightarrow> approval_outcome" where
  "refuse request operation attemptedBy code now = Refused request
     \<lparr>rf_operation = operation, rf_reasonCode = code, rf_attemptedBy = attemptedBy\<rparr>
     (approval_domainEvent ''approvals.decisionRefused'' (aq_approvalRequestId request)
       (DecisionRefused (aq_orgId request) (aq_approvalRequestId request) (aq_operationType request) operation attemptedBy code) now)"

section \<open>The maker\<close>

record open_approval_args =
  oa_approvalRequestId :: uuid
  oa_orgId :: uuid
  oa_operationType :: string
  oa_subjectRefs :: "uuid list"
  oa_payloadSnapshot :: payload_snapshot
  oa_requesterId :: string

definition drafted_request :: "open_approval_args \<Rightarrow> approval_policy \<Rightarrow> date \<Rightarrow> date \<Rightarrow> approval_request" where
  "drafted_request args policy createdAt expiresAt =
     \<lparr>aq_approvalRequestId = oa_approvalRequestId args, aq_orgId = oa_orgId args,
      aq_operationType = oa_operationType args, aq_policyId = ap_policyId policy, aq_subjectRefs = oa_subjectRefs args,
      aq_payloadSnapshot = oa_payloadSnapshot args, aq_requesterId = oa_requesterId args, aq_state = A_Drafted,
      aq_requiredApproverRoles = ap_requiredApproverRoles policy, aq_quorum = int_of_num (ap_quorum policy),
      aq_createdAt = createdAt, aq_expiresAt = expiresAt, aq_submittedAt = None, aq_approvedAt = None,
      aq_rejectedAt = None, aq_rejectedReason = None, aq_expiredAt = None, aq_cancelledAt = None,
      aq_cancelledBy = None, aq_appliedAt = None, aq_decisions = []\<rparr>"

text \<open>An \<open>expiresAt\<close> beyond the range of \<open>Date\<close> is invalid, and its \<open>toISOString\<close> raises.\<close>

definition openApprovalRequest ::
  "open_approval_args \<Rightarrow> approval_policy \<Rightarrow> clock \<Rightarrow> (approval_request \<times> approval_event) result" where
  "openApprovalRequest args policy clk =
     (let createdAt = clk 0 in
      if \<not> isNonBlank (oa_approvalRequestId args) then throw ''APPROVAL_ID_REQUIRED''
      else if \<not> isNonBlank (oa_orgId args) then throw ''APPROVAL_ORG_REQUIRED''
      else and_then (assertApprovalPolicy policy) (\<lambda>_.
        if ap_orgId policy \<noteq> oa_orgId args then throw ''APPROVAL_POLICY_ORG_MISMATCH''
        else if oa_operationType args \<notin> set OPERATION_TYPES then throw ''APPROVAL_OPERATION_INVALID''
        else if oa_operationType args \<noteq> ap_operationType policy then throw ''APPROVAL_OPERATION_MISMATCH''
        else if oa_subjectRefs args = [] then throw ''APPROVAL_SUBJECTS_REQUIRED''
        else if list_ex (\<lambda>subject. \<not> isNonBlank subject) (oa_subjectRefs args) then throw ''APPROVAL_SUBJECT_INVALID''
        else if card (set (oa_subjectRefs args)) \<noteq> length (oa_subjectRefs args) then throw ''APPROVAL_SUBJECT_DUPLICATE''
        else and_then (validateSnapshot (oa_payloadSnapshot args)) (\<lambda>_.
          if oa_operationType args \<in> set AMOUNT_REQUIRED_OPERATIONS \<and> sn_amountMinor (oa_payloadSnapshot args) = None
          then throw ''APPROVAL_AMOUNT_REQUIRED''
          else if \<not> isNonBlank (oa_requesterId args) then throw ''APPROVAL_REQUESTER_REQUIRED''
          else case new_date (add_days createdAt (int_of_num (ap_ttlDays policy))) of
              None \<Rightarrow> Inl RangeError
            | Some expiresAt \<Rightarrow> let request = drafted_request args policy createdAt expiresAt in
                Inr (request, approval_domainEvent ''approvals.requestCreated'' (aq_approvalRequestId request)
                  (RequestCreated request (int_of_num (ap_ttlDays policy)) (toISOString expiresAt) (toISOString createdAt))
                  (clk 1)))))"

definition submitApprovalRequest :: "approval_request \<Rightarrow> clock \<Rightarrow> approval_outcome result" where
  "submitApprovalRequest request clk =
     (let now = clk 0 in
      if aq_state request = A_Drafted \<and> now > aq_expiresAt request
      then Inr (refuse request Op_Submit None ''APPROVAL_REQUEST_EXPIRED'' now)
      else if aq_state request = A_Expired then Inr (refuse request Op_Submit None ''APPROVAL_REQUEST_EXPIRED'' now)
      else if aq_state request = A_Cancelled then Inr (refuse request Op_Submit None ''APPROVAL_REQUEST_CANCELLED'' now)
      else if aq_state request \<noteq> A_Drafted then Inr (refuse request Op_Submit None ''APPROVAL_NOT_DRAFTED'' now)
      else Inr (Accepted (request\<lparr>aq_state := A_Pending, aq_submittedAt := Some now\<rparr>) []))"

section \<open>The checkers\<close>

text \<open>\<open>[...new Set(required.filter((role) => held.has(role)))].sort()\<close>\<close>

definition matched_roles :: "approval_request \<Rightarrow> string list \<Rightarrow> string list" where
  "matched_roles request roleIds =
     sort (rev (remdups (rev (filter (\<lambda>role. role \<in> set roleIds) (aq_requiredApproverRoles request)))))"

definition approve :: "approval_request \<Rightarrow> string \<Rightarrow> string list \<Rightarrow> clock \<Rightarrow> approval_outcome result" where
  "approve request approverId roleIds clk =
     (let decidedAt = clk 0; matchedRoles = matched_roles request roleIds in
      if \<not> isNonBlank approverId then throw ''APPROVAL_APPROVER_REQUIRED''
      else if list_ex (\<lambda>role. \<not> isNonBlank role) roleIds then throw ''APPROVAL_APPROVER_ROLES_INVALID''
      else case stateRefusalFor request decidedAt ''APPROVAL_NOT_PENDING'' of
        Some code \<Rightarrow> Inr (refuse request Op_Approve (Some approverId) code decidedAt)
      | None \<Rightarrow>
          if approverId = aq_requesterId request
          then Inr (refuse request Op_Approve (Some approverId) ''APPROVAL_SELF_APPROVAL_REFUSED'' decidedAt)
          else if matchedRoles = [] then Inr (refuse request Op_Approve (Some approverId) ''APPROVAL_ROLE_NOT_HELD'' decidedAt)
          else if list_ex (\<lambda>d. ad_approverId d = approverId) (aq_decisions request)
          then Inr (refuse request Op_Approve (Some approverId) ''APPROVAL_APPROVER_DUPLICATE'' decidedAt)
          else let decisions = aq_decisions request @
                     [\<lparr>ad_approverId = approverId, ad_matchedRoles = matchedRoles, ad_decidedAt = decidedAt\<rparr>];
                   n = length decisions in
            if int n < aq_quorum request then Inr (Accepted (request\<lparr>aq_decisions := decisions\<rparr>) [])
            else Inr (Accepted
              (request\<lparr>aq_decisions := decisions, aq_state := A_Approved, aq_approvedAt := Some decidedAt\<rparr>)
              [approval_domainEvent ''approvals.quorumMet'' (aq_approvalRequestId request)
                 (QuorumMet (aq_orgId request) (aq_approvalRequestId request) (aq_operationType request) (aq_quorum request) n
                   (toISOString decidedAt)) decidedAt,
               approval_domainEvent ''approvals.approved'' (aq_approvalRequestId request)
                 (Approved (aq_orgId request) (aq_approvalRequestId request) (aq_operationType request) (aq_quorum request) n
                   (toISOString decidedAt)) decidedAt]))"

definition reject :: "approval_request \<Rightarrow> string \<Rightarrow> string \<Rightarrow> clock \<Rightarrow> approval_outcome result" where
  "reject request rejectedBy reason clk =
     (let rejectedAt = clk 0 in
      if \<not> isNonBlank rejectedBy then throw ''APPROVAL_ACTOR_REQUIRED''
      else if \<not> isNonBlank reason then throw ''APPROVAL_REASON_REQUIRED''
      else case stateRefusalFor request rejectedAt ''APPROVAL_NOT_PENDING'' of
        Some code \<Rightarrow> Inr (refuse request Op_Reject (Some rejectedBy) code rejectedAt)
      | None \<Rightarrow> let why = trim reason in
          Inr (Accepted (request\<lparr>aq_state := A_Rejected, aq_rejectedAt := Some rejectedAt, aq_rejectedReason := Some why\<rparr>)
            [approval_domainEvent ''approvals.rejected'' (aq_approvalRequestId request)
               (Rejected (aq_orgId request) (aq_approvalRequestId request) (aq_operationType request) rejectedBy why
                 (toISOString rejectedAt)) rejectedAt]))"

definition expireApprovalRequest :: "approval_request \<Rightarrow> clock \<Rightarrow> approval_outcome result" where
  "expireApprovalRequest request clk =
     (let expiredAt = clk 0 in
      if aq_state request \<noteq> A_Pending then Inr (refuse request Op_Expire None ''APPROVAL_NOT_PENDING'' expiredAt)
      else if expiredAt \<le> aq_expiresAt request then Inr (refuse request Op_Expire None ''APPROVAL_EXPIRY_NOT_DUE'' expiredAt)
      else Inr (Accepted (request\<lparr>aq_state := A_Expired, aq_expiredAt := Some expiredAt\<rparr>)
        [approval_domainEvent ''approvals.expired'' (aq_approvalRequestId request)
           (Expired (aq_orgId request) (aq_approvalRequestId request) (aq_operationType request)
             (toISOString (aq_expiresAt request)) (toISOString expiredAt)) expiredAt]))"

section \<open>Cancelling and applying\<close>

definition transitionApproval ::
  "approval_request \<Rightarrow> approval_status \<Rightarrow> string \<Rightarrow> clock \<Rightarrow> approval_outcome result" where
  "transitionApproval request to actorId clk =
     (if to \<notin> set APPROVAL_MANUAL_TARGETS then throw ''APPROVAL_TRANSITION_NOT_AUTOMATIC''
      else if \<not> isNonBlank actorId then throw ''APPROVAL_ACTOR_REQUIRED''
      else let cancelledAt = clk 0; stateRefusal = stateRefusalFor request cancelledAt ''APPROVAL_NOT_PENDING'';
               refusal = (\<lambda>code. Inr (refuse request Op_Cancel (Some actorId) code cancelledAt)) in
        if stateRefusal \<noteq> None \<and> (aq_state request = A_Expired \<or> aq_state request = A_Cancelled)
        then refusal (the stateRefusal)
        else if to \<notin> set (APPROVAL_TRANSITIONS (aq_state request)) then throw ''APPROVAL_TRANSITION_INVALID''
        else if stateRefusal \<noteq> None then refusal (the stateRefusal)
        else if actorId \<noteq> aq_requesterId request then refusal ''APPROVAL_CANCEL_NOT_REQUESTER''
        else Inr (Accepted (request\<lparr>aq_state := A_Cancelled, aq_cancelledAt := Some cancelledAt, aq_cancelledBy := Some actorId\<rparr>)
          [approval_domainEvent ''approvals.cancelled'' (aq_approvalRequestId request)
             (Cancelled (aq_orgId request) (aq_approvalRequestId request) (aq_operationType request) actorId
               (toISOString cancelledAt)) cancelledAt]))"

definition cancelApprovalRequest :: "approval_request \<Rightarrow> clock \<Rightarrow> approval_outcome result" where
  "cancelApprovalRequest request clk = transitionApproval request A_Cancelled (aq_requesterId request) clk"

text \<open>An approved request without \<open>approvedAt\<close> would raise; the state machine never builds one.\<close>

definition evidence_of :: "approval_request \<Rightarrow> date \<Rightarrow> date \<Rightarrow> approval_evidence" where
  "evidence_of request approvedAt appliedAt =
     \<lparr>ae_approvalRequestId = aq_approvalRequestId request, ae_orgId = aq_orgId request,
      ae_operationType = aq_operationType request, ae_policyId = aq_policyId request,
      ae_subjectRefs = aq_subjectRefs request, ae_payloadSnapshot = aq_payloadSnapshot request,
      ae_requesterId = aq_requesterId request, ae_requiredApproverRoles = aq_requiredApproverRoles request,
      ae_quorum = aq_quorum request, ae_distinctApproverCount = length (aq_decisions request),
      ae_decisions = map (\<lambda>d. (ad_approverId d, ad_matchedRoles d, toISOString (ad_decidedAt d))) (aq_decisions request),
      ae_createdAt = toISOString (aq_createdAt request), ae_expiresAt = toISOString (aq_expiresAt request),
      ae_approvedAt = toISOString approvedAt, ae_appliedAt = toISOString appliedAt\<rparr>"

definition markApplied :: "approval_request \<Rightarrow> clock \<Rightarrow> approval_outcome result" where
  "markApplied request clk =
     (let appliedAt = clk 0 in
      if aq_state request = A_Pending then Inr (refuse request Op_Apply None ''APPROVAL_QUORUM_NOT_MET'' appliedAt)
      else if aq_state request = A_Applied then Inr (refuse request Op_Apply None ''APPROVAL_ALREADY_APPLIED'' appliedAt)
      else if aq_state request \<noteq> A_Approved then Inr (refuse request Op_Apply None ''APPROVAL_NOT_APPROVED'' appliedAt)
      else case aq_approvedAt request of None \<Rightarrow> Inl TypeError
        | Some approvedAt \<Rightarrow> Inr (Applied_With (request\<lparr>aq_state := A_Applied, aq_appliedAt := Some appliedAt\<rparr>)
            (approval_domainEvent ''approvals.applied'' (aq_approvalRequestId request)
              (Applied (aq_orgId request) (aq_approvalRequestId request) (aq_operationType request) (toISOString appliedAt))
              appliedAt)
            (evidence_of request approvedAt appliedAt)))"

section \<open>The request machine\<close>

datatype approval_command =
    Submit clock
  | Approve string "string list" clock
  | Reject string string clock
  | Expire clock
  | Transition_To approval_status string clock
  | Cancel clock
  | Mark_Applied clock

fun approval_run :: "approval_request \<Rightarrow> approval_command \<Rightarrow> approval_outcome result" where
  "approval_run r (Submit clk) = submitApprovalRequest r clk"
| "approval_run r (Approve approverId roleIds clk) = approve r approverId roleIds clk"
| "approval_run r (Reject rejectedBy reason clk) = reject r rejectedBy reason clk"
| "approval_run r (Expire clk) = expireApprovalRequest r clk"
| "approval_run r (Transition_To to actorId clk) = transitionApproval r to actorId clk"
| "approval_run r (Cancel clk) = cancelApprovalRequest r clk"
| "approval_run r (Mark_Applied clk) = markApplied r clk"

fun outcome_request :: "approval_outcome \<Rightarrow> approval_request" where
  "outcome_request (Accepted r _) = r"
| "outcome_request (Applied_With r _ _) = r"
| "outcome_request (Refused r _ _) = r"

fun outcome_events :: "approval_outcome \<Rightarrow> approval_event list" where
  "outcome_events (Accepted _ events) = events"
| "outcome_events (Applied_With _ event _) = [event]"
| "outcome_events (Refused _ _ event) = [event]"

definition approval_step :: "approval_request \<Rightarrow> approval_command \<Rightarrow> approval_request result" where
  "approval_step r c = and_then (approval_run r c) (\<lambda>out. Inr (outcome_request out))"

section \<open>What each operation accepts\<close>

text \<open>A checker the request still lets decide.\<close>

definition may_approve :: "approval_request \<Rightarrow> string \<Rightarrow> string list \<Rightarrow> date \<Rightarrow> bool" where
  "may_approve r approverId roleIds now \<longleftrightarrow> aq_state r = A_Pending \<and> now \<le> aq_expiresAt r \<and>
     approverId \<noteq> aq_requesterId r \<and> matched_roles r roleIds \<noteq> [] \<and>
     approverId \<notin> ad_approverId ` set (aq_decisions r)"

definition decision_of :: "approval_request \<Rightarrow> string \<Rightarrow> string list \<Rightarrow> date \<Rightarrow> approval_decision" where
  "decision_of r approverId roleIds now =
     \<lparr>ad_approverId = approverId, ad_matchedRoles = matched_roles r roleIds, ad_decidedAt = now\<rparr>"

text \<open>What an operation leaves: the request as it was, or one of the seven moves.\<close>

inductive approval_move :: "approval_request \<Rightarrow> approval_request \<Rightarrow> string list \<Rightarrow> bool" where
  submits: "aq_state r = A_Drafted \<Longrightarrow> t \<le> aq_expiresAt r \<Longrightarrow>
     approval_move r (r\<lparr>aq_state := A_Pending, aq_submittedAt := Some t\<rparr>) []"
| records: "may_approve r a roles t \<Longrightarrow> int (length (aq_decisions r)) + 1 < aq_quorum r \<Longrightarrow>
     approval_move r (r\<lparr>aq_decisions := aq_decisions r @ [decision_of r a roles t]\<rparr>) []"
| approves: "may_approve r a roles t \<Longrightarrow> aq_quorum r \<le> int (length (aq_decisions r)) + 1 \<Longrightarrow>
     approval_move r (r\<lparr>aq_decisions := aq_decisions r @ [decision_of r a roles t],
       aq_state := A_Approved, aq_approvedAt := Some t\<rparr>) [''approvals.quorumMet'', ''approvals.approved'']"
| rejects: "aq_state r = A_Pending \<Longrightarrow> t \<le> aq_expiresAt r \<Longrightarrow>
     approval_move r (r\<lparr>aq_state := A_Rejected, aq_rejectedAt := Some t, aq_rejectedReason := Some why\<rparr>) [''approvals.rejected'']"
| expires: "aq_state r = A_Pending \<Longrightarrow> aq_expiresAt r < t \<Longrightarrow>
     approval_move r (r\<lparr>aq_state := A_Expired, aq_expiredAt := Some t\<rparr>) [''approvals.expired'']"
| cancels: "aq_state r = A_Pending \<Longrightarrow> t \<le> aq_expiresAt r \<Longrightarrow>
     approval_move r (r\<lparr>aq_state := A_Cancelled, aq_cancelledAt := Some t, aq_cancelledBy := Some (aq_requesterId r)\<rparr>)
       [''approvals.cancelled'']"
| applies: "aq_state r = A_Approved \<Longrightarrow>
     approval_move r (r\<lparr>aq_state := A_Applied, aq_appliedAt := Some t\<rparr>) [''approvals.applied'']"
| refuses: "approval_move r r [''approvals.decisionRefused'']"

lemma stateRefusalFor_None [simp]:
  "stateRefusalFor r now code = None \<longleftrightarrow> aq_state r = A_Pending \<and> now \<le> aq_expiresAt r"
  by (auto simp: stateRefusalFor_def)

abbreviation outcome_names :: "approval_outcome \<Rightarrow> string list" where
  "outcome_names out \<equiv> map ev_name (outcome_events out)"

lemma refuse_move [simp]: "approval_move r (outcome_request (refuse r op by code now)) (outcome_names (refuse r op by code now))"
  by (simp add: refuse_def approval_domainEvent_def refuses)

lemma submit_move:
  "submitApprovalRequest r clk = Inr out \<Longrightarrow> approval_move r (outcome_request out) (outcome_names out)"
  unfolding submitApprovalRequest_def Let_def
  by (auto simp: not_less intro!: approval_move.submits split: if_splits)

lemma approve_refuses:
  assumes "approve r a roles clk = Inr out" and "\<not> may_approve r a roles (clk 0)"
  shows "\<exists>code. out = refuse r Op_Approve (Some a) code (clk 0)"
  using assms unfolding approve_def Let_def
  by (auto simp: may_approve_def list_ex_iff result_simps split: if_splits option.splits)

lemma approve_move:
  assumes "approve r a roles clk = Inr out"
  shows "approval_move r (outcome_request out) (outcome_names out)"
proof (cases "may_approve r a roles (clk 0)")
  case True
  then show ?thesis using assms unfolding approve_def Let_def
    by (auto simp: may_approve_def approval_domainEvent_def decision_of_def[symmetric] list_ex_iff result_simps
        intro!: approval_move.records approval_move.approves split: if_splits option.splits)
next
  case False
  from approve_refuses[OF assms this] show ?thesis by auto
qed

lemma reject_move: "reject r by why clk = Inr out \<Longrightarrow> approval_move r (outcome_request out) (outcome_names out)"
  unfolding reject_def Let_def
  by (auto simp: approval_domainEvent_def result_simps intro!: approval_move.rejects split: if_splits option.splits)

lemma expire_move: "expireApprovalRequest r clk = Inr out \<Longrightarrow> approval_move r (outcome_request out) (outcome_names out)"
  unfolding expireApprovalRequest_def Let_def
  by (auto simp: approval_domainEvent_def intro!: approval_move.expires split: if_splits)

lemma transition_move: "transitionApproval r to a clk = Inr out \<Longrightarrow> approval_move r (outcome_request out) (outcome_names out)"
  unfolding transitionApproval_def Let_def
  by (auto simp: approval_domainEvent_def result_simps intro!: approval_move.cancels split: if_splits)

lemma apply_move: "markApplied r clk = Inr out \<Longrightarrow> approval_move r (outcome_request out) (outcome_names out)"
  unfolding markApplied_def Let_def
  by (auto simp: approval_domainEvent_def intro!: approval_move.applies split: if_splits option.splits)

lemma approval_run_move:
  "approval_run r c = Inr out \<Longrightarrow> approval_move r (outcome_request out) (outcome_names out)"
  by (cases c) (auto simp: cancelApprovalRequest_def
      intro: submit_move approve_move reject_move expire_move transition_move apply_move)

lemma approval_step_move: "approval_step r c = Inr r' \<Longrightarrow> \<exists>names. approval_move r r' names"
  by (auto simp: approval_step_def result_simps dest: approval_run_move)

section \<open>The invariant\<close>

text \<open>A decision that counts: another person than the maker, a required role, in time.\<close>

definition decision_ok :: "approval_request \<Rightarrow> approval_decision \<Rightarrow> bool" where
  "decision_ok r d \<longleftrightarrow> ad_approverId d \<noteq> aq_requesterId r \<and> ad_matchedRoles d \<noteq> [] \<and>
     set (ad_matchedRoles d) \<subseteq> set (aq_requiredApproverRoles r) \<and> ad_decidedAt d \<le> aq_expiresAt r"

fun panel_ok :: "approval_status \<Rightarrow> int \<Rightarrow> int \<Rightarrow> bool" where
  "panel_ok A_Drafted n quorum = (n = 0)"
| "panel_ok A_Approved n quorum = (n = quorum)"
| "panel_ok A_Applied n quorum = (n = quorum)"
| "panel_ok _ n quorum = (n < quorum)"

definition approval_ok :: "approval_request \<Rightarrow> bool" where
  "approval_ok r \<longleftrightarrow> 1 \<le> aq_quorum r \<and> distinct (map ad_approverId (aq_decisions r)) \<and>
     (\<forall>d \<in> set (aq_decisions r). decision_ok r d) \<and>
     panel_ok (aq_state r) (int (length (aq_decisions r))) (aq_quorum r) \<and>
     (aq_state r = A_Approved \<longrightarrow> aq_approvedAt r \<noteq> None)"

text \<open>What a request was opened with.\<close>

definition same_gate :: "approval_request \<Rightarrow> approval_request \<Rightarrow> bool" where
  "same_gate r r' \<longleftrightarrow> aq_requesterId r' = aq_requesterId r \<and> aq_quorum r' = aq_quorum r \<and>
     aq_requiredApproverRoles r' = aq_requiredApproverRoles r \<and> aq_expiresAt r' = aq_expiresAt r \<and>
     aq_payloadSnapshot r' = aq_payloadSnapshot r \<and> aq_operationType r' = aq_operationType r \<and>
     aq_subjectRefs r' = aq_subjectRefs r \<and> (\<exists>ds. aq_decisions r' = aq_decisions r @ ds)"

lemma matched_roles_set: "set (matched_roles r roles) = set (aq_requiredApproverRoles r) \<inter> set roles"
  by (auto simp: matched_roles_def)

lemma matched_roles_required: "set (matched_roles r roles) \<subseteq> set (aq_requiredApproverRoles r)"
  by (simp add: matched_roles_set)

lemma approval_move_ok: "approval_move r r' names \<Longrightarrow> approval_ok r \<Longrightarrow> approval_ok r'"
  by (induction rule: approval_move.induct)
    (auto simp: approval_ok_def may_approve_def decision_ok_def decision_of_def dest: matched_roles_required[THEN subsetD])

lemma approval_move_gate: "approval_move r r' names \<Longrightarrow> same_gate r r'"
  by (induction rule: approval_move.induct) (auto simp: same_gate_def)

lemma same_gate_trans: "same_gate r s \<Longrightarrow> same_gate s t \<Longrightarrow> same_gate r t"
  by (auto simp: same_gate_def)

interpretation approval_machine: guarded_machine approval_step "\<lambda>s. approval_ok s \<and> same_gate r s" "\<lambda>_. True" for r
  by unfold_locales (blast dest: approval_step_move intro: approval_move_ok approval_move_gate same_gate_trans)

definition approval_terminal :: "approval_request \<Rightarrow> bool" where
  "approval_terminal r \<longleftrightarrow> APPROVAL_TRANSITIONS (aq_state r) = []"

lemma approval_move_table:
  "approval_move r r' names \<Longrightarrow> r' = r \<or> (aq_state r = A_Pending \<and> aq_state r' = A_Pending) \<or>
     aq_state r' \<in> set (APPROVAL_TRANSITIONS (aq_state r))"
  by (induction rule: approval_move.induct) (auto simp: may_approve_def)

interpretation approval_final: absorbing_machine approval_step approval_terminal
proof
  fix s c s'
  assume "approval_terminal s" and "approval_step s c = Inr s'"
  then show "s' = s" using approval_step_move[of s c s'] approval_move_table[of s s']
    by (cases "aq_state s") (auto simp: approval_terminal_def)
qed

lemma assertApprovalPolicy_quorum: "assertApprovalPolicy p = Inr () \<Longrightarrow> 1 \<le> int_of_num (ap_quorum p)"
  by (cases "ap_quorum p") (auto simp: assertApprovalPolicy_def Let_def result_simps not_less le_floor_iff)

lemma openApprovalRequest_facts:
  assumes "openApprovalRequest args policy clk = Inr (r, e)"
  shows "approval_ok r \<and> (\<exists>t. new_date (add_days (clk 0) (int_of_num (ap_ttlDays policy))) = Some t \<and>
    r = drafted_request args policy (clk 0) t)"
proof -
  from assms have "assertApprovalPolicy policy = Inr () \<and>
      (\<exists>t. new_date (add_days (clk 0) (int_of_num (ap_ttlDays policy))) = Some t \<and> r = drafted_request args policy (clk 0) t)"
    by (auto simp: openApprovalRequest_def Let_def result_simps split: option.splits)
  with assertApprovalPolicy_quorum[of policy] show ?thesis
    by (auto simp: approval_ok_def drafted_request_def)
qed

section \<open>Where decisions come from\<close>

text \<open>The command is an approval by a checker who may decide, and leaves exactly their decision behind.\<close>

definition decides :: "approval_request \<Rightarrow> approval_command \<Rightarrow> approval_request \<Rightarrow> bool" where
  "decides r c r' \<longleftrightarrow> (\<exists>a roles clk. c = Approve a roles clk \<and> may_approve r a roles (clk 0) \<and>
     aq_decisions r' = aq_decisions r @ [decision_of r a roles (clk 0)])"

lemma approve_decides:
  assumes "approve r a roles clk = Inr out"
  shows "outcome_request out = r \<or> decides r (Approve a roles clk) (outcome_request out) \<and>
    (outcome_request out = r\<lparr>aq_decisions := aq_decisions r @ [decision_of r a roles (clk 0)]\<rparr> \<or>
     aq_state (outcome_request out) = A_Approved)"
proof (cases "may_approve r a roles (clk 0)")
  case True
  then have st: "stateRefusalFor r (clk 0) ''APPROVAL_NOT_PENDING'' = None" by (simp add: may_approve_def)
  from True have "outcome_request out = r\<lparr>aq_decisions := aq_decisions r @ [decision_of r a roles (clk 0)]\<rparr> \<or>
      outcome_request out = r\<lparr>aq_decisions := aq_decisions r @ [decision_of r a roles (clk 0)],
        aq_state := A_Approved, aq_approvedAt := Some (clk 0)\<rparr>" using assms unfolding approve_def Let_def
    by (auto simp: st may_approve_def decision_of_def[symmetric] list_ex_iff result_simps split: if_splits)
  with True show ?thesis unfolding decides_def by (elim disjE) simp_all
next
  case False
  from approve_refuses[OF assms this] show ?thesis by (auto simp: refuse_def)
qed

lemma other_commands_decide_nothing:
  assumes "approval_run r c = Inr out" and "\<And>a roles clk. c \<noteq> Approve a roles clk"
  shows "aq_decisions (outcome_request out) = aq_decisions r"
  using assms
  by (cases c) (auto simp: submitApprovalRequest_def reject_def expireApprovalRequest_def transitionApproval_def
      cancelApprovalRequest_def markApplied_def refuse_def Let_def result_simps split: if_splits option.splits)

lemma move_without_decision:
  "approval_move r r' names \<Longrightarrow> aq_decisions r' = aq_decisions r \<Longrightarrow>
     r' = r \<or> aq_state r' \<in> set (APPROVAL_TRANSITIONS (aq_state r))"
  by (induction rule: approval_move.induct) auto

lemma approval_step_decisions:
  assumes "approval_step r c = Inr r'"
  shows "aq_decisions r' = aq_decisions r \<or> decides r c r'"
proof -
  from assms obtain out where out: "approval_run r c = Inr out" "r' = outcome_request out"
    by (auto simp: approval_step_def result_simps)
  show ?thesis
  proof (cases "\<exists>a roles clk. c = Approve a roles clk")
    case True
    with out approve_decides show ?thesis by fastforce
  next
    case False
    with other_commands_decide_nothing[OF out(1)] show ?thesis by (auto simp: out(2))
  qed
qed

lemma approval_step_table:
  assumes "approval_step r c = Inr r'"
  shows "same_gate r r' \<and> (r' = r \<or>
    (\<exists>a roles clk. c = Approve a roles clk \<and> may_approve r a roles (clk 0) \<and> aq_state r' = A_Pending \<and>
       r' = r\<lparr>aq_decisions := aq_decisions r @ [decision_of r a roles (clk 0)]\<rparr>) \<or>
    (aq_state r' \<in> set (APPROVAL_TRANSITIONS (aq_state r)) \<and> (aq_decisions r' = aq_decisions r \<or> decides r c r')))"
proof -
  from assms obtain out where out: "approval_run r c = Inr out" "r' = outcome_request out"
    by (auto simp: approval_step_def result_simps)
  from approval_step_move[OF assms] obtain names where m: "approval_move r r' names" ..
  show ?thesis
  proof (cases "\<exists>a roles clk. c = Approve a roles clk")
    case True
    then obtain a roles clk where c: "c = Approve a roles clk" by blast
    with out have "approve r a roles clk = Inr out" by simp
    note d = approve_decides[OF this, folded out(2) c]
    have pending: "aq_state r = A_Pending" "may_approve r a roles (clk 0)" if "decides r c r'"
      using that by (auto simp: decides_def may_approve_def c)
    from d consider "r' = r" | "decides r c r'" "r' = r\<lparr>aq_decisions := aq_decisions r @ [decision_of r a roles (clk 0)]\<rparr>"
      | "decides r c r'" "aq_state r' = A_Approved" by blast
    then show ?thesis
    proof cases
      case 2
      then have "aq_state r' = A_Pending" using pending by simp
      with 2 pending approval_move_gate[OF m] c show ?thesis by blast
    next
      case 3
      then have "aq_state r' \<in> set (APPROVAL_TRANSITIONS (aq_state r))" using pending by simp
      with 3 approval_move_gate[OF m] show ?thesis by blast
    qed (use approval_move_gate[OF m] in blast)
  next
    case False
    with other_commands_decide_nothing[OF out(1)] have "aq_decisions r' = aq_decisions r" by (auto simp: out(2))
    with move_without_decision[OF m] approval_move_gate[OF m] show ?thesis by blast
  qed
qed

text \<open>A decision that a command of the history made, with the roles held that the request requires.\<close>

definition decision_from :: "approval_command list \<Rightarrow> string list \<Rightarrow> approval_decision \<Rightarrow> bool" where
  "decision_from cmds required d \<longleftrightarrow> (\<exists>roles clk. Approve (ad_approverId d) roles clk \<in> set cmds \<and>
     set (ad_matchedRoles d) = set required \<inter> set roles \<and> ad_decidedAt d = clk 0)"

lemma decision_from_Cons: "decision_from cs required d \<Longrightarrow> decision_from (c # cs) required d"
  by (auto simp: decision_from_def)

lemma decision_from_of:
  "decision_from (Approve a roles clk # cs) (aq_requiredApproverRoles r) (decision_of r a roles (clk 0))"
  unfolding decision_from_def decision_of_def
  by (intro exI[of _ roles] exI[of _ clk]) (simp add: matched_roles_set)

lemma decides_from:
  "decides r c r' \<Longrightarrow> d \<in> set (aq_decisions r') \<Longrightarrow>
     d \<in> set (aq_decisions r) \<or> decision_from (c # cs) (aq_requiredApproverRoles r) d"
  unfolding decides_def by (auto simp: decision_from_of)

lemma approval_decisions_from:
  "d \<in> set (aq_decisions (drive approval_step r cmds)) \<Longrightarrow>
     d \<in> set (aq_decisions r) \<or> decision_from cmds (aq_requiredApproverRoles r) d"
proof (induction cmds arbitrary: r)
  case (Cons c cs)
  show ?case
  proof (cases "approval_step r c")
    case (Inl e)
    with Cons show ?thesis by (auto intro: decision_from_Cons)
  next
    case (Inr r')
    with approval_step_move approval_move_gate have "same_gate r r'" by blast
    then have roles: "aq_requiredApproverRoles r' = aq_requiredApproverRoles r" by (simp add: same_gate_def)
    from Inr Cons.prems have "d \<in> set (aq_decisions (drive approval_step r' cs))" by simp
    from Cons.IH[OF this] approval_step_decisions[OF Inr] decides_from[of r c r' d cs] show ?thesis
      unfolding roles by (auto intro: decision_from_Cons)
  qed
qed simp

section \<open>Announcing and reaching the quorum\<close>

fun approval_trace :: "approval_request \<Rightarrow> approval_command list \<Rightarrow> string list" where
  "approval_trace r [] = []"
| "approval_trace r (c # cs) = (case approval_run r c of Inl _ \<Rightarrow> approval_trace r cs
     | Inr out \<Rightarrow> outcome_names out @ approval_trace (outcome_request out) cs)"

definition passed :: "approval_request \<Rightarrow> bool" where
  "passed r \<longleftrightarrow> aq_state r \<in> {A_Approved, A_Applied}"

lemma approval_move_announces:
  "approval_move r r' names \<Longrightarrow> name \<in> {''approvals.quorumMet'', ''approvals.approved''} \<Longrightarrow>
     count_list names name + of_bool (passed r) = of_bool (passed r')"
  by (induction rule: approval_move.induct) (auto simp: passed_def may_approve_def)

lemma approval_trace_announces:
  assumes "name \<in> {''approvals.quorumMet'', ''approvals.approved''}"
  shows "count_list (approval_trace r cmds) name + of_bool (passed r) = of_bool (passed (drive approval_step r cmds))"
proof (induction cmds arbitrary: r)
  case (Cons c cmds)
  show ?case
  proof (cases "approval_run r c")
    case (Inr out)
    from approval_move_announces[OF approval_run_move[OF Inr] assms] Cons.IH[of "outcome_request out"] Inr show ?thesis
      by (simp add: approval_step_def)
  qed (use Cons.IH in \<open>simp add: approval_step_def\<close>)
qed simp

text \<open>A checker who answers well-formed, in time and with a role the request asks for.\<close>

fun eligible :: "approval_request \<Rightarrow> string \<times> string list \<times> clock \<Rightarrow> bool" where
  "eligible r (approverId, roleIds, clk) \<longleftrightarrow> isNonBlank approverId \<and> list_all isNonBlank roleIds \<and>
     clk 0 \<le> aq_expiresAt r \<and> approverId \<noteq> aq_requesterId r \<and> matched_roles r roleIds \<noteq> []"

fun approve_by :: "string \<times> string list \<times> clock \<Rightarrow> approval_command" where
  "approve_by (approverId, roleIds, clk) = Approve approverId roleIds clk"

lemma approve_step:
  assumes "aq_state r = A_Pending" and "eligible r x" and "fst x \<notin> ad_approverId ` set (aq_decisions r)"
  shows "\<exists>r' d. approval_step r (approve_by x) = Inr r' \<and> ad_approverId d = fst x \<and> aq_decisions r' = aq_decisions r @ [d] \<and>
    aq_state r' = (if int (length (aq_decisions r)) + 1 < aq_quorum r then A_Pending else A_Approved) \<and> same_gate r r'"
proof -
  obtain a roles clk where x: "x = (a, roles, clk)" by (cases x)
  have st: "stateRefusalFor r (clk 0) ''APPROVAL_NOT_PENDING'' = None" using assms x by simp
  have ex: "list_ex (\<lambda>d. ad_approverId d = a) (aq_decisions r) = False" "list_ex (\<lambda>role. \<not> isNonBlank role) roles = False"
    using assms x by (auto simp: list_ex_iff list_all_iff)
  show ?thesis using assms(1,2) unfolding x
    by (auto simp: approval_step_def approve_def Let_def st ex same_gate_def)
qed

lemma approvers_reach_quorum:
  assumes "aq_state r = A_Pending" and "xs \<noteq> []" and "\<forall>x \<in> set xs. eligible r x"
    and "distinct (map ad_approverId (aq_decisions r) @ map fst xs)"
    and "int (length (aq_decisions r)) + int (length xs) = aq_quorum r"
  shows "aq_state (drive approval_step r (map approve_by xs)) = A_Approved"
  using assms
proof (induction xs arbitrary: r)
  case (Cons x xs)
  from Cons.prems(3,4) have "eligible r x" "fst x \<notin> ad_approverId ` set (aq_decisions r)" by auto
  from approve_step[OF Cons.prems(1) this] obtain r' d where r': "approval_step r (approve_by x) = Inr r'"
    "ad_approverId d = fst x" "aq_decisions r' = aq_decisions r @ [d]" "same_gate r r'"
    "aq_state r' = (if int (length (aq_decisions r)) + 1 < aq_quorum r then A_Pending else A_Approved)" by blast
  show ?case
  proof (cases "xs = []")
    case True
    with r' Cons.prems(5) show ?thesis by simp
  next
    case False
    have "eligible r' y" if "eligible r y" for y
      using that r'(4) by (cases y) (auto simp: same_gate_def matched_roles_def)
    moreover from False Cons.prems(5) have "int (length (aq_decisions r)) + 1 < aq_quorum r" by (cases xs) auto
    ultimately have "aq_state (drive approval_step r' (map approve_by xs)) = A_Approved"
      using False r' Cons.prems by (intro Cons.IH) (auto simp: same_gate_def)
    with r'(1) show ?thesis by simp
  qed
qed simp

lemma submitted_quorum_approves:
  assumes "approval_ok r" and "aq_state r = A_Drafted" and "sclk 0 \<le> aq_expiresAt r"
    and "\<forall>x \<in> set xs. eligible r x" and "distinct (map fst xs)" and "int (length xs) = aq_quorum r"
  shows "aq_state (drive approval_step r (Submit sclk # map approve_by xs)) = A_Approved"
proof -
  have st: "aq_decisions r = []" using assms(1,2) by (simp add: approval_ok_def)
  let ?p = "r\<lparr>aq_state := A_Pending, aq_submittedAt := Some (sclk 0)\<rparr>"
  have "approval_step r (Submit sclk) = Inr ?p"
    using assms(2,3) by (simp add: approval_step_def submitApprovalRequest_def Let_def not_less)
  moreover have "eligible ?p x" if "eligible r x" for x using that by (cases x) (simp add: matched_roles_def)
  then have "aq_state (drive approval_step ?p (map approve_by xs)) = A_Approved"
    using assms st by (intro approvers_reach_quorum) (auto simp: approval_ok_def)
  ultimately show ?thesis by simp
qed

section \<open>Properties of approval requests\<close>

definition sample_gate :: approval_policy where
  "sample_gate = sample_policy ''b'' ''refund'' (Given \<lparr>th_amountMinor = Fin 1000, th_currency = KES\<rparr>)"

definition sample_open_args :: open_approval_args where
  "sample_open_args = \<lparr>oa_approvalRequestId = ''q'', oa_orgId = ''org'', oa_operationType = ''refund'', oa_subjectRefs = [''r''],
     oa_payloadSnapshot = \<lparr>sn_amountMinor = Some (Fin 2500), sn_currency = Some KES, sn_summary = ''refund''\<rparr>,
     oa_requesterId = ''maker''\<rparr>"

abbreviation sample_draft :: approval_request where
  "sample_draft \<equiv> drafted_request sample_open_args sample_gate 0 604800000"

lemma sample_open_guards:
  "isNonBlank (oa_approvalRequestId sample_open_args)" "isNonBlank (oa_orgId sample_open_args)"
  "assertApprovalPolicy sample_gate = Inr ()" "ap_orgId sample_gate = oa_orgId sample_open_args"
  "oa_operationType sample_open_args \<in> set OPERATION_TYPES" "oa_operationType sample_open_args = ap_operationType sample_gate"
  "oa_subjectRefs sample_open_args = [''r'']" "isNonBlank ''r''" "validateSnapshot (oa_payloadSnapshot sample_open_args) = Inr ()"
  "sn_amountMinor (oa_payloadSnapshot sample_open_args) \<noteq> None" "isNonBlank (oa_requesterId sample_open_args)"
  by code_simp+

lemma sample_request_open: "\<exists>e. openApprovalRequest sample_open_args sample_gate (\<lambda>_. 0) = Inr (sample_draft, e)"
proof -
  have "new_date (add_days 0 7) = Some 604800000"
    using add_days_exact[of 0 7] new_date_of_int[of 604800000] by (simp add: valid_time_def max_time_def ms_per_day_def)
  moreover have "int_of_num (ap_ttlDays sample_gate) = 7" by (simp add: sample_gate_def sample_policy_def)
  ultimately show ?thesis
    using sample_open_guards unfolding openApprovalRequest_def by (simp add: Let_def)
qed

definition sample_panel :: "(string \<times> string list \<times> clock) list" where
  "sample_panel = [(''ann'', [''manager''], \<lambda>_. 1), (''ben'', [''finance''], \<lambda>_. 2)]"

lemma sample_panel_eligible: "\<forall>x \<in> set sample_panel. eligible sample_draft x"
proof -
  have "isNonBlank ''ann''" "isNonBlank ''ben''" "isNonBlank ''manager''" "isNonBlank ''finance''" by code_simp+
  then show ?thesis
    by (simp add: sample_panel_def drafted_request_def matched_roles_def sample_open_args_def sample_gate_def sample_policy_def)
qed

lemma sample_draft_ok: "approval_ok sample_draft"
  using sample_request_open openApprovalRequest_facts by blast

lemma sample_draft_facts:
  "aq_state sample_draft = A_Drafted" "0 \<le> aq_expiresAt sample_draft" "distinct (map fst sample_panel)"
  "int (length sample_panel) = aq_quorum sample_draft"
  by (simp_all add: drafted_request_def sample_panel_def sample_gate_def sample_policy_def)

text \<open>
  C6. Maker-checker (SPEC 36): whatever commands reach a request, in any order and by whomever,
  it counts as approved or applied only with exactly as many approvals as its policy demands, by
  distinct people, none of them the maker, each deciding before the request expired. Each of them
  comes from an approve command of that person in the history, decided at its time, and records
  exactly the required roles among those the command presented, at least one. What was to be
  approved never changes.
\<close>

theorem approval_needs_quorum:
  assumes "openApprovalRequest args policy clk = Inr (r0, e)"
    and "r = drive approval_step r0 cmds" and "aq_state r \<in> {A_Approved, A_Applied}"
  shows "int (length (aq_decisions r)) = int_of_num (ap_quorum policy) \<and>
    distinct (map ad_approverId (aq_decisions r)) \<and>
    (\<forall>d \<in> set (aq_decisions r). ad_approverId d \<noteq> oa_requesterId args \<and> ad_matchedRoles d \<noteq> [] \<and>
       set (ad_matchedRoles d) \<subseteq> set (ap_requiredApproverRoles policy) \<and> ad_decidedAt d \<le> aq_expiresAt r0 \<and>
       (\<exists>roleIds aclk. Approve (ad_approverId d) roleIds aclk \<in> set cmds \<and> ad_decidedAt d = aclk 0 \<and>
          set (ad_matchedRoles d) = set (ap_requiredApproverRoles policy) \<inter> set roleIds)) \<and>
    aq_payloadSnapshot r = oa_payloadSnapshot args \<and> aq_subjectRefs r = oa_subjectRefs args"
proof -
  from openApprovalRequest_facts[OF assms(1)] obtain t where
    r0: "approval_ok r0" "r0 = drafted_request args policy (clk 0) t" by blast
  have "approval_ok r \<and> same_gate r0 r"
    unfolding assms(2) using r0(1) by (intro approval_machine.drive_inv) (simp_all add: same_gate_def)
  moreover have "panel_ok (aq_state r) n q \<Longrightarrow> n = q" for n q using assms(3) by auto
  ultimately have "int (length (aq_decisions r)) = aq_quorum r" "approval_ok r" "same_gate r0 r"
    unfolding approval_ok_def by blast+
  moreover have "decision_from cmds (ap_requiredApproverRoles policy) d" if "d \<in> set (aq_decisions r)" for d
    using approval_decisions_from[of d r0 cmds] that by (simp add: assms(2)[symmetric]) (simp add: r0(2) drafted_request_def)
  ultimately show ?thesis
    unfolding decision_from_def by (simp add: approval_ok_def decision_ok_def same_gate_def r0(2) drafted_request_def) blast
qed

theorem approval_needs_quorum_witness:
  "\<exists>r. r = drive approval_step sample_draft (Submit (\<lambda>_. 0) # map approve_by sample_panel) \<and>
    aq_state r \<in> {A_Approved, A_Applied} \<and> int (length (aq_decisions r)) = int_of_num (ap_quorum sample_gate)"
proof -
  define r where "r = drive approval_step sample_draft (Submit (\<lambda>_. 0) # map approve_by sample_panel)"
  obtain e where e: "openApprovalRequest sample_open_args sample_gate (\<lambda>_. 0) = Inr (sample_draft, e)" using sample_request_open ..
  have "aq_state r = A_Approved" unfolding r_def
    by (rule submitted_quorum_approves[OF sample_draft_ok]) (simp_all add: sample_panel_eligible sample_draft_facts)
  with approval_needs_quorum[OF e r_def] have "aq_state r \<in> {A_Approved, A_Applied} \<and>
      int (length (aq_decisions r)) = int_of_num (ap_quorum sample_gate)" by simp
  with r_def show ?thesis by blast
qed

text \<open>
  C37. The operations implement the transition table: an accepted command changes nothing, or is
  an approval that leaves the request pending with exactly the decision of an eligible checker
  appended, or moves it along an edge of \<open>APPROVAL_TRANSITIONS\<close>, where decisions stay as they
  are unless the command is such an approval. No command changes the maker, the quorum, the
  required roles, the expiry or what is to be approved, and from a state without edges nothing
  ever changes again.
\<close>

theorem approval_refines_table:
  "(\<forall>r'. approval_step r c = Inr r' \<longrightarrow> same_gate r r' \<and>
      (r' = r \<or>
       (\<exists>a roles clk. c = Approve a roles clk \<and> may_approve r a roles (clk 0) \<and> aq_state r' = A_Pending \<and>
          r' = r\<lparr>aq_decisions := aq_decisions r @ [decision_of r a roles (clk 0)]\<rparr>) \<or>
       (aq_state r' \<in> set (APPROVAL_TRANSITIONS (aq_state r)) \<and> (aq_decisions r' = aq_decisions r \<or> decides r c r')))) \<and>
   (APPROVAL_TRANSITIONS (aq_state r) = [] \<longrightarrow> drive approval_step r cmds = r)"
  using approval_step_table approval_final.drive_terminal
  by (auto simp: approval_terminal_def)

theorem approval_refines_table_witness:
  "APPROVAL_TRANSITIONS (aq_state (sample_draft\<lparr>aq_state := A_Rejected\<rparr>)) = [] \<and>
   drive approval_step (sample_draft\<lparr>aq_state := A_Rejected\<rparr>) [Cancel (\<lambda>_. 0)] = sample_draft\<lparr>aq_state := A_Rejected\<rparr>"
  using approval_refines_table[of "sample_draft\<lparr>aq_state := A_Rejected\<rparr>" _ "[Cancel (\<lambda>_. 0)]"]
  by (simp del: drive.simps)

text \<open>
  The quorum is announced once: over the whole life of a request the events
  \<open>approvals.quorumMet\<close> and \<open>approvals.approved\<close> are emitted exactly once each if it is approved
  or applied at the end, and never otherwise.
\<close>

theorem approval_announced_once:
  assumes "openApprovalRequest args policy clk = Inr (r, e)"
    and "name = ''approvals.quorumMet'' \<or> name = ''approvals.approved''"
  shows "count_list (approval_trace r cmds) name =
    (if aq_state (drive approval_step r cmds) \<in> {A_Approved, A_Applied} then 1 else 0)"
proof -
  have "\<not> passed r" using openApprovalRequest_facts[OF assms(1)] by (auto simp: passed_def drafted_request_def)
  with approval_trace_announces[of name r cmds] assms(2) show ?thesis by (auto simp: passed_def)
qed

theorem approval_announced_once_witness:
  "count_list (approval_trace sample_draft (Submit (\<lambda>_. 0) # map approve_by sample_panel)) ''approvals.approved'' = 1"
proof -
  obtain e where e: "openApprovalRequest sample_open_args sample_gate (\<lambda>_. 0) = Inr (sample_draft, e)" using sample_request_open ..
  have "aq_state (drive approval_step sample_draft (Submit (\<lambda>_. 0) # map approve_by sample_panel)) = A_Approved"
    by (rule submitted_quorum_approves[OF sample_draft_ok]) (simp_all add: sample_panel_eligible sample_draft_facts)
  then have "aq_state (drive approval_step sample_draft (Submit (\<lambda>_. 0) # map approve_by sample_panel))
      \<in> {A_Approved, A_Applied}" by (simp only: insertI1)
  with approval_announced_once[OF e, of "''approvals.approved''" "Submit (\<lambda>_. 0) # map approve_by sample_panel"]
  show ?thesis by (simp only: if_True simp_thms)
qed

text \<open>
  C38. The gate can always be passed: a request submitted in time is approved as soon as as many
  distinct eligible checkers as its quorum have approved it.
\<close>

theorem quorum_approves:
  assumes "openApprovalRequest args policy clk = Inr (r, e)" and "sclk 0 \<le> aq_expiresAt r"
    and "\<forall>x \<in> set xs. eligible r x" and "distinct (map fst xs)" and "int (length xs) = int_of_num (ap_quorum policy)"
  shows "aq_state (drive approval_step r (Submit sclk # map approve_by xs)) = A_Approved"
proof -
  from openApprovalRequest_facts[OF assms(1)] obtain t where
    "approval_ok r" "r = drafted_request args policy (clk 0) t" by blast
  with assms(2-5) show ?thesis by (intro submitted_quorum_approves) (simp_all add: drafted_request_def)
qed

theorem quorum_approves_witness:
  "aq_state (drive approval_step sample_draft (Submit (\<lambda>_. 0) # map approve_by sample_panel)) = A_Approved"
  using sample_request_open quorum_approves[of sample_open_args sample_gate "\<lambda>_. 0" sample_draft _ "\<lambda>_. 0" sample_panel]
    sample_panel_eligible by (auto simp: sample_panel_def drafted_request_def sample_gate_def sample_policy_def)

section \<open>Where the lane departs from its contract\<close>

text \<open>
  A policy whose time to live leaves the range of \<open>Date\<close> is valid, but opening a request against
  it raises a bare \<open>RangeError\<close> and none of the documented codes.
\<close>

lemma long_ttl_raises:
  "let policy = sample_gate\<lparr>ap_ttlDays := Fin 100000001\<rparr> in assertApprovalPolicy policy = Inr () \<and>
     openApprovalRequest sample_open_args policy (\<lambda>_. 0) = Inl RangeError"
proof -
  let ?policy = "sample_gate\<lparr>ap_ttlDays := Fin 100000001\<rparr>"
  have ok: "assertApprovalPolicy ?policy = Inr ()" by code_simp
  have big: "\<bar>8640000086400000::int\<bar> \<le> 2 ^ 53" by simp
  have "add_days 0 100000001 = of_int 8640000086400000"
    using fl_int[OF big] unfolding add_days_def by (simp add: ms_per_day_def)
  then have "new_date (add_days 0 100000001) = None" by (simp add: new_date_def max_time_def)
  with ok sample_open_guards show ?thesis unfolding openApprovalRequest_def by (simp add: Let_def)
qed

text \<open>Opening reads the clock twice: the creation stamp and the event may differ.\<close>

lemma open_reads_clock_twice:
  "\<exists>r e. openApprovalRequest sample_open_args sample_gate (\<lambda>i. if i = 0 then 0 else 1) = Inr (r, e) \<and>
     aq_createdAt r = 0 \<and> ev_occurredAt e = toISOString 1"
proof -
  have "new_date (add_days 0 7) = Some 604800000"
    using add_days_exact[of 0 7] new_date_of_int[of 604800000] by (simp add: valid_time_def max_time_def ms_per_day_def)
  moreover have "int_of_num (ap_ttlDays sample_gate) = 7" by (simp add: sample_gate_def sample_policy_def)
  ultimately show ?thesis
    using sample_open_guards unfolding openApprovalRequest_def
    by (simp add: Let_def drafted_request_def approval_domainEvent_def)
qed

end
