(* ===== verification/Outbox.thy ===== *)
theory Outbox
  imports Formats Js_Number Contracts
begin

text \<open>
  The unified event contract (\<open>src/src/domain/events\<close>): the catalog of event names
  (\<open>catalog.ts\<close>), the envelope and its validation (\<open>envelope.ts\<close>), the guard rail for producers
  (\<open>defineEvent.ts\<close>) and the in-memory outbox with one checkpoint per consumer (\<open>outbox.ts\<close>).
\<close>

section \<open>The catalog\<close>

definition EVENT_NAMES :: "string list" where
  "EVENT_NAMES = [
     ''invoicing.invoiceNumberAllocated'', ''invoicing.invoiceIssued'', ''invoicing.invoiceSent'', ''invoicing.invoiceVoided'',
     ''receivable.opened'', ''receivable.partiallySettled'', ''receivable.settled'', ''receivable.overdue'',
     ''receivable.writtenOff'', ''receivable.recovered'',
     ''payment.initiated'', ''payment.confirmed'', ''payment.failed'', ''payment.reversed'', ''payments.duplicateCallbackObserved'',
     ''reconciliation.paymentMatched'', ''reconciliation.paymentPartiallyMatched'', ''reconciliation.matchReversed'',
     ''adjustment.creditNoteIssued'', ''adjustment.creditNoteApplied'', ''adjustment.refundRequested'',
     ''adjustment.refundCompleted'', ''adjustment.creditBalanceApplied'',
     ''allocation.executed'', ''allocation.reversed'', ''collections.caseOpened'', ''collections.promiseBroken'']"

text \<open>\<open>EVENT_VERSIONS[name]\<close>: 1 for every catalog name.\<close>

definition EVENT_VERSIONS :: "string \<Rightarrow> js_num option" where
  "EVENT_VERSIONS = map_of (map (\<lambda>n. (n, Fin 1)) EVENT_NAMES)"

definition isEventName :: "string \<Rightarrow> bool" where
  "isEventName s \<longleftrightarrow> s \<in> set EVENT_NAMES"

section \<open>The envelope\<close>

text \<open>
  A value that reaches the payload check at run time, as a tree: \<open>JInstance\<close> is an object with a
  prototype other than \<open>Object.prototype\<close> (a \<open>Date\<close>, a \<open>Money\<close>). A cyclic object is not a tree.
\<close>

datatype js_value =
    JString string | JBool bool | JNumber js_num | JBigint int | JFunction | JSymbol | JUndefined | JNull
  | JArray "js_value list" | JObject "(string \<times> js_value) list" | JInstance string

datatype occurred_at = DateValue date | IsoText string

record envelope =
  en_eventId :: uuid
  en_name :: string
  en_version :: js_num
  en_occurredAt :: occurred_at
  en_aggregateId :: uuid
  en_correlationId :: "uuid option"
  en_payload :: js_value

record envelope_options =
  eo_eventId :: uuid
  eo_aggregateId :: uuid
  eo_correlationId :: "uuid option"
  eo_occurredAt :: occurred_at

definition is_lower :: "char \<Rightarrow> bool" where
  "is_lower c \<longleftrightarrow> (let n = (of_char c :: nat) in 97 \<le> n \<and> n \<le> 122)"

definition is_name_char :: "char \<Rightarrow> bool" where
  "is_name_char c \<longleftrightarrow> is_lower c \<or> is_digit c \<or> (let n = (of_char c :: nat) in 65 \<le> n \<and> n \<le> 90)"

text \<open>\<open>/^[a-z][a-zA-Z0-9]*\.[a-z][a-zA-Z0-9]+$/\<close>, split at the first dot.\<close>

definition EVENT_NAME_PATTERN :: "string \<Rightarrow> bool" where
  "EVENT_NAME_PATTERN s \<longleftrightarrow>
     (case takeWhile (\<lambda>c. c \<noteq> CHR ''.'') s of [] \<Rightarrow> False | c # cs \<Rightarrow> is_lower c \<and> list_all is_name_char cs) \<and>
     (case dropWhile (\<lambda>c. c \<noteq> CHR ''.'') s of d # c # cs \<Rightarrow> is_lower c \<and> cs \<noteq> [] \<and> list_all is_name_char cs | _ \<Rightarrow> False)"

definition assertUuid :: "uuid \<Rightarrow> uuid result" where
  "assertUuid value = (if \<not> UUID_PATTERN value then throw ''EVENT_ID_INVALID'' else Inr value)"

fun normalizeOccurredAt :: "occurred_at \<Rightarrow> string result" where
  "normalizeOccurredAt (DateValue d) = Inr (toISOString d)"
| "normalizeOccurredAt (IsoText s) = (if ISO_PATTERN s \<and> valid_date s then Inr s else throw ''EVENT_OCCURRED_AT_INVALID'')"

definition notSerializable :: "unit result" where
  "notSerializable = throw ''EVENT_PAYLOAD_NOT_SERIALIZABLE''"

definition MAX_PAYLOAD_DEPTH :: nat where
  "MAX_PAYLOAD_DEPTH = 24"

lemma traverse_cong [fundef_cong]:
  "xs = ys \<Longrightarrow> (\<And>x. x \<in> set ys \<Longrightarrow> f x = g x) \<Longrightarrow> traverse f xs = traverse g ys"
proof (induction ys arbitrary: xs)
  case (Cons y ys)
  then show ?case by (simp cong: and_then_cong)
qed simp

fun assertMemberSerializable :: "nat \<Rightarrow> js_value \<Rightarrow> unit result" where
  "assertMemberSerializable depth v =
     (if depth > MAX_PAYLOAD_DEPTH then notSerializable
      else case v of
        JString _ \<Rightarrow> Inr () | JBool _ \<Rightarrow> Inr ()
      | JNumber x \<Rightarrow> if \<not> is_finite_num x then notSerializable else Inr ()
      | JBigint _ \<Rightarrow> notSerializable
      | JFunction \<Rightarrow> notSerializable | JSymbol \<Rightarrow> notSerializable | JUndefined \<Rightarrow> notSerializable
      | JNull \<Rightarrow> Inr ()
      | JArray vs \<Rightarrow> and_then (traverse (assertMemberSerializable (depth + 1)) vs) (\<lambda>_. Inr ())
      | JObject ms \<Rightarrow> and_then (traverse (\<lambda>m. assertMemberSerializable (depth + 1) (snd m)) ms) (\<lambda>_. Inr ())
      | JInstance _ \<Rightarrow> notSerializable)"

declare assertMemberSerializable.simps [simp del]

definition assertSerializablePayload :: "js_value \<Rightarrow> unit result" where
  "assertSerializablePayload payload =
     (case payload of JUndefined \<Rightarrow> throw ''EVENT_PAYLOAD_REQUIRED'' | JNull \<Rightarrow> throw ''EVENT_PAYLOAD_REQUIRED''
      | JObject ms \<Rightarrow> assertMemberSerializable 0 payload
      | JInstance k \<Rightarrow> assertMemberSerializable 0 payload
      | _ \<Rightarrow> notSerializable)"

definition assertEventName :: "string \<Rightarrow> unit result" where
  "assertEventName name =
     (if \<not> EVENT_NAME_PATTERN name then throw ''EVENT_NAME_MALFORMED''
      else if \<not> isEventName name then throw ''EVENT_UNKNOWN'' else Inr ())"

definition validateEnvelope :: "envelope \<Rightarrow> unit result" where
  "validateEnvelope ev =
     and_then (assertEventName (en_name ev)) (\<lambda>_.
       if Some (en_version ev) \<noteq> EVENT_VERSIONS (en_name ev) then throw ''EVENT_VERSION_UNSUPPORTED''
       else and_then (assertUuid (en_eventId ev)) (\<lambda>_.
         and_then (assertUuid (en_aggregateId ev)) (\<lambda>_.
         and_then (case en_correlationId ev of None \<Rightarrow> Inr [] | Some i \<Rightarrow> assertUuid i) (\<lambda>_.
           case en_occurredAt ev of DateValue _ \<Rightarrow> throw ''EVENT_OCCURRED_AT_INVALID''
           | IsoText s \<Rightarrow> and_then (normalizeOccurredAt (IsoText s)) (\<lambda>_. assertSerializablePayload (en_payload ev))))))"

definition makeEnvelope :: "string \<Rightarrow> envelope_options \<Rightarrow> js_value \<Rightarrow> envelope result" where
  "makeEnvelope name options payload =
     and_then (assertEventName name) (\<lambda>_.
     and_then (assertSerializablePayload payload) (\<lambda>_.
     and_then (assertUuid (eo_eventId options)) (\<lambda>eventId.
     and_then (normalizeOccurredAt (eo_occurredAt options)) (\<lambda>occurredAt.
     and_then (assertUuid (eo_aggregateId options)) (\<lambda>aggregateId.
     and_then (case eo_correlationId options of None \<Rightarrow> Inr None
       | Some i \<Rightarrow> and_then (assertUuid i) (\<lambda>c. Inr (Some c))) (\<lambda>correlationId.
       Inr \<lparr>en_eventId = eventId, en_name = name, en_version = the (EVENT_VERSIONS name), en_occurredAt = IsoText occurredAt,
         en_aggregateId = aggregateId, en_correlationId = correlationId, en_payload = payload\<rparr>))))))"

definition defineEvent :: "string \<Rightarrow> js_num \<Rightarrow> (string \<times> js_num) result" where
  "defineEvent name version =
     and_then (assertEventName name) (\<lambda>_.
       if \<not> is_safe_integer version \<or> Some version \<noteq> EVENT_VERSIONS name then throw ''EVENT_VERSION_UNSUPPORTED''
       else Inr (name, version))"

section \<open>The outbox\<close>

record outbox =
  ob_events :: "envelope list"
  ob_eventIds :: "string set"
  ob_cursors :: "string \<rightharpoonup> int"

abbreviation empty_outbox :: outbox where
  "empty_outbox \<equiv> \<lparr>ob_events = [], ob_eventIds = {}, ob_cursors = Map.empty\<rparr>"

record drain_result =
  dr_events :: "envelope list"
  dr_nextCursor :: int

definition assertConsumer :: "string \<Rightarrow> unit result" where
  "assertConsumer consumer = (if consumer = [] then throw ''OUTBOX_CONSUMER_INVALID'' else Inr ())"

definition outbox_size :: "outbox \<Rightarrow> int" where
  "outbox_size ob = int (length (ob_events ob))"

definition outbox_append :: "outbox \<Rightarrow> envelope \<Rightarrow> outbox result" where
  "outbox_append ob ev =
     and_then (validateEnvelope ev) (\<lambda>_.
       if en_eventId ev \<in> ob_eventIds ob then throw ''OUTBOX_DUPLICATE''
       else Inr (ob\<lparr>ob_eventIds := insert (en_eventId ev) (ob_eventIds ob), ob_events := ob_events ob @ [ev]\<rparr>))"

definition stored_cursor :: "outbox \<Rightarrow> string \<Rightarrow> int" where
  "stored_cursor ob consumer = (case ob_cursors ob consumer of None \<Rightarrow> - 1 | Some c \<Rightarrow> c)"

definition cursorOf :: "outbox \<Rightarrow> string \<Rightarrow> int result" where
  "cursorOf ob consumer = and_then (assertConsumer consumer) (\<lambda>_. Inr (stored_cursor ob consumer))"

definition assertValidCursor :: "outbox \<Rightarrow> js_num \<Rightarrow> int result" where
  "assertValidCursor ob cursor =
     (if \<not> is_safe_integer cursor \<or> js_less cursor (- 1) \<or> int_of_num cursor \<ge> outbox_size ob
      then throw ''OUTBOX_CURSOR_INVALID'' else Inr (int_of_num cursor))"

definition drain :: "outbox \<Rightarrow> string \<Rightarrow> js_num option \<Rightarrow> (outbox \<times> drain_result) result" where
  "drain ob consumer cursor =
     and_then (assertConsumer consumer) (\<lambda>_.
       let stored = stored_cursor ob consumer in
       and_then (case cursor of None \<Rightarrow> Inr stored | Some c \<Rightarrow> assertValidCursor ob c) (\<lambda>start.
         let batch = drop (nat (start + 1)) (ob_events ob);
             nextCursor = (if batch \<noteq> [] then outbox_size ob - 1 else start) in
         Inr (if nextCursor > stored then ob\<lparr>ob_cursors := (ob_cursors ob)(consumer \<mapsto> nextCursor)\<rparr> else ob,
              \<lparr>dr_events = batch, dr_nextCursor = nextCursor\<rparr>)))"

definition replay :: "outbox \<Rightarrow> envelope list" where
  "replay ob = ob_events ob"

section \<open>Producers and consumers\<close>

datatype outbox_command = Append envelope | Drain string "js_num option"

fun outbox_run :: "outbox \<Rightarrow> outbox_command \<Rightarrow> (outbox \<times> envelope list) result" where
  "outbox_run ob (Append ev) = and_then (outbox_append ob ev) (\<lambda>ob'. Inr (ob', []))"
| "outbox_run ob (Drain consumer cursor) = and_then (drain ob consumer cursor) (\<lambda>(ob', r). Inr (ob', dr_events r))"

definition outbox_step :: "outbox \<Rightarrow> outbox_command \<Rightarrow> outbox result" where
  "outbox_step ob c = and_then (outbox_run ob c) (\<lambda>(ob', _). Inr ob')"

text \<open>The events handed to a consumer over a sequence of commands, in order.\<close>

fun delivered :: "string \<Rightarrow> outbox \<Rightarrow> outbox_command list \<Rightarrow> envelope list" where
  "delivered w ob [] = []"
| "delivered w ob (c # cs) = (case outbox_run ob c of Inl _ \<Rightarrow> delivered w ob cs
     | Inr (ob', batch) \<Rightarrow> (case c of Drain v _ \<Rightarrow> if v = w then batch else [] | Append _ \<Rightarrow> []) @ delivered w ob' cs)"

section \<open>The invariant\<close>

definition outbox_ok :: "outbox \<Rightarrow> bool" where
  "outbox_ok ob \<longleftrightarrow> ob_eventIds ob = en_eventId ` set (ob_events ob) \<and> distinct (map en_eventId (ob_events ob)) \<and>
     list_all (\<lambda>e. validateEnvelope e = Inr ()) (ob_events ob) \<and>
     (\<forall>w. - 1 \<le> stored_cursor ob w \<and> stored_cursor ob w < outbox_size ob)"

lemma empty_outbox_ok: "outbox_ok empty_outbox"
  by (simp add: outbox_ok_def stored_cursor_def outbox_size_def)

lemma outbox_append_Inr:
  "outbox_append ob ev = Inr ob' \<longleftrightarrow> validateEnvelope ev = Inr () \<and> en_eventId ev \<notin> ob_eventIds ob \<and>
     ob' = ob\<lparr>ob_eventIds := insert (en_eventId ev) (ob_eventIds ob), ob_events := ob_events ob @ [ev]\<rparr>"
  by (auto simp: outbox_append_def result_simps)

definition drain_from :: "outbox \<Rightarrow> string \<Rightarrow> js_num option \<Rightarrow> int" where
  "drain_from ob w cursor = (case cursor of None \<Rightarrow> stored_cursor ob w | Some c \<Rightarrow> int_of_num c)"

lemma drain_Inr:
  assumes ok: "outbox_ok ob" and run: "drain ob w cursor = Inr (ob', r)"
  defines "start \<equiv> drain_from ob w cursor"
  shows "- 1 \<le> start \<and> start < outbox_size ob \<and> ob_events ob' = ob_events ob \<and> ob_eventIds ob' = ob_eventIds ob \<and>
    dr_events r = drop (nat (start + 1)) (ob_events ob) \<and>
    stored_cursor ob' w = max (stored_cursor ob w) (if start < outbox_size ob - 1 then outbox_size ob - 1 else start) \<and>
    (\<forall>v. v \<noteq> w \<longrightarrow> stored_cursor ob' v = stored_cursor ob v)"
proof -
  have st: "- 1 \<le> stored_cursor ob w" "stored_cursor ob w < outbox_size ob" using ok by (simp_all add: outbox_ok_def)
  have cur: "(case cursor of None \<Rightarrow> Inr (stored_cursor ob w) | Some c \<Rightarrow> assertValidCursor ob c) = Inr start"
    using run by (auto simp: drain_def result_simps start_def drain_from_def assertValidCursor_def Let_def split: option.splits if_splits)
  have bounds: "- 1 \<le> start" "start < outbox_size ob"
  proof -
    have "- 1 \<le> start \<and> start < outbox_size ob"
    proof (cases cursor)
      case None
      then show ?thesis using st by (simp add: start_def drain_from_def)
    next
      case (Some c)
      with cur have "is_safe_integer c" "\<not> js_less c (- 1)" "int_of_num c < outbox_size ob" "start = int_of_num c"
        by (auto simp: assertValidCursor_def split: if_splits)
      then show ?thesis by (cases c) (auto simp: le_floor_iff)
    qed
    then show "- 1 \<le> start" "start < outbox_size ob" by simp_all
  qed
  have batch: "drop (nat (start + 1)) (ob_events ob) \<noteq> [] \<longleftrightarrow> start < outbox_size ob - 1"
    using bounds by (auto simp: outbox_size_def)
  have c: "assertConsumer w = Inr ()" using run by (auto simp: drain_def result_simps)
  define k where "k = (if start < outbox_size ob - 1 then outbox_size ob - 1 else start)"
  have "drain ob w cursor = Inr (if k > stored_cursor ob w then ob\<lparr>ob_cursors := (ob_cursors ob)(w \<mapsto> k)\<rparr> else ob,
      \<lparr>dr_events = drop (nat (start + 1)) (ob_events ob), dr_nextCursor = k\<rparr>)"
    unfolding drain_def by (simp only: c cur and_then.simps Let_def batch k_def)
  with run have "ob' = (if k > stored_cursor ob w then ob\<lparr>ob_cursors := (ob_cursors ob)(w \<mapsto> k)\<rparr> else ob)"
    "dr_events r = drop (nat (start + 1)) (ob_events ob)" by auto
  then show ?thesis using bounds unfolding k_def[symmetric] by (simp add: stored_cursor_def)
qed

lemma outbox_step_ok:
  assumes ok: "outbox_ok ob" and "outbox_step ob c = Inr ob'"
  shows "outbox_ok ob'"
proof (cases c)
  case (Append ev)
  with assms(2) have "outbox_append ob ev = Inr ob'" by (auto simp: outbox_step_def result_simps)
  then have ev: "validateEnvelope ev = Inr ()" "en_eventId ev \<notin> ob_eventIds ob"
    "ob' = ob\<lparr>ob_eventIds := insert (en_eventId ev) (ob_eventIds ob), ob_events := ob_events ob @ [ev]\<rparr>"
    by (simp_all add: outbox_append_Inr)
  have "stored_cursor ob w < outbox_size ob" "- 1 \<le> stored_cursor ob w" for w using ok by (auto simp: outbox_ok_def)
  moreover have "outbox_size ob' = outbox_size ob + 1" "stored_cursor ob' w = stored_cursor ob w" for w
    by (simp_all add: ev outbox_size_def stored_cursor_def)
  ultimately have "\<forall>w. - 1 \<le> stored_cursor ob' w \<and> stored_cursor ob' w < outbox_size ob'" by (simp add: order_less_imp_le)
  then show ?thesis using ok ev unfolding outbox_ok_def by simp
next
  case (Drain w cursor)
  with assms(2) obtain r where "drain ob w cursor = Inr (ob', r)" by (auto simp: outbox_step_def result_simps)
  note d = drain_Inr[OF ok this]
  have "- 1 \<le> stored_cursor ob' v \<and> stored_cursor ob' v < outbox_size ob'" for v
  proof -
    have "- 1 \<le> stored_cursor ob v" "stored_cursor ob v < outbox_size ob" "- 1 \<le> stored_cursor ob w" "stored_cursor ob w < outbox_size ob"
      using ok by (simp_all add: outbox_ok_def)
    then show ?thesis using d by (cases "v = w") (auto simp: outbox_size_def)
  qed
  then show ?thesis using ok d by (simp add: outbox_ok_def)
qed

interpretation outbox_machine: guarded_machine outbox_step outbox_ok "\<lambda>_. True"
  by unfold_locales (rule outbox_step_ok)

lemma outbox_step_extends:
  assumes "outbox_ok ob" and "outbox_step ob c = Inr ob'"
  shows "\<exists>more. ob_events ob' = ob_events ob @ more"
proof (cases c)
  case (Append ev)
  with assms(2) show ?thesis by (auto simp: outbox_step_def result_simps outbox_append_Inr)
next
  case (Drain w cursor)
  with assms(2) obtain r where "drain ob w cursor = Inr (ob', r)" by (auto simp: outbox_step_def result_simps)
  from drain_Inr[OF assms(1) this] show ?thesis by simp
qed

lemma outbox_drive_extends:
  "outbox_ok ob \<Longrightarrow> \<exists>more. ob_events (drive outbox_step ob cs) = ob_events ob @ more"
proof (induction cs arbitrary: ob)
  case (Cons c cs)
  show ?case
  proof (cases "outbox_step ob c")
    case (Inr ob')
    from outbox_step_extends[OF Cons.prems Inr] Cons.IH[OF outbox_step_ok[OF Cons.prems Inr]] Inr show ?thesis by fastforce
  qed (use Cons in simp)
qed simp

text \<open>
  The outbox is an append-only log without duplicates: whatever is appended or drained, valid
  or not, every stored event passed the envelope check, no event id occurs twice, and a replay
  always starts with the events of every earlier replay, in the same order.
\<close>

theorem outbox_append_only:
  "distinct (map en_eventId (replay (drive outbox_step empty_outbox cmds))) \<and>
   list_all (\<lambda>e. validateEnvelope e = Inr ()) (replay (drive outbox_step empty_outbox cmds)) \<and>
   (\<exists>more. replay (drive outbox_step (drive outbox_step empty_outbox cmds) more_cmds) =
      replay (drive outbox_step empty_outbox cmds) @ more)"
proof -
  have "outbox_ok (drive outbox_step empty_outbox cmds)" by (rule outbox_machine.drive_inv[OF empty_outbox_ok]) simp
  then show ?thesis using outbox_drive_extends by (simp add: outbox_ok_def replay_def)
qed

section \<open>Delivery\<close>

text \<open>The consumer never asks for events past its own checkpoint.\<close>

fun not_ahead :: "string \<Rightarrow> outbox \<Rightarrow> outbox_command list \<Rightarrow> bool" where
  "not_ahead w ob [] = True"
| "not_ahead w ob (c # cs) = ((case c of Drain v (Some k) \<Rightarrow> v = w \<longrightarrow> int_of_num k \<le> stored_cursor ob w | _ \<Rightarrow> True) \<and>
     not_ahead w (case outbox_step ob c of Inl _ \<Rightarrow> ob | Inr ob' \<Rightarrow> ob') cs)"

lemma not_ahead_without_cursor: "\<forall>k. Drain w (Some k) \<notin> set cs \<Longrightarrow> not_ahead w ob cs"
  by (induction cs arbitrary: ob) (auto split: outbox_command.splits option.splits)

definition seen :: "outbox \<Rightarrow> string \<Rightarrow> envelope list" where
  "seen ob w = take (nat (stored_cursor ob w + 1)) (ob_events ob)"

lemma outbox_run_delivers:
  assumes ok: "outbox_ok ob" and run: "outbox_run ob c = Inr (ob', batch)" and na: "not_ahead w ob [c]"
  defines "got \<equiv> (case c of Drain v _ \<Rightarrow> if v = w then batch else [] | Append _ \<Rightarrow> [])"
  shows "set (seen ob w) \<union> set got = set (seen ob' w) \<and>
    ((\<forall>k. c \<noteq> Drain w (Some k)) \<longrightarrow> seen ob w @ got = seen ob' w)"
proof -
  have st: "- 1 \<le> stored_cursor ob w" "stored_cursor ob w < outbox_size ob" using ok by (simp_all add: outbox_ok_def)
  show ?thesis
  proof (cases c)
    case (Append ev)
    with run have "ob' = ob\<lparr>ob_eventIds := insert (en_eventId ev) (ob_eventIds ob), ob_events := ob_events ob @ [ev]\<rparr>"
      by (auto simp: result_simps outbox_append_Inr)
    then have "seen ob' w = seen ob w" using st by (auto simp: seen_def stored_cursor_def outbox_size_def)
    then show ?thesis by (simp add: got_def Append)
  next
    case (Drain v cursor)
    with run obtain r where r: "drain ob v cursor = Inr (ob', r)" "batch = dr_events r" by (auto simp: result_simps)
    note d = drain_Inr[OF ok r(1)]
    show ?thesis
    proof (cases "v = w")
      case False
      then show ?thesis using d by (auto simp: got_def Drain seen_def)
    next
      case True
      define k where "k = drain_from ob w cursor"
      have le: "k \<le> stored_cursor ob w" using na True Drain by (auto simp: k_def drain_from_def split: option.splits)
      have all: "seen ob' w = ob_events ob"
        using d True le st by (auto simp: seen_def k_def outbox_size_def max_def split: if_splits)
      have got: "got = drop (nat (k + 1)) (ob_events ob)" using d r(2) True by (simp add: got_def Drain k_def)
      have "set (take (nat (k + 1)) (ob_events ob)) \<subseteq> set (seen ob w)"
        unfolding seen_def using le by (intro set_take_subset_set_take) simp
      moreover have "set (seen ob w) \<subseteq> set (ob_events ob)" by (simp add: seen_def set_take_subset)
      moreover have "set (take (nat (k + 1)) (ob_events ob)) \<union> set got = set (ob_events ob)"
        unfolding got by (metis append_take_drop_id set_append)
      ultimately have "set (seen ob w) \<union> set got = set (seen ob' w)" unfolding all by blast
      moreover have "seen ob w @ got = seen ob' w" if "cursor = None"
        using that got unfolding all by (simp add: seen_def k_def drain_from_def)
      ultimately show ?thesis using Drain True by (cases cursor) auto
    qed
  qed
qed

lemma delivered_seen:
  "outbox_ok ob \<Longrightarrow> not_ahead w ob cs \<Longrightarrow>
     set (seen ob w) \<union> set (delivered w ob cs) = set (seen (drive outbox_step ob cs) w) \<and>
     ((\<forall>k. Drain w (Some k) \<notin> set cs) \<longrightarrow> seen ob w @ delivered w ob cs = seen (drive outbox_step ob cs) w)"
proof (induction cs arbitrary: ob)
  case (Cons c cs)
  show ?case
  proof (cases "outbox_run ob c")
    case (Inl e)
    then show ?thesis using Cons by (simp add: outbox_step_def)
  next
    case (Inr r)
    obtain ob' batch where r: "r = (ob', batch)" by (cases r)
    then have step: "outbox_step ob c = Inr ob'" using Inr by (simp add: outbox_step_def)
    have na: "not_ahead w ob [c]" "not_ahead w ob' cs" using Cons.prems(2) step by simp_all
    note one = outbox_run_delivers[OF Cons.prems(1) Inr[unfolded r] na(1)]
    note rest = Cons.IH[OF outbox_step_ok[OF Cons.prems(1) step] na(2)]
    define got where "got = (case c of Drain v _ \<Rightarrow> if v = w then batch else [] | Append _ \<Rightarrow> [])"
    have d: "delivered w ob (c # cs) = got @ delivered w ob' cs" using Inr r by (simp add: got_def)
    have "drive outbox_step ob (c # cs) = drive outbox_step ob' cs" using step by simp
    then show ?thesis using one rest unfolding d got_def[symmetric] by (auto simp flip: append_assoc)
  qed
qed simp

text \<open>
  Without that restriction a consumer that passes an explicit cursor past its checkpoint skips
  the events in between, and the checkpoint moves over them: only its own cursors make it miss
  an event.
\<close>

lemma nth_in_drop: "n \<le> i \<Longrightarrow> i < length xs \<Longrightarrow> xs ! i \<in> set (drop n xs)"
  by (auto simp: in_set_conv_nth intro!: exI[of _ "i - n"])

lemma outbox_run_covers:
  fixes w :: string
  assumes ok: "outbox_ok ob" and run: "outbox_run ob c = Inr (ob', batch)"
  defines "got \<equiv> (case c of Drain v _ \<Rightarrow> if v = w then batch else [] | Append _ \<Rightarrow> [])"
  shows "set got \<subseteq> set (seen ob' w) \<and> set (seen ob w) \<subseteq> set (seen ob' w) \<and>
    (\<forall>i. int i \<le> stored_cursor ob' w \<longrightarrow> int i \<le> stored_cursor ob w \<or> ob_events ob' ! i \<in> set got \<or>
       (\<exists>k. c = Drain w (Some k) \<and> int i \<le> int_of_num k))"
proof -
  have st: "- 1 \<le> stored_cursor ob w" "stored_cursor ob w < outbox_size ob" using ok by (simp_all add: outbox_ok_def)
  show ?thesis
  proof (cases c)
    case (Append ev)
    with run have "ob' = ob\<lparr>ob_eventIds := insert (en_eventId ev) (ob_eventIds ob), ob_events := ob_events ob @ [ev]\<rparr>"
      by (auto simp: result_simps outbox_append_Inr)
    then have "seen ob' w = seen ob w" "stored_cursor ob' w = stored_cursor ob w"
      using st by (auto simp: seen_def stored_cursor_def outbox_size_def)
    then show ?thesis by (simp add: got_def Append)
  next
    case (Drain v cursor)
    with run obtain r where r: "drain ob v cursor = Inr (ob', r)" "batch = dr_events r" by (auto simp: result_simps)
    note d = drain_Inr[OF ok r(1)]
    show ?thesis
    proof (cases "v = w")
      case False
      then show ?thesis using d by (auto simp: got_def Drain seen_def)
    next
      case True
      define k where "k = drain_from ob w cursor"
      have ev: "ob_events ob' = ob_events ob" "- 1 \<le> k" "k < outbox_size ob" using d True by (simp_all add: k_def)
      have cur: "stored_cursor ob' w = max (stored_cursor ob w) (if k < outbox_size ob - 1 then outbox_size ob - 1 else k)"
        using d True by (simp add: k_def)
      have all: "seen ob' w = ob_events ob" using cur ev st by (auto simp: seen_def outbox_size_def max_def split: if_splits)
      have got: "got = drop (nat (k + 1)) (ob_events ob)" using d r(2) True by (simp add: got_def Drain k_def)
      have "ob_events ob' ! i \<in> set got" if "k < int i" "int i \<le> stored_cursor ob' w" for i
        unfolding got ev(1) using that cur ev(2,3) st
        by (intro nth_in_drop) (auto simp: outbox_size_def max_def split: if_splits)
      moreover have "int i \<le> stored_cursor ob w \<or> (\<exists>j. c = Drain w (Some j) \<and> int i \<le> int_of_num j)" if "int i \<le> k" for i
        using that True Drain by (cases cursor) (auto simp: k_def drain_from_def)
      moreover have "set got \<subseteq> set (seen ob' w)" unfolding all got by (rule set_drop_subset)
      moreover have "set (seen ob w) \<subseteq> set (seen ob' w)" unfolding all by (simp add: seen_def set_take_subset)
      ultimately show ?thesis by (meson not_le)
    qed
  qed
qed

lemma delivered_covers:
  "outbox_ok ob \<Longrightarrow>
     set (delivered w ob cs) \<subseteq> set (seen (drive outbox_step ob cs) w) \<and>
     set (seen ob w) \<subseteq> set (seen (drive outbox_step ob cs) w) \<and>
     (\<forall>i. int i \<le> stored_cursor (drive outbox_step ob cs) w \<longrightarrow> int i \<le> stored_cursor ob w \<or>
        ob_events (drive outbox_step ob cs) ! i \<in> set (delivered w ob cs) \<or>
        (\<exists>k. Drain w (Some k) \<in> set cs \<and> int i \<le> int_of_num k))"
proof (induction cs arbitrary: ob)
  case (Cons c cs)
  show ?case
  proof (cases "outbox_run ob c")
    case (Inl e)
    then have "delivered w ob (c # cs) = delivered w ob cs" "drive outbox_step ob (c # cs) = drive outbox_step ob cs"
      by (simp_all add: outbox_step_def)
    with Cons.IH[OF Cons.prems] show ?thesis by (metis list.set_intros(2))
  next
    case (Inr r)
    obtain ob' batch where r: "r = (ob', batch)" by (cases r)
    then have step: "outbox_step ob c = Inr ob'" using Inr by (simp add: outbox_step_def)
    have ok': "outbox_ok ob'" by (rule outbox_step_ok[OF Cons.prems step])
    define got where "got = (case c of Drain v _ \<Rightarrow> if v = w then batch else [] | Append _ \<Rightarrow> [])"
    note one = outbox_run_covers[OF Cons.prems Inr[unfolded r], of w, folded got_def]
    note rest = Cons.IH[OF ok']
    have d: "delivered w ob (c # cs) = got @ delivered w ob' cs" using Inr r by (simp add: got_def)
    have run: "drive outbox_step ob (c # cs) = drive outbox_step ob' cs" using step by simp
    obtain more where "ob_events (drive outbox_step ob' cs) = ob_events ob' @ more" using outbox_drive_extends[OF ok'] by blast
    moreover have "stored_cursor ob' w < int (length (ob_events ob'))" using ok' by (simp add: outbox_ok_def outbox_size_def)
    ultimately have same: "ob_events (drive outbox_step ob' cs) ! i = ob_events ob' ! i" if "int i \<le> stored_cursor ob' w" for i
      using that by (simp add: nth_append)
    have "int i \<le> stored_cursor ob w \<or> ob_events (drive outbox_step ob' cs) ! i \<in> set (got @ delivered w ob' cs) \<or>
        (\<exists>k. Drain w (Some k) \<in> set (c # cs) \<and> int i \<le> int_of_num k)"
      if "int i \<le> stored_cursor (drive outbox_step ob' cs) w" for i
      using that one rest same[of i] by (metis Un_iff list.set_intros set_append)
    then show ?thesis using one rest unfolding d run by auto
  qed
qed simp

text \<open>
  C32. Delivery, over any interleaving of appends and drains of any number of consumers: a consumer
  is handed only events up to its checkpoint, and every event up to it except at positions that an
  explicit cursor it passed itself declared as already delivered. When none of its explicit cursors
  is ahead of its checkpoint at that moment, the events handed over are exactly those up to the
  checkpoint; when it passes no explicit cursor at all, it gets each of them once and in append
  order. Its next drain without a cursor hands over exactly the rest of the log.
\<close>

theorem outbox_delivery:
  assumes "ob = drive outbox_step empty_outbox cmds" and "w \<noteq> []"
  shows "set (delivered w empty_outbox cmds) \<subseteq> set (take (nat (stored_cursor ob w + 1)) (replay ob)) \<and>
    (\<forall>i. int i \<le> stored_cursor ob w \<longrightarrow> replay ob ! i \<in> set (delivered w empty_outbox cmds) \<or>
       (\<exists>k. Drain w (Some k) \<in> set cmds \<and> int i \<le> int_of_num k)) \<and>
    (not_ahead w empty_outbox cmds \<longrightarrow>
       set (delivered w empty_outbox cmds) = set (take (nat (stored_cursor ob w + 1)) (replay ob))) \<and>
    ((\<forall>k. Drain w (Some k) \<notin> set cmds) \<longrightarrow> delivered w empty_outbox cmds = take (nat (stored_cursor ob w + 1)) (replay ob)) \<and>
    (\<exists>ob' r. drain ob w None = Inr (ob', r) \<and> take (nat (stored_cursor ob w + 1)) (replay ob) @ dr_events r = replay ob)"
proof -
  have ok: "outbox_ok ob" unfolding assms(1) by (rule outbox_machine.drive_inv[OF empty_outbox_ok]) simp
  have start: "seen empty_outbox w = []" "\<not> int i \<le> stored_cursor empty_outbox w" for i
    by (simp_all add: seen_def stored_cursor_def)
  from delivered_covers[OF empty_outbox_ok, of w cmds] have
    "set (delivered w empty_outbox cmds) \<subseteq> set (seen ob w)"
    "\<forall>i. int i \<le> stored_cursor ob w \<longrightarrow> ob_events ob ! i \<in> set (delivered w empty_outbox cmds) \<or>
       (\<exists>k. Drain w (Some k) \<in> set cmds \<and> int i \<le> int_of_num k)" by (simp_all add: assms(1) start)
  moreover have "set (delivered w empty_outbox cmds) = set (seen ob w)" if "not_ahead w empty_outbox cmds"
    using delivered_seen[OF empty_outbox_ok that] by (simp add: assms(1) start)
  moreover have "delivered w empty_outbox cmds = seen ob w" if "\<forall>k. Drain w (Some k) \<notin> set cmds"
    using delivered_seen[OF empty_outbox_ok not_ahead_without_cursor[OF that]] that by (simp add: assms(1) start)
  moreover obtain ob' r where r: "drain ob w None = Inr (ob', r)"
    using assms(2) by (auto simp: drain_def assertConsumer_def Let_def)
  moreover have "take (nat (stored_cursor ob w + 1)) (replay ob) @ dr_events r = replay ob"
    using drain_Inr[OF ok r] by (simp add: drain_from_def replay_def)
  ultimately show ?thesis by (auto simp: seen_def replay_def)
qed

section \<open>Envelopes built by the lane reach the outbox\<close>

lemma pad_num_2:
  assumes "0 \<le> n" and "n < 100"
  obtains a b where "pad_num 2 n = [a, b]" and "is_digit a" and "is_digit b" and "nat_of_digits [a, b] = nat n"
proof -
  have "length (pad_num 2 n) = 2 \<and> list_all is_digit (pad_num 2 n) \<and> nat_of_digits (pad_num 2 n) = nat n"
    using assms by (intro pad_num_digits) simp_all
  then show thesis using that by (auto simp: length_Suc_conv numeral_2_eq_2)
qed

lemma days_in_month_max:
  assumes "0 \<le> m" and "m \<le> 11"
  shows "days_in_month y m \<le> 31"
proof -
  have "nat m < length (month_lengths y)" using assms by (simp add: month_lengths_facts nat_less_iff)
  then have "days_in_month y m \<in> set (month_lengths y)" by (simp add: days_in_month_def)
  then show ?thesis by (auto simp: month_lengths_def split: if_splits)
qed

lemma toISOString_valid:
  assumes "0 \<le> getUTCFullYear t" and "getUTCFullYear t \<le> 9999"
  shows "ISO_PATTERN (toISOString t) \<and> valid_date (toISOString t)"
proof -
  define y m d r where "y = getUTCFullYear t" and "m = getUTCMonth t" and "d = getUTCDate t" and "r = time_in_day t"
  have md: "0 \<le> m" "m \<le> 11" "1 \<le> d" "d \<le> 31"
    using getUTC_bounds[of t] days_in_month_max[of m y] by (simp_all add: y_def m_def d_def)
  have r: "0 \<le> r" "r < 86400000" using time_in_day_bounds[of t] by (simp_all add: r_def ms_per_day_def)
  have "length (pad_num 4 y) = 4 \<and> list_all is_digit (pad_num 4 y)"
    using pad_num_digits[of 4 y] assms by (simp add: y_def)
  then obtain y1 y2 y3 y4 where Y: "pad_num 4 y = [y1, y2, y3, y4]" "is_digit y1" "is_digit y2" "is_digit y3" "is_digit y4"
    by (auto simp: length_Suc_conv numeral_eq_Suc)
  obtain m1 m2 where M: "pad_num 2 (m + 1) = [m1, m2]" "is_digit m1" "is_digit m2" "nat_of_digits [m1, m2] = nat (m + 1)"
    using md by (auto intro: pad_num_2[of "m + 1"])
  obtain d1 d2 where D: "pad_num 2 d = [d1, d2]" "is_digit d1" "is_digit d2" "nat_of_digits [d1, d2] = nat d"
    using md by (auto intro: pad_num_2[of d])
  obtain h1 h2 where H: "pad_num 2 (r div 3600000) = [h1, h2]" "is_digit h1" "is_digit h2" "nat_of_digits [h1, h2] = nat (r div 3600000)"
    using r by (auto intro: pad_num_2[of "r div 3600000"])
  obtain n1 n2 where N: "pad_num 2 (r div 60000 mod 60) = [n1, n2]" "is_digit n1" "is_digit n2"
      "nat_of_digits [n1, n2] = nat (r div 60000 mod 60)"
    by (rule pad_num_2[of "r div 60000 mod 60"]) simp_all
  obtain s1 s2 where S: "pad_num 2 (r div 1000 mod 60) = [s1, s2]" "is_digit s1" "is_digit s2"
      "nat_of_digits [s1, s2] = nat (r div 1000 mod 60)"
    by (rule pad_num_2[of "r div 1000 mod 60"]) simp_all
  have "length (pad_num 3 (r mod 1000)) = 3 \<and> list_all is_digit (pad_num 3 (r mod 1000))"
    using pad_num_digits[of 3 "r mod 1000"] by simp
  then obtain u1 u2 u3 where U: "pad_num 3 (r mod 1000) = [u1, u2, u3]" "is_digit u1" "is_digit u2" "is_digit u3"
    by (auto simp: length_Suc_conv numeral_eq_Suc)
  have "civil_of_day (day_of t) = (y, m, d)" by (simp add: y_def m_def d_def getUTCFullYear_def getUTCMonth_def getUTCDate_def)
  then have iso: "toISOString t = [y1, y2, y3, y4, CHR ''-'', m1, m2, CHR ''-'', d1, d2, CHR ''T'', h1, h2, CHR '':'', n1, n2,
      CHR '':'', s1, s2, CHR ''.'', u1, u2, u3, CHR ''Z'']"
    using assms by (simp add: toISOString_def r_def[symmetric] iso_year_def y_def[symmetric] Y(1) M(1) D(1) H(1) N(1) S(1) U(1) Let_def)
  have "r div 3600000 \<le> 23" using r by simp
  moreover have "r div 60000 mod 60 \<le> 59" using pos_mod_bound[of 60 "r div 60000"] by linarith
  moreover have "r div 1000 mod 60 \<le> 59" using pos_mod_bound[of 60 "r div 1000"] by linarith
  ultimately have "clock_fields (nat (r div 3600000)) (nat (r div 60000 mod 60)) (nat (r div 1000 mod 60))"
    by (simp add: clock_fields_def nat_le_iff)
  moreover have "1 \<le> nat (m + 1)" "nat (m + 1) \<le> 12" "1 \<le> nat d" "nat d \<le> 31" using md by linarith+
  moreover have "field (toISOString t) 5 = nat (m + 1)" "field (toISOString t) 8 = nat d"
    "field (toISOString t) 11 = nat (r div 3600000)" "field (toISOString t) 14 = nat (r div 60000 mod 60)"
    "field (toISOString t) 17 = nat (r div 1000 mod 60)" "last (toISOString t) = CHR ''Z''"
    unfolding iso field_def M(4)[symmetric] D(4)[symmetric] H(4)[symmetric] N(4)[symmetric] S(4)[symmetric] by simp_all
  ultimately have "valid_date (toISOString t)" unfolding valid_date_def by (simp only:) simp
  moreover have "ISO_PATTERN (toISOString t)"
    using Y(2-) M(2,3) D(2,3) H(2,3) N(2,3) S(2,3) U(2-)
    by (simp add: ISO_PATTERN_def iso fits_def iso_head_def iso_tail_def iso_zone_def dash_def colon_def numeral_eq_Suc)
  ultimately show ?thesis by blast
qed

fun four_digit_year :: "occurred_at \<Rightarrow> bool" where
  "four_digit_year (DateValue t) = (0 \<le> getUTCFullYear t \<and> getUTCFullYear t \<le> 9999)"
| "four_digit_year (IsoText _) = True"

lemma map_of_const: "map_of (map (\<lambda>n. (n, c)) xs) x = (if x \<in> set xs then Some c else None)"
  by (induction xs) auto

lemma EVENT_VERSIONS_Some: "EVENT_VERSIONS name = (if isEventName name then Some (Fin 1) else None)"
  by (simp add: EVENT_VERSIONS_def isEventName_def map_of_const)

lemma makeEnvelope_valid:
  assumes "makeEnvelope name options payload = Inr ev" and "four_digit_year (eo_occurredAt options)"
  shows "validateEnvelope ev = Inr () \<and> en_eventId ev = eo_eventId options"
proof -
  from assms(1) obtain iso where ev: "en_name ev = name" "en_version ev = the (EVENT_VERSIONS name)" "en_eventId ev = eo_eventId options"
      "en_aggregateId ev = eo_aggregateId options" "en_correlationId ev = eo_correlationId options" "en_payload ev = payload"
      "en_occurredAt ev = IsoText iso"
    and iso: "normalizeOccurredAt (eo_occurredAt options) = Inr iso"
    and ok: "assertEventName name = Inr ()" "assertSerializablePayload payload = Inr ()" "UUID_PATTERN (eo_eventId options)"
      "UUID_PATTERN (eo_aggregateId options)" "\<forall>i. eo_correlationId options = Some i \<longrightarrow> UUID_PATTERN i"
    by (auto simp: makeEnvelope_def result_simps assertUuid_def split: option.splits)
  have "ISO_PATTERN iso \<and> valid_date iso"
    using iso assms(2) toISOString_valid by (cases "eo_occurredAt options") (auto split: if_splits)
  moreover have "isEventName name" using ok(1) by (auto simp: assertEventName_def split: if_splits)
  ultimately show ?thesis using ok
    by (auto simp: validateEnvelope_def ev EVENT_VERSIONS_Some assertUuid_def split: option.splits)
qed

text \<open>
  C33. What makeEnvelope builds, the outbox takes: an envelope constructed at an instant in the years
  0 to 9999 (or from an ISO-8601 text) passes the gatekeeper of every outbox that does not hold
  its event id yet, and is then the last event of the replay.
\<close>

theorem makeEnvelope_reaches_outbox:
  assumes "makeEnvelope name options payload = Inr ev" and "four_digit_year (eo_occurredAt options)"
    and "ob = drive outbox_step empty_outbox cmds" and "eo_eventId options \<notin> en_eventId ` set (replay ob)"
  shows "\<exists>ob'. outbox_append ob ev = Inr ob' \<and> replay ob' = replay ob @ [ev]"
proof -
  have "outbox_ok ob" unfolding assms(3) by (rule outbox_machine.drive_inv[OF empty_outbox_ok]) simp
  then show ?thesis using makeEnvelope_valid[OF assms(1,2)] assms(4)
    by (simp add: outbox_append_Inr outbox_ok_def replay_def)
qed

definition sample_options :: "date \<Rightarrow> envelope_options" where
  "sample_options t = \<lparr>eo_eventId = ''00000000-0000-0000-0000-000000000001'', eo_aggregateId = ''00000000-0000-0000-0000-000000000002'',
     eo_correlationId = None, eo_occurredAt = DateValue t\<rparr>"

lemma sample_envelope: "\<exists>ev. makeEnvelope ''payment.confirmed'' (sample_options t) (JObject [(''amountMinor'', JNumber (Fin 5))]) = Inr ev \<and>
    en_occurredAt ev = IsoText (toISOString t)"
proof -
  have "assertEventName ''payment.confirmed'' = Inr ()" by code_simp
  moreover have "UUID_PATTERN ''00000000-0000-0000-0000-000000000001''" "UUID_PATTERN ''00000000-0000-0000-0000-000000000002''" by code_simp+
  ultimately show ?thesis
    by (simp add: makeEnvelope_def sample_options_def assertSerializablePayload_def assertMemberSerializable.simps
        MAX_PAYLOAD_DEPTH_def assertUuid_def)
qed

theorem makeEnvelope_reaches_outbox_witness:
  "\<exists>ev ob'. makeEnvelope ''payment.confirmed'' (sample_options 0) (JObject [(''amountMinor'', JNumber (Fin 5))]) = Inr ev \<and>
     outbox_append empty_outbox ev = Inr ob' \<and> replay ob' = [ev]"
proof -
  obtain ev where ev: "makeEnvelope ''payment.confirmed'' (sample_options 0) (JObject [(''amountMinor'', JNumber (Fin 5))]) = Inr ev"
    using sample_envelope by blast
  have "four_digit_year (eo_occurredAt (sample_options 0))" by code_simp
  from makeEnvelope_reaches_outbox[OF ev this, of empty_outbox "[]"] ev show ?thesis by (auto simp: replay_def)
qed

theorem outbox_delivery_witness:
  "\<exists>ev. makeEnvelope ''payment.confirmed'' (sample_options 0) (JObject [(''amountMinor'', JNumber (Fin 5))]) = Inr ev \<and>
     delivered ''w'' empty_outbox [Append ev, Drain ''w'' None] = [ev]"
proof -
  obtain ev where ev: "makeEnvelope ''payment.confirmed'' (sample_options 0) (JObject [(''amountMinor'', JNumber (Fin 5))]) = Inr ev"
    using sample_envelope by blast
  have "four_digit_year (eo_occurredAt (sample_options 0))" by code_simp
  from makeEnvelope_valid[OF ev this] have valid: "validateEnvelope ev = Inr ()" ..
  define ob1 ob2 where "ob1 = \<lparr>ob_events = [ev], ob_eventIds = {en_eventId ev}, ob_cursors = Map.empty\<rparr>"
    and "ob2 = ob1\<lparr>ob_cursors := [''w'' \<mapsto> 0]\<rparr>"
  have s1: "outbox_step empty_outbox (Append ev) = Inr ob1" using valid by (simp add: outbox_step_def outbox_append_def ob1_def)
  have s2: "outbox_step ob1 (Drain ''w'' None) = Inr ob2"
    by (simp add: outbox_step_def drain_def assertConsumer_def stored_cursor_def outbox_size_def ob1_def ob2_def)
  have ob: "drive outbox_step empty_outbox [Append ev, Drain ''w'' None] = ob2" using s1 s2 by simp
  have "stored_cursor ob2 ''w'' = 0" "replay ob2 = [ev]" by (simp_all add: stored_cursor_def ob2_def ob1_def replay_def)
  moreover have "\<forall>k. Drain ''w'' (Some k) \<notin> set [Append ev, Drain ''w'' None]" by simp
  ultimately have "delivered ''w'' empty_outbox [Append ev, Drain ''w'' None] = take (nat (0 + 1)) [ev]"
    using outbox_delivery[OF ob[symmetric], of "''w''"] by (metis list.distinct(1))
  then show ?thesis using ev by (intro exI[of _ ev]) simp
qed

text \<open>
  Outside these years the two halves of the contract disagree: \<open>toISOString\<close> writes a signed
  six-digit year, which \<open>makeEnvelope\<close> accepts for a \<open>Date\<close> and the outbox then refuses.
\<close>

lemma signed_year_text:
  assumes "9999 < getUTCFullYear t"
  shows "\<not> ISO_PATTERN (toISOString t)"
proof -
  obtain y m d where c: "civil_of_day (day_of t) = (y, m, d)" by (cases "civil_of_day (day_of t)")
  with assms have "9999 < y" by (simp add: getUTCFullYear_def)
  then obtain s where "toISOString t = CHR ''+'' # s" by (simp add: toISOString_def c iso_year_def Let_def)
  moreover have "\<not> is_digit (CHR ''+'')" by code_simp
  ultimately show ?thesis by (simp add: ISO_PATTERN_def fits_def iso_head_def numeral_eq_Suc)
qed

lemma far_future_text: "\<not> ISO_PATTERN (toISOString 253402300800000)"
proof (rule signed_year_text)
  have "year_of_day 2932897 = 10000" by (rule year_of_day_eq) (simp_all add: day_from_year_def)
  then show "9999 < getUTCFullYear 253402300800000" by (simp add: getUTCFullYear_def civil_of_day_def day_of_def ms_per_day_def Let_def)
qed

lemma far_future_envelope_refused:
  "\<exists>ev. makeEnvelope ''payment.confirmed'' (sample_options 253402300800000) (JObject [(''amountMinor'', JNumber (Fin 5))]) = Inr ev \<and>
     outbox_append empty_outbox ev = throw ''EVENT_OCCURRED_AT_INVALID''"
proof -
  obtain ev where ev: "makeEnvelope ''payment.confirmed'' (sample_options 253402300800000) (JObject [(''amountMinor'', JNumber (Fin 5))]) = Inr ev"
    "en_occurredAt ev = IsoText (toISOString 253402300800000)" using sample_envelope by blast
  have "assertEventName (en_name ev) = Inr ()" "UUID_PATTERN (en_eventId ev)" "UUID_PATTERN (en_aggregateId ev)"
    "en_correlationId ev = None" "en_version ev = the (EVENT_VERSIONS (en_name ev))" "isEventName (en_name ev)"
    using ev(1) by (auto simp: makeEnvelope_def result_simps assertUuid_def sample_options_def assertEventName_def split: if_splits)
  then have "validateEnvelope ev = throw ''EVENT_OCCURRED_AT_INVALID''"
    using far_future_text by (simp add: validateEnvelope_def assertUuid_def EVENT_VERSIONS_Some ev(2))
  then show ?thesis using ev(1) by (simp add: outbox_append_def)
qed

end
