(* ===== verification/Js_Text.thy ===== *)
theory Js_Text
  imports Js_Integer Formats
begin

text \<open>
  Text conversions of the language the hashing and delivery lanes rely on: \<open>String(number)\<close>,
  \<open>JSON.stringify\<close> of a string, \<open>Date.parse\<close> of an ISO-8601 instant, and the string tests
  \<open>includes\<close>, \<open>startsWith\<close> and \<open>endsWith\<close>.
\<close>

section \<open>Numbers\<close>

text \<open>The \<open>n\<close> with \<open>10 ^ (n - 1) \<le> x < 10 ^ n\<close>; no positive double is below \<open>10 ^ - 324\<close>.\<close>

definition decimal_exponent :: "rat \<Rightarrow> int" where
  "decimal_exponent x = (if 1 \<le> x then int (length (nat_to_string (nat \<lfloor>x\<rfloor>)))
     else 1 - int (the (find (\<lambda>j. 1 \<le> x * 10 ^ j) [0..<400])))"

definition scale10 :: "rat \<Rightarrow> int \<Rightarrow> rat" where
  "scale10 x e = (if 0 \<le> e then x * 10 ^ nat e else x / 10 ^ nat (- e))"

text \<open>The integer next to \<open>x / 10 ^ e\<close> whose multiple of \<open>10 ^ e\<close> is read back as \<open>x\<close>, the nearer one first.\<close>

definition digits_at :: "rat \<Rightarrow> int \<Rightarrow> int option" where
  "digits_at x e = (let q = scale10 x (- e); lo = \<lfloor>q\<rfloor>; hi = \<lceil>q\<rceil> in
     find (\<lambda>s. fl (scale10 (of_int s) e) = x) (if q - of_int lo \<le> of_int hi - q then [lo, hi] else [hi, lo]))"

definition strip_zeros :: "string \<Rightarrow> string" where
  "strip_zeros s = rev (dropWhile (\<lambda>c. c = CHR ''0'') (rev s))"

text \<open>The shortest digits that read back as \<open>x\<close>, and the position of the decimal point; 17 digits always do.\<close>

definition shortest_digits :: "rat \<Rightarrow> string \<times> int" where
  "shortest_digits x = (let n = decimal_exponent x;
      k = the (find (\<lambda>k. digits_at x (n - int k) \<noteq> None) [1..<18]);
      ds = nat_to_string (nat (the (digits_at x (n - int k)))) in
    (strip_zeros ds, n - int k + int (length ds)))"

definition positive_to_string :: "rat \<Rightarrow> string" where
  "positive_to_string x = (let (ds, n) = shortest_digits x; k = int (length ds) in
     if k \<le> n \<and> n \<le> 21 then ds @ replicate (nat (n - k)) (CHR ''0'')
     else if 0 < n \<and> n \<le> 21 then take (nat n) ds @ ''.'' @ drop (nat n) ds
     else if - 6 < n \<and> n \<le> 0 then ''0.'' @ replicate (nat (- n)) (CHR ''0'') @ ds
     else (let e = (if 0 \<le> n - 1 then ''e+'' else ''e-'') @ nat_to_string (nat \<bar>n - 1\<bar>) in
       if k = 1 then ds @ e else take 1 ds @ ''.'' @ drop 1 ds @ e))"

text \<open>\<open>String(x)\<close> of a finite number\<close>

definition number_to_string :: "rat \<Rightarrow> string" where
  "number_to_string x =
     (if x = 0 then ''0'' else if x < 0 then ''-'' @ positive_to_string (- x) else positive_to_string x)"

section \<open>Strings\<close>

definition hex_digit :: "nat \<Rightarrow> char" where
  "hex_digit n = (if n < 10 then digit_char n else char_of (87 + n))"

definition json_escape :: "char \<Rightarrow> string" where
  "json_escape c = (let n = (of_char c :: nat) in
     if n = 34 then [CHR 0x5C, c] else if n = 92 then [c, c]
     else if n = 8 then [CHR 0x5C, CHR ''b''] else if n = 9 then [CHR 0x5C, CHR ''t'']
     else if n = 10 then [CHR 0x5C, CHR ''n''] else if n = 12 then [CHR 0x5C, CHR ''f'']
     else if n = 13 then [CHR 0x5C, CHR ''r'']
     else if n < 32 then [CHR 0x5C, CHR ''u'', CHR ''0'', CHR ''0'', hex_digit (n div 16), hex_digit (n mod 16)]
     else [c])"

text \<open>\<open>JSON.stringify(s)\<close>\<close>

definition json_quote :: "string \<Rightarrow> string" where
  "json_quote s = [CHR 0x22] @ concat (map json_escape s) @ [CHR 0x22]"

definition join :: "string \<Rightarrow> string list \<Rightarrow> string" where
  "join sep xs = (case xs of [] \<Rightarrow> [] | y # ys \<Rightarrow> y @ concat (map (\<lambda>z. sep @ z) ys))"

definition starts_with :: "string \<Rightarrow> string \<Rightarrow> bool" where
  "starts_with s p \<longleftrightarrow> take (length p) s = p"

definition ends_with :: "string \<Rightarrow> string \<Rightarrow> bool" where
  "ends_with s p \<longleftrightarrow> length p \<le> length s \<and> drop (length s - length p) s = p"

fun has_part :: "string \<Rightarrow> string \<Rightarrow> bool" where
  "has_part [] p = (p = [])"
| "has_part (c # s) p = (starts_with (c # s) p \<or> has_part s p)"

definition to_lower :: "char \<Rightarrow> char" where
  "to_lower c = (let n = (of_char c :: nat) in if 65 \<le> n \<and> n \<le> 90 then char_of (n + 32) else c)"

section \<open>Instants\<close>

text \<open>\<open>Date.parse(s)\<close> for a text that matches \<open>ISO_PATTERN\<close> with fields in range.\<close>

definition iso_millis :: "string \<Rightarrow> int" where
  "iso_millis s = (let r = drop 19 s in
     if hd r = CHR ''.'' then (let ds = takeWhile is_digit (tl r) in int (nat_of_digits ds) * 10 ^ (3 - length ds)) else 0)"

definition iso_offset :: "string \<Rightarrow> int" where
  "iso_offset s = (if last s = CHR ''Z'' then 0
     else (if s ! (length s - 6) = CHR ''-'' then - 1 else 1) *
       (int (field s (length s - 5)) * 60 + int (field s (length s - 2))) * 60000)"

definition date_parse :: "string \<Rightarrow> date" where
  "date_parse s = make_day (int (nat_of_digits (take 4 s))) (int (field s 5) - 1) (int (field s 8)) * ms_per_day +
     ((int (field s 11) * 60 + int (field s 14)) * 60 + int (field s 17)) * 1000 + iso_millis s - iso_offset s"

end
