(* ===== verification/Audit_Trail.thy ===== *)
theory Audit_Trail
  imports Outbox Js_Text
begin

text \<open>
  The audit trail (\<open>src/src/domain/audit\<close>): redaction of state snapshots (\<open>redact.ts\<close>), the
  record with its validation, the builder and the append-only sink (\<open>record.ts\<close>), the
  tamper-evident hash chain (\<open>chain.ts\<close>), its event (\<open>events.ts\<close>) and the read model
  (\<open>project.ts\<close>). The hash function is the injected port: a parameter of the operations that
  hash. Snapshots are trees; no object has an own member named \<open>__proto__\<close>.
\<close>

section \<open>Redaction\<close>

definition FORBIDDEN_KEYS :: "string list" where
  "FORBIDDEN_KEYS = [''password'', ''secret'', ''token'', ''apikey'', ''authorization'', ''pin'']"

definition isForbiddenKey :: "string \<Rightarrow> bool" where
  "isForbiddenKey key = (let normalized = filter (\<lambda>c. is_lower c \<or> is_digit c) (map to_lower key) in
     list_ex (has_part normalized) FORBIDDEN_KEYS)"

definition snapshot_invalid :: "'a result" where
  "snapshot_invalid = throw ''AUDIT_SNAPSHOT_INVALID''"

definition MAX_SNAPSHOT_DEPTH :: nat where
  "MAX_SNAPSHOT_DEPTH = 24"

fun validateSnapshotShape :: "nat \<Rightarrow> js_value \<Rightarrow> unit result" where
  "validateSnapshotShape depth v =
     (if depth > MAX_SNAPSHOT_DEPTH then snapshot_invalid
      else case v of
        JNull \<Rightarrow> Inr () | JString _ \<Rightarrow> Inr () | JBool _ \<Rightarrow> Inr ()
      | JNumber x \<Rightarrow> if \<not> is_finite_num x then snapshot_invalid else Inr ()
      | JBigint _ \<Rightarrow> snapshot_invalid | JUndefined \<Rightarrow> snapshot_invalid
      | JFunction \<Rightarrow> snapshot_invalid | JSymbol \<Rightarrow> snapshot_invalid
      | JArray vs \<Rightarrow> and_then (traverse (validateSnapshotShape (depth + 1)) vs) (\<lambda>_. Inr ())
      | JObject ms \<Rightarrow> and_then (traverse (\<lambda>m. validateSnapshotShape (depth + 1) (snd m)) ms) (\<lambda>_. Inr ())
      | JInstance _ \<Rightarrow> snapshot_invalid)"

declare validateSnapshotShape.simps [simp del]

fun redact :: "js_value \<Rightarrow> js_value" where
  "redact (JArray vs) = JArray (map redact vs)"
| "redact (JObject ms) = JObject (map (\<lambda>(k, m). (k, redact m)) (filter (\<lambda>(k, m). \<not> isForbiddenKey k) ms))"
| "redact v = v"

definition redactSnapshot :: "js_value \<Rightarrow> js_value result" where
  "redactSnapshot v = and_then (validateSnapshotShape 0 v) (\<lambda>_. Inr (redact v))"

section \<open>The record\<close>

definition ACTOR_KINDS :: "string list" where
  "ACTOR_KINDS = [''user'', ''apiKey'', ''agent'', ''system'']"

definition AUDIT_ACTIONS :: "string list" where
  "AUDIT_ACTIONS = [''create'', ''update'', ''transition'', ''cancel'', ''reverse'', ''write_off'', ''refund'', ''issue'',
     ''revoke'', ''approve'', ''send'', ''ingest'', ''settle'', ''redeem'', ''access'', ''login'']"

record audit_actor =
  ac_kind :: string
  ac_id :: string
  ac_orgId :: "uuid option"

record audit_approval =
  av_ref :: string
  av_approverId :: "string option"
  av_decidedAt :: "string option"

record audit_ai_context =
  ai_agentKind :: string
  ai_evidenceRefs :: "string list"

record audit_draft =
  au_auditId :: uuid
  au_orgId :: uuid
  au_actor :: audit_actor
  au_action :: string
  au_entityType :: string
  au_entityId :: string
  au_occurredAt :: string
  au_requestId :: string
  au_correlationId :: "string option"
  au_ip :: "string option"
  au_userAgent :: "string option"
  au_previousState :: "js_value option"
  au_newState :: "js_value option"
  au_reason :: "string option"
  au_approval :: "audit_approval option"
  au_aiContext :: "audit_ai_context option"

record audit_record = audit_draft +
  au_prevRecordHash :: "string option"
  au_recordHash :: string

text \<open>
  The append command: the fields of a draft, not yet validated, and the pinned instant if there
  is one (the \<open>au_occurredAt\<close> of the draft is not read).
\<close>

record append_audit_input =
  ia_draft :: audit_draft
  ia_occurredAt :: "string option"

section \<open>Validation\<close>

definition isIsoInstant :: "string \<Rightarrow> bool" where
  "isIsoInstant raw \<longleftrightarrow> ISO_PATTERN raw \<and> valid_date raw"

definition audit_assertNonBlank :: "string \<Rightarrow> string \<Rightarrow> nat \<Rightarrow> string result" where
  "audit_assertNonBlank raw code max_length = (let value = trim raw in
     if value = [] then throw code else if length value > max_length then throw code else Inr value)"

definition audit_assertActor :: "audit_actor \<Rightarrow> audit_actor result" where
  "audit_assertActor actor =
     (if ac_kind actor \<notin> set ACTOR_KINDS then throw ''AUDIT_ACTOR_INVALID''
      else and_then (audit_assertNonBlank (ac_id actor) ''AUDIT_ACTOR_INVALID'' 256) (\<lambda>aid.
        if ac_kind actor = ''system'' then
          (if ac_orgId actor \<noteq> None then throw ''AUDIT_ACTOR_INVALID''
           else Inr \<lparr>ac_kind = ''system'', ac_id = aid, ac_orgId = None\<rparr>)
        else case ac_orgId actor of None \<Rightarrow> throw ''AUDIT_ACTOR_INVALID''
          | Some org \<Rightarrow> and_then (audit_assertNonBlank org ''AUDIT_ACTOR_INVALID'' 256) (\<lambda>orgId.
              Inr \<lparr>ac_kind = ac_kind actor, ac_id = aid, ac_orgId = Some orgId\<rparr>)))"

definition assertAction :: "string \<Rightarrow> string result" where
  "assertAction raw = (if raw \<notin> set AUDIT_ACTIONS then throw ''AUDIT_ACTION_INVALID'' else Inr raw)"

definition optionalString :: "string option \<Rightarrow> string \<Rightarrow> nat \<Rightarrow> string option result" where
  "optionalString raw code max_length = (case raw of None \<Rightarrow> Inr None
     | Some s \<Rightarrow> and_then (audit_assertNonBlank s code max_length) (\<lambda>v. Inr (Some v)))"

definition assertApproval :: "audit_approval \<Rightarrow> audit_approval result" where
  "assertApproval approval =
     and_then (audit_assertNonBlank (av_ref approval) ''AUDIT_APPROVAL_INVALID'' 256) (\<lambda>ref.
     and_then (optionalString (av_approverId approval) ''AUDIT_APPROVAL_INVALID'' 256) (\<lambda>approverId.
       if (case av_decidedAt approval of None \<Rightarrow> False | Some t \<Rightarrow> \<not> isIsoInstant t) then throw ''AUDIT_APPROVAL_INVALID''
       else Inr \<lparr>av_ref = ref, av_approverId = approverId, av_decidedAt = av_decidedAt approval\<rparr>))"

definition assertAiContext :: "audit_ai_context \<Rightarrow> audit_ai_context result" where
  "assertAiContext ai =
     and_then (audit_assertNonBlank (ai_agentKind ai) ''AUDIT_AI_CONTEXT_INVALID'' 64) (\<lambda>agentKind.
     and_then (traverse (\<lambda>ref. audit_assertNonBlank ref ''AUDIT_AI_CONTEXT_INVALID'' 256) (ai_evidenceRefs ai)) (\<lambda>refs.
       Inr \<lparr>ai_agentKind = agentKind, ai_evidenceRefs = refs\<rparr>))"

fun assertSnapshot :: "js_value \<Rightarrow> js_value result" where
  "assertSnapshot (JObject ms) = and_then (validateSnapshotShape 0 (JObject ms)) (\<lambda>_. Inr (JObject ms))"
| "assertSnapshot (JInstance k) = and_then (validateSnapshotShape 0 (JInstance k)) (\<lambda>_. Inr (JInstance k))"
| "assertSnapshot _ = snapshot_invalid"

text \<open>\<open>x === null ? null : f(x)\<close>\<close>

fun when_given :: "('a \<Rightarrow> 'b result) \<Rightarrow> 'a option \<Rightarrow> 'b option result" where
  "when_given f None = Inr None"
| "when_given f (Some x) = and_then (f x) (\<lambda>y. Inr (Some y))"

definition redacted_snapshot :: "js_value \<Rightarrow> js_value result" where
  "redacted_snapshot v = and_then (assertSnapshot v) redactSnapshot"

definition assertHashString :: "string \<Rightarrow> string result" where
  "assertHashString raw = (if trim raw = [] \<or> length raw > 256 then throw ''AUDIT_HASH_MALFORMED'' else Inr raw)"

definition assertRecordShape :: "audit_record \<Rightarrow> unit result" where
  "assertRecordShape r =
     and_then (audit_assertNonBlank (au_auditId r) ''AUDIT_RECORD_MALFORMED'' 256) (\<lambda>_.
     and_then (audit_assertNonBlank (au_orgId r) ''AUDIT_ORG_REQUIRED'' 256) (\<lambda>_.
     and_then (audit_assertActor (au_actor r)) (\<lambda>_.
     and_then (assertAction (au_action r)) (\<lambda>_.
     and_then (audit_assertNonBlank (au_entityType r) ''AUDIT_ENTITY_TYPE_REQUIRED'' 64) (\<lambda>_.
     and_then (audit_assertNonBlank (au_entityId r) ''AUDIT_ENTITY_ID_REQUIRED'' 256) (\<lambda>_.
     if \<not> isIsoInstant (au_occurredAt r) then throw ''AUDIT_OCCURRED_AT_INVALID'' else
     and_then (audit_assertNonBlank (au_requestId r) ''AUDIT_REQUEST_ID_REQUIRED'' 256) (\<lambda>_.
     and_then (optionalString (au_correlationId r) ''AUDIT_CORRELATION_ID_INVALID'' 256) (\<lambda>_.
     and_then (optionalString (au_ip r) ''AUDIT_IP_MALFORMED'' 64) (\<lambda>_.
     and_then (optionalString (au_userAgent r) ''AUDIT_USER_AGENT_MALFORMED'' 512) (\<lambda>_.
     and_then (optionalString (au_reason r) ''AUDIT_REASON_MALFORMED'' 1024) (\<lambda>_.
     and_then (when_given assertSnapshot (au_previousState r)) (\<lambda>_.
     and_then (when_given assertSnapshot (au_newState r)) (\<lambda>_.
     and_then (when_given assertApproval (au_approval r)) (\<lambda>_.
     and_then (when_given assertAiContext (au_aiContext r)) (\<lambda>_.
     and_then (assertHashString (au_recordHash r)) (\<lambda>_.
     and_then (when_given assertHashString (au_prevRecordHash r)) (\<lambda>_. Inr ())))))))))))))))))"

section \<open>The builder\<close>

definition buildAuditDraft :: "append_audit_input \<Rightarrow> clock \<Rightarrow> audit_draft result" where
  "buildAuditDraft input clk = (let d = ia_draft input in
     and_then (case ia_occurredAt input of
         Some t \<Rightarrow> if isIsoInstant t then Inr t else throw ''AUDIT_OCCURRED_AT_INVALID''
       | None \<Rightarrow> Inr (toISOString (clk 0))) (\<lambda>occurredAt.
     and_then (when_given redacted_snapshot (au_previousState d)) (\<lambda>previousState.
     and_then (when_given redacted_snapshot (au_newState d)) (\<lambda>newState.
     and_then (audit_assertNonBlank (au_auditId d) ''AUDIT_RECORD_MALFORMED'' 256) (\<lambda>auditId.
     and_then (audit_assertNonBlank (au_orgId d) ''AUDIT_ORG_REQUIRED'' 256) (\<lambda>orgId.
     and_then (audit_assertActor (au_actor d)) (\<lambda>actor.
     and_then (assertAction (au_action d)) (\<lambda>action.
     and_then (audit_assertNonBlank (au_entityType d) ''AUDIT_ENTITY_TYPE_REQUIRED'' 64) (\<lambda>entityType.
     and_then (audit_assertNonBlank (au_entityId d) ''AUDIT_ENTITY_ID_REQUIRED'' 256) (\<lambda>entityId.
     and_then (audit_assertNonBlank (au_requestId d) ''AUDIT_REQUEST_ID_REQUIRED'' 256) (\<lambda>requestId.
     and_then (optionalString (au_correlationId d) ''AUDIT_CORRELATION_ID_INVALID'' 256) (\<lambda>correlationId.
     and_then (optionalString (au_ip d) ''AUDIT_IP_MALFORMED'' 64) (\<lambda>ip.
     and_then (optionalString (au_userAgent d) ''AUDIT_USER_AGENT_MALFORMED'' 512) (\<lambda>userAgent.
     and_then (optionalString (au_reason d) ''AUDIT_REASON_MALFORMED'' 1024) (\<lambda>reason.
     and_then (when_given assertApproval (au_approval d)) (\<lambda>approval.
     and_then (when_given assertAiContext (au_aiContext d)) (\<lambda>aiContext.
       Inr \<lparr>au_auditId = auditId, au_orgId = orgId, au_actor = actor, au_action = action, au_entityType = entityType,
            au_entityId = entityId, au_occurredAt = occurredAt, au_requestId = requestId,
            au_correlationId = correlationId, au_ip = ip, au_userAgent = userAgent, au_previousState = previousState,
            au_newState = newState, au_reason = reason, au_approval = approval, au_aiContext = aiContext\<rparr>)))))))))))))))))"

section \<open>The append-only sink\<close>

record audit_sink =
  sk_trail :: "audit_record list"
  sk_seenIds :: "uuid set"

definition createInMemoryAuditSink :: audit_sink where
  "createInMemoryAuditSink = \<lparr>sk_trail = [], sk_seenIds = {}\<rparr>"

definition sink_append :: "audit_sink \<Rightarrow> audit_record \<Rightarrow> date \<Rightarrow> (audit_sink \<times> audit_record) result" where
  "sink_append sink r now =
     and_then (assertRecordShape r) (\<lambda>_.
       if date_parse (au_occurredAt r) > now then throw ''AUDIT_OCCURRED_AT_FUTURE''
       else if au_auditId r \<in> sk_seenIds sink then throw ''AUDIT_AUDIT_ID_TAKEN''
       else and_then (when_given redacted_snapshot (au_previousState r)) (\<lambda>previousState.
         and_then (when_given redacted_snapshot (au_newState r)) (\<lambda>newState.
           let stored = r\<lparr>au_previousState := previousState, au_newState := newState\<rparr> in
             Inr (\<lparr>sk_trail = sk_trail sink @ [stored], sk_seenIds = insert (au_auditId stored) (sk_seenIds sink)\<rparr>, stored))))"

section \<open>Canonical JSON\<close>

text \<open>An instance of a class has no own enumerable member here, as a \<open>Date\<close>.\<close>

fun canonicalJson :: "js_value \<Rightarrow> string result" where
  "canonicalJson JNull = Inr ''null''"
| "canonicalJson (JString s) = Inr (json_quote s)"
| "canonicalJson (JBool b) = Inr (if b then ''true'' else ''false'')"
| "canonicalJson (JNumber x) = (case x of Fin q \<Rightarrow> Inr (number_to_string q) | _ \<Rightarrow> snapshot_invalid)"
| "canonicalJson (JArray vs) = and_then (traverse canonicalJson vs) (\<lambda>ts. Inr (''['' @ join '','' ts @ '']''))"
| "canonicalJson (JObject ms) =
     and_then (traverse (\<lambda>m. and_then (canonicalJson (snd m)) (\<lambda>t. Inr (json_quote (fst m) @ '':'' @ t)))
       (sort_key fst (filter (\<lambda>m. snd m \<noteq> JUndefined) ms)))
     (\<lambda>ts. Inr (''{'' @ join '','' ts @ ''}''))"
| "canonicalJson (JInstance k) = Inr ''{}''"
| "canonicalJson _ = snapshot_invalid"

section \<open>The hash chain\<close>

definition GENESIS_PREV_HASH :: string where
  "GENESIS_PREV_HASH = replicate 64 (CHR ''0'')"

definition useHash :: "(string \<Rightarrow> string) \<Rightarrow> string \<Rightarrow> string result" where
  "useHash hash input = (let out = hash input in
     if out = [] \<or> length out > 256 then throw ''AUDIT_HASH_PORT_INVALID'' else Inr out)"

definition nullable :: "('a \<Rightarrow> js_value) \<Rightarrow> 'a option \<Rightarrow> js_value" where
  "nullable f x = (case x of None \<Rightarrow> JNull | Some y \<Rightarrow> f y)"

text \<open>The record as the object it is, without \<open>recordHash\<close>.\<close>

definition record_json :: "audit_record \<Rightarrow> js_value" where
  "record_json r = JObject
     [(''auditId'', JString (au_auditId r)), (''orgId'', JString (au_orgId r)),
      (''actor'', JObject [(''kind'', JString (ac_kind (au_actor r))), (''id'', JString (ac_id (au_actor r))),
         (''orgId'', nullable JString (ac_orgId (au_actor r)))]),
      (''action'', JString (au_action r)), (''entityType'', JString (au_entityType r)),
      (''entityId'', JString (au_entityId r)), (''occurredAt'', JString (au_occurredAt r)),
      (''requestId'', JString (au_requestId r)), (''correlationId'', nullable JString (au_correlationId r)),
      (''ip'', nullable JString (au_ip r)), (''userAgent'', nullable JString (au_userAgent r)),
      (''previousState'', nullable (\<lambda>v. v) (au_previousState r)), (''newState'', nullable (\<lambda>v. v) (au_newState r)),
      (''reason'', nullable JString (au_reason r)),
      (''approval'', nullable (\<lambda>a. JObject [(''ref'', JString (av_ref a)),
         (''approverId'', nullable JString (av_approverId a)), (''decidedAt'', nullable JString (av_decidedAt a))]) (au_approval r)),
      (''aiContext'', nullable (\<lambda>a. JObject [(''agentKind'', JString (ai_agentKind a)),
         (''evidenceRefs'', JArray (map JString (ai_evidenceRefs a)))]) (au_aiContext r)),
      (''prevRecordHash'', nullable JString (au_prevRecordHash r))]"

definition canonicalAuditRecord :: "audit_record \<Rightarrow> string result" where
  "canonicalAuditRecord r = canonicalJson (record_json r)"

definition prev_text :: "string option \<Rightarrow> string" where
  "prev_text prev = (case prev of None \<Rightarrow> GENESIS_PREV_HASH | Some h \<Rightarrow> h)"

definition chainHash :: "string option \<Rightarrow> audit_record \<Rightarrow> (string \<Rightarrow> string) \<Rightarrow> string result" where
  "chainHash prev r hash = and_then (canonicalAuditRecord r) (\<lambda>text. useHash hash (prev_text prev @ text))"

record audit_event_payload =
  ep_auditId :: uuid
  ep_orgId :: uuid
  ep_actorKind :: string
  ep_actorId :: string
  ep_action :: string
  ep_entityType :: string
  ep_entityId :: string
  ep_requestId :: string
  ep_correlationId :: "string option"
  ep_prevRecordHash :: "string option"
  ep_recordHash :: string
  ep_occurredAt :: string

definition recordAppendedEvent :: "audit_record \<Rightarrow> date \<Rightarrow> (audit_event_payload, string) domain_event" where
  "recordAppendedEvent r now =
     \<lparr>ev_name = ''audit.recordAppended'', ev_version = 1, ev_aggregateId = au_auditId r,
      ev_payload = \<lparr>ep_auditId = au_auditId r, ep_orgId = au_orgId r, ep_actorKind = ac_kind (au_actor r),
        ep_actorId = ac_id (au_actor r), ep_action = au_action r, ep_entityType = au_entityType r,
        ep_entityId = au_entityId r, ep_requestId = au_requestId r, ep_correlationId = au_correlationId r,
        ep_prevRecordHash = au_prevRecordHash r, ep_recordHash = au_recordHash r, ep_occurredAt = au_occurredAt r\<rparr>,
      ev_occurredAt = toISOString now\<rparr>"

definition with_chain :: "audit_draft \<Rightarrow> string option \<Rightarrow> string \<Rightarrow> audit_record" where
  "with_chain d prev h = audit_draft.extend d \<lparr>au_prevRecordHash = prev, au_recordHash = h\<rparr>"

text \<open>The clock is read by its guard first; the sink has a clock of its own, read at \<open>now\<close>.\<close>

definition appendAuditRecord ::
  "audit_sink \<Rightarrow> (string \<Rightarrow> string) \<Rightarrow> audit_record option \<Rightarrow> append_audit_input \<Rightarrow> clock \<Rightarrow> date \<Rightarrow>
     (audit_sink \<times> audit_record \<times> (audit_event_payload, string) domain_event) result" where
  "appendAuditRecord sink hash prev input clk now =
     and_then (buildAuditDraft input (clock_after 1 clk)) (\<lambda>draft.
     and_then (when_given (\<lambda>p. assertHashString (au_recordHash p)) prev) (\<lambda>prevRecordHash.
     and_then (chainHash prevRecordHash (with_chain draft prevRecordHash []) hash) (\<lambda>h.
       let r = with_chain draft prevRecordHash h in
       and_then (assertRecordShape r) (\<lambda>_.
       and_then (sink_append sink r now) (\<lambda>(sink', stored).
         Inr (sink', stored, recordAppendedEvent stored (date_parse (au_occurredAt stored))))))))"

section \<open>Verification\<close>

datatype chain_break =
    GENESIS_INVALID | PREV_HASH_MISMATCH | RECORD_HASH_MISMATCH | HASH_FIELD_MALFORMED | LENGTH_MISMATCH | HEAD_MISMATCH

datatype chain_verification = Chain_Ok nat "string option" | Chain_Broken int chain_break

text \<open>One turn of the loop over the trail, on the record before and the record at \<open>i\<close>; \<open>None\<close> goes on.\<close>

definition verify_at :: "(string \<Rightarrow> string) \<Rightarrow> nat \<Rightarrow> audit_record option \<Rightarrow> audit_record \<Rightarrow> chain_verification option result" where
  "verify_at hash i before r =
     (if au_recordHash r = [] \<or> length (au_recordHash r) > 256 then Inr (Some (Chain_Broken (int i) HASH_FIELD_MALFORMED))
      else if before = None \<and> au_prevRecordHash r \<noteq> None then Inr (Some (Chain_Broken 0 GENESIS_INVALID))
      else if (case before of None \<Rightarrow> False | Some p \<Rightarrow> au_prevRecordHash r \<noteq> Some (au_recordHash p))
      then Inr (Some (Chain_Broken (int i) PREV_HASH_MISMATCH))
      else and_then (when_given redactSnapshot (au_previousState r)) (\<lambda>previousState.
        and_then (when_given redactSnapshot (au_newState r)) (\<lambda>newState.
        and_then (chainHash (au_prevRecordHash r) (r\<lparr>au_previousState := previousState, au_newState := newState\<rparr>) hash) (\<lambda>recomputed.
          Inr (if recomputed \<noteq> au_recordHash r then Some (Chain_Broken (int i) RECORD_HASH_MISMATCH) else None)))))"

fun verify_from :: "(string \<Rightarrow> string) \<Rightarrow> nat \<Rightarrow> audit_record option \<Rightarrow> audit_record list \<Rightarrow> chain_verification option result" where
  "verify_from hash i before [] = Inr None"
| "verify_from hash i before (r # rs) = and_then (verify_at hash i before r) (\<lambda>found.
     case found of Some b \<Rightarrow> Inr (Some b) | None \<Rightarrow> verify_from hash (i + 1) (Some r) rs)"

record chain_expectation =
  ce_length :: "js_num option"
  ce_headHash :: "string option"

definition headHash :: "audit_record list \<Rightarrow> string option" where
  "headHash records = (if records = [] then None else Some (au_recordHash (last records)))"

definition verifyChain ::
  "audit_record list \<Rightarrow> (string \<Rightarrow> string) \<Rightarrow> chain_expectation \<Rightarrow> chain_verification result" where
  "verifyChain records hash expected =
     (if (case ce_length expected of None \<Rightarrow> False | Some n \<Rightarrow> \<not> is_integer_num n \<or> js_neg n) then throw ''AUDIT_FILTER_INVALID''
      else and_then (verify_from hash 0 None records) (\<lambda>found. case found of Some b \<Rightarrow> Inr b
        | None \<Rightarrow>
            if (case ce_length expected of None \<Rightarrow> False | Some n \<Rightarrow> Fin (of_nat (length records)) \<noteq> n)
            then Inr (Chain_Broken (- 1) LENGTH_MISMATCH)
            else if (case ce_headHash expected of None \<Rightarrow> False | Some h \<Rightarrow> headHash records \<noteq> Some h)
            then Inr (Chain_Broken (- 1) HEAD_MISMATCH)
            else Inr (Chain_Ok (length records) (headHash records))))"

section \<open>Projection and read model\<close>

record audit_event_envelope =
  ee_name :: string
  ee_aggregateId :: string
  ee_occurredAt :: string
  ee_payload :: js_value
  ee_correlationId :: "string option"

record audit_from_event_options =
  fo_auditId :: uuid
  fo_orgId :: uuid
  fo_actor :: audit_actor
  fo_action :: string
  fo_requestId :: string
  fo_correlationId :: "string option"
  fo_ip :: "string option"
  fo_userAgent :: "string option"
  fo_reason :: "string option"
  fo_approval :: "audit_approval option"
  fo_aiContext :: "audit_ai_context option"

fun payload_members :: "js_value \<Rightarrow> (string \<times> js_value) list result" where
  "payload_members (JObject ms) = Inr ms"
| "payload_members (JInstance _) = Inr []"
| "payload_members _ = throw ''AUDIT_EVENT_PAYLOAD_INVALID''"

definition payloadSlice :: "(string \<times> js_value) list \<Rightarrow> string \<Rightarrow> js_value option result" where
  "payloadSlice ms key = (case map_of ms key of None \<Rightarrow> Inr None | Some raw \<Rightarrow>
     if raw = JUndefined \<or> raw = JNull then Inr None
     else and_then (payload_members raw) (\<lambda>_. Inr (Some raw)))"

definition auditFromEvent :: "audit_event_envelope \<Rightarrow> audit_from_event_options \<Rightarrow> append_audit_input result" where
  "auditFromEvent env options =
     (if \<not> EVENT_NAME_PATTERN (ee_name env) then throw ''AUDIT_EVENT_NAME_MALFORMED''
      else if \<not> isIsoInstant (ee_occurredAt env) then throw ''AUDIT_EVENT_OCCURRED_AT_INVALID''
      else and_then (payload_members (ee_payload env)) (\<lambda>ms.
        and_then (audit_assertNonBlank (fo_auditId options) ''AUDIT_RECORD_MALFORMED'' 256) (\<lambda>auditId.
        and_then (audit_assertNonBlank (fo_orgId options) ''AUDIT_ORG_REQUIRED'' 256) (\<lambda>orgId.
        and_then (audit_assertActor (fo_actor options)) (\<lambda>actor.
        and_then (assertAction (fo_action options)) (\<lambda>action.
        and_then (audit_assertNonBlank (fo_requestId options) ''AUDIT_REQUEST_ID_REQUIRED'' 256) (\<lambda>requestId.
        and_then (payloadSlice ms ''previousState'') (\<lambda>previousState.
        and_then (payloadSlice ms ''newState'') (\<lambda>newState.
          Inr \<lparr>ia_draft = \<lparr>au_auditId = auditId, au_orgId = orgId, au_actor = actor, au_action = action,
                 au_entityType = takeWhile (\<lambda>c. c \<noteq> CHR ''.'') (ee_name env), au_entityId = ee_aggregateId env,
                 au_occurredAt = ee_occurredAt env, au_requestId = requestId,
                 au_correlationId = (if ee_correlationId env \<noteq> None then ee_correlationId env else fo_correlationId options),
                 au_ip = fo_ip options, au_userAgent = fo_userAgent options, au_previousState = previousState,
                 au_newState = newState, au_reason = fo_reason options, au_approval = fo_approval options,
                 au_aiContext = fo_aiContext options\<rparr>,
               ia_occurredAt = Some (ee_occurredAt env)\<rparr>)))))))))"

record audit_trail_filter =
  fi_orgId :: "string option"
  fi_actorId :: "string option"
  fi_actorKind :: "string option"
  fi_entityType :: "string option"
  fi_entityId :: "string option"
  fi_action :: "string option"
  fi_from :: "string option"
  fi_to :: "string option"
  fi_correlationId :: "string option"
  fi_requestId :: "string option"

definition assertFilterField :: "string option \<Rightarrow> unit result" where
  "assertFilterField raw = (case raw of None \<Rightarrow> Inr ()
     | Some s \<Rightarrow> if trim s = [] \<or> length s > 256 then throw ''AUDIT_FILTER_INVALID'' else Inr ())"

text \<open>A record passes when every filter given agrees with it; the range is inclusive.\<close>

definition passes :: "audit_trail_filter \<Rightarrow> audit_record \<Rightarrow> bool" where
  "passes f r \<longleftrightarrow> (let agrees = (\<lambda>want got. want = None \<or> want = Some got) in
     agrees (fi_orgId f) (au_orgId r) \<and> agrees (fi_actorId f) (ac_id (au_actor r)) \<and>
     agrees (fi_actorKind f) (ac_kind (au_actor r)) \<and> agrees (fi_entityType f) (au_entityType r) \<and>
     agrees (fi_entityId f) (au_entityId r) \<and> agrees (fi_action f) (au_action r) \<and>
     (fi_correlationId f = None \<or> au_correlationId r = fi_correlationId f) \<and> agrees (fi_requestId f) (au_requestId r) \<and>
     (case fi_from f of None \<Rightarrow> True | Some t \<Rightarrow> date_parse t \<le> date_parse (au_occurredAt r)) \<and>
     (case fi_to f of None \<Rightarrow> True | Some t \<Rightarrow> date_parse (au_occurredAt r) \<le> date_parse t))"

definition queryAuditTrail :: "audit_record list \<Rightarrow> audit_trail_filter \<Rightarrow> audit_record list result" where
  "queryAuditTrail records f = (let bad = throw ''AUDIT_FILTER_INVALID'';
       unknown = (\<lambda>vocabulary v. case v of None \<Rightarrow> False | Some s \<Rightarrow> s \<notin> set vocabulary);
       not_iso = (\<lambda>v. case v of None \<Rightarrow> False | Some s \<Rightarrow> \<not> isIsoInstant s) in
     if unknown ACTOR_KINDS (fi_actorKind f) then bad
     else if unknown AUDIT_ACTIONS (fi_action f) then bad
     else if not_iso (fi_from f) then bad
     else if not_iso (fi_to f) then bad
     else if (case (fi_from f, fi_to f) of (Some a, Some b) \<Rightarrow> date_parse a > date_parse b | _ \<Rightarrow> False) then bad
     else and_then (traverse assertFilterField
         [fi_orgId f, fi_actorId f, fi_entityType f, fi_entityId f, fi_correlationId f, fi_requestId f]) (\<lambda>_.
       Inr (sort_key (\<lambda>r. (date_parse (au_occurredAt r), au_auditId r)) (filter (passes f) records))))"

section \<open>Redaction leaves no secret\<close>

fun clean :: "js_value \<Rightarrow> bool" where
  "clean (JArray vs) = list_all clean vs"
| "clean (JObject ms) = list_all (\<lambda>(k, m). \<not> isForbiddenKey k \<and> clean m) ms"
| "clean _ = True"

lemma clean_redact [simp]: "clean (redact v)"
  by (induction v rule: redact.induct) (auto simp: list_all_iff)

lemma redact_clean: "clean v \<Longrightarrow> redact v = v"
proof (induction v rule: redact.induct)
  case (1 vs)
  then show ?case by (auto simp: list_all_iff intro: map_idI)
next
  case (2 ms)
  then have "filter (\<lambda>(k, m). \<not> isForbiddenKey k) ms = ms" by (auto simp: list_all_iff intro!: filter_True)
  with 2 show ?case by (auto simp: list_all_iff intro!: map_idI)
qed simp_all

lemma traverse_units: "and_then (traverse f xs) (\<lambda>_. Inr ()) = Inr () \<longleftrightarrow> (\<forall>x \<in> set xs. f x = Inr ())"
  for f :: "'a \<Rightarrow> unit result"
  by (induction xs) (auto simp: result_simps)

lemma validate_JArray:
  "validateSnapshotShape d (JArray vs) = Inr () \<longleftrightarrow> d \<le> MAX_SNAPSHOT_DEPTH \<and> (\<forall>v \<in> set vs. validateSnapshotShape (d + 1) v = Inr ())"
  by (subst validateSnapshotShape.simps) (simp add: snapshot_invalid_def traverse_units not_less)

lemma validate_JObject:
  "validateSnapshotShape d (JObject ms) = Inr () \<longleftrightarrow> d \<le> MAX_SNAPSHOT_DEPTH \<and> (\<forall>m \<in> set ms. validateSnapshotShape (d + 1) (snd m) = Inr ())"
  by (subst validateSnapshotShape.simps) (simp add: snapshot_invalid_def traverse_units not_less)

lemma validate_redact: "validateSnapshotShape d v = Inr () \<Longrightarrow> validateSnapshotShape d (redact v) = Inr ()"
proof (induction v arbitrary: d rule: redact.induct)
  case (1 vs)
  then show ?case by (simp add: validate_JArray)
next
  case (2 ms)
  then show ?case by (force simp: validate_JObject)
qed simp_all

lemma redactSnapshot_Inr: "redactSnapshot v = Inr w \<longleftrightarrow> validateSnapshotShape 0 v = Inr () \<and> w = redact v"
  by (auto simp: redactSnapshot_def result_simps)

lemma assertSnapshot_Inr: "assertSnapshot v = Inr w \<longleftrightarrow> (\<exists>ms. v = JObject ms) \<and> validateSnapshotShape 0 v = Inr () \<and> w = v"
  by (cases v) (auto simp: result_simps snapshot_invalid_def validateSnapshotShape.simps[of 0 "JInstance _"] split: if_splits)

lemma redacted_snapshot_Inr:
  "redacted_snapshot v = Inr w \<longleftrightarrow> (\<exists>ms. v = JObject ms) \<and> validateSnapshotShape 0 v = Inr () \<and> w = redact v"
  by (auto simp: redacted_snapshot_def result_simps assertSnapshot_Inr redactSnapshot_Inr)

lemma when_given_Inr:
  "when_given f x = Inr y \<longleftrightarrow> (case x of None \<Rightarrow> y = None | Some v \<Rightarrow> \<exists>w. f v = Inr w \<and> y = Some w)"
  by (cases x) (auto simp: result_simps)

declare when_given.simps [simp del]

text \<open>A redacted snapshot passes the gates again and stays as it is.\<close>

lemma redacted_again:
  assumes "when_given redacted_snapshot x = Inr y"
  shows "when_given redacted_snapshot y = Inr y \<and> when_given redactSnapshot y = Inr y \<and> pred_option clean y"
proof (cases x)
  case (Some v)
  with assms obtain ms where "v = JObject ms" "validateSnapshotShape 0 v = Inr ()" "y = Some (redact v)"
    by (auto simp: when_given_Inr redacted_snapshot_Inr)
  moreover from this have "\<exists>ms'. redact v = JObject ms'" by simp
  ultimately show ?thesis
    using validate_redact[of 0 v] redact_clean[OF clean_redact, of v]
    by (simp add: when_given_Inr redacted_snapshot_Inr redactSnapshot_Inr del: redact.simps)
qed (use assms in \<open>simp add: when_given_Inr\<close>)

section \<open>Chained trails\<close>

definition redacted_record :: "audit_record \<Rightarrow> audit_record result" where
  "redacted_record r = and_then (when_given redactSnapshot (au_previousState r)) (\<lambda>previousState.
     and_then (when_given redactSnapshot (au_newState r)) (\<lambda>newState.
       Inr (r\<lparr>au_previousState := previousState, au_newState := newState\<rparr>)))"

definition linked :: "(string \<Rightarrow> string) \<Rightarrow> audit_record option \<Rightarrow> audit_record \<Rightarrow> bool" where
  "linked hash before r \<longleftrightarrow> au_recordHash r \<noteq> [] \<and> length (au_recordHash r) \<le> 256 \<and>
     au_prevRecordHash r = map_option au_recordHash before \<and>
     (\<exists>q. redacted_record r = Inr q \<and> chainHash (au_prevRecordHash r) q hash = Inr (au_recordHash r))"

fun chained :: "(string \<Rightarrow> string) \<Rightarrow> audit_record option \<Rightarrow> audit_record list \<Rightarrow> bool" where
  "chained hash before [] = True"
| "chained hash before (r # rs) = (linked hash before r \<and> chained hash (Some r) rs)"

lemma verify_at_None: "verify_at hash i before r = Inr None \<longleftrightarrow> linked hash before r"
  by (cases before) (auto simp: verify_at_def linked_def redacted_record_def result_simps not_less split: if_splits)

lemma verify_from_None: "verify_from hash i before rs = Inr None \<longleftrightarrow> chained hash before rs"
proof (induction rs arbitrary: i before)
  case (Cons r rs)
  then show ?case by (auto simp: result_simps verify_at_None[symmetric, of _ _ _ i] split: option.splits)
qed simp

lemma verify_from_Some: "verify_from hash i before rs = Inr (Some v) \<Longrightarrow> \<exists>j b. v = Chain_Broken j b"
proof (induction rs arbitrary: i before)
  case (Cons r rs)
  then show ?case by (auto simp: result_simps verify_at_def split: option.splits if_splits)
qed simp

lemma verifyChain_ok:
  "verifyChain rs hash e = Inr (Chain_Ok n h) \<longleftrightarrow> chained hash None rs \<and> n = length rs \<and> h = headHash rs \<and>
     (\<forall>k. ce_length e = Some k \<longrightarrow> k = Fin (of_nat (length rs))) \<and> (\<forall>k. ce_headHash e = Some k \<longrightarrow> h = Some k)"
proof -
  have int: "is_integer_num (Fin (of_nat m)) \<and> \<not> js_neg (Fin (of_nat m))" for m
    using of_int_floor_cancel[of "of_nat m :: rat"] by simp
  show ?thesis
    unfolding verifyChain_def verify_from_None[symmetric, of _ _ _ 0]
    by (auto simp: result_simps int dest: verify_from_Some split: option.splits if_splits)
qed

lemma chained_snoc:
  "chained hash before (rs @ [r]) \<longleftrightarrow> chained hash before rs \<and> linked hash (if rs = [] then before else Some (last rs)) r"
  by (induction rs arbitrary: before) auto

section \<open>Appending keeps the chain\<close>

definition trail_head :: "audit_sink \<Rightarrow> audit_record option" where
  "trail_head sink = (if sk_trail sink = [] then None else Some (last (sk_trail sink)))"

definition snapshots_clean :: "audit_record \<Rightarrow> bool" where
  "snapshots_clean r \<longleftrightarrow> pred_option clean (au_previousState r) \<and> pred_option clean (au_newState r)"

text \<open>What the sink stores, and what it keeps.\<close>

definition sink_ok :: "audit_sink \<Rightarrow> bool" where
  "sink_ok sink \<longleftrightarrow> sk_seenIds sink = au_auditId ` set (sk_trail sink) \<and> distinct (map au_auditId (sk_trail sink)) \<and>
     list_all snapshots_clean (sk_trail sink)"

lemma sink_append_facts:
  assumes "sink_append sink r now = Inr (sink', stored)"
  shows "assertRecordShape r = Inr () \<and> au_auditId r \<notin> sk_seenIds sink \<and> date_parse (au_occurredAt r) \<le> now \<and>
    sk_trail sink' = sk_trail sink @ [stored] \<and> sk_seenIds sink' = insert (au_auditId r) (sk_seenIds sink) \<and>
    (\<exists>ps ns. when_given redacted_snapshot (au_previousState r) = Inr ps \<and> when_given redacted_snapshot (au_newState r) = Inr ns \<and>
       stored = r\<lparr>au_previousState := ps, au_newState := ns\<rparr>)"
  using assms by (auto simp: sink_append_def result_simps Let_def)

lemma sink_append_ok: "sink_append sink r now = Inr (sink', stored) \<Longrightarrow> sink_ok sink \<Longrightarrow> sink_ok sink'"
  by (drule sink_append_facts) (auto simp: sink_ok_def snapshots_clean_def dest: redacted_again)

definition sink_step :: "audit_sink \<Rightarrow> audit_record \<times> date \<Rightarrow> audit_sink result" where
  "sink_step sink c = and_then (sink_append sink (fst c) (snd c)) (\<lambda>x. Inr (fst x))"

definition extends_trail :: "audit_record list \<Rightarrow> audit_sink \<Rightarrow> bool" where
  "extends_trail old sink \<longleftrightarrow> sink_ok sink \<and> (\<exists>new. sk_trail sink = old @ new)"

interpretation audit_store: guarded_machine sink_step "extends_trail old" "\<lambda>_. True" for old
proof
  fix s c s'
  assume "extends_trail old s" and "sink_step s c = Inr s'"
  moreover from this obtain stored where "sink_append s (fst c) (snd c) = Inr (s', stored)"
    by (auto simp: sink_step_def result_simps)
  ultimately show "extends_trail old s'"
    using sink_append_ok sink_append_facts by (fastforce simp: extends_trail_def)
qed

lemma buildAuditDraft_snapshots:
  assumes "buildAuditDraft input clk = Inr d"
  shows "\<exists>x y. when_given redacted_snapshot x = Inr (au_previousState d) \<and> when_given redacted_snapshot y = Inr (au_newState d)"
  using assms by (auto simp: buildAuditDraft_def Let_def result_simps)

lemma useHash_Inr: "useHash hash input = Inr h \<longleftrightarrow> h = hash input \<and> h \<noteq> [] \<and> length h \<le> 256"
  by (auto simp: useHash_def Let_def)

lemma with_chain_select [simp]:
  "au_previousState (with_chain d p h) = au_previousState d" "au_newState (with_chain d p h) = au_newState d"
  "au_prevRecordHash (with_chain d p h) = p" "au_recordHash (with_chain d p h) = h"
  by (cases d, simp add: with_chain_def audit_draft.defs)+

text \<open>The hash leaves itself out.\<close>

lemma canonicalAuditRecord_hash: "canonicalAuditRecord (with_chain d p h) = canonicalAuditRecord (with_chain d p h')"
  by (cases d) (simp add: canonicalAuditRecord_def record_json_def with_chain_def audit_draft.defs)

lemma record_update_same: "r\<lparr>au_previousState := au_previousState r, au_newState := au_newState r\<rparr> = (r :: audit_record)"
  by simp

lemma appendAuditRecord_links:
  assumes "appendAuditRecord sink hash prev input clk now = Inr (sink', stored, e)"
  shows "sk_trail sink' = sk_trail sink @ [stored] \<and> linked hash prev stored \<and> (\<exists>r. sink_append sink r now = Inr (sink', stored))"
proof -
  from assms obtain d p h where d: "buildAuditDraft input (clock_after 1 clk) = Inr d"
    and p: "when_given (\<lambda>p. assertHashString (au_recordHash p)) prev = Inr p"
    and h: "chainHash p (with_chain d p []) hash = Inr h"
    and app: "sink_append sink (with_chain d p h) now = Inr (sink', stored)"
    by (auto simp: appendAuditRecord_def result_simps Let_def split: prod.splits)
  from buildAuditDraft_snapshots[OF d] obtain x y where
    snaps: "when_given redacted_snapshot x = Inr (au_previousState d)" "when_given redacted_snapshot y = Inr (au_newState d)" by blast
  note again = redacted_again[OF snaps(1)] redacted_again[OF snaps(2)]
  from sink_append_facts[OF app] again have stored: "stored = with_chain d p h" "sk_trail sink' = sk_trail sink @ [stored]"
    by (auto simp: record_update_same)
  have "p = map_option au_recordHash prev"
    using p by (cases prev) (auto simp: when_given_Inr assertHashString_def split: if_splits)
  moreover have "redacted_record stored = Inr stored"
    using again by (simp add: redacted_record_def stored(1) record_update_same)
  moreover have "chainHash p stored hash = Inr h" "h \<noteq> []" "length h \<le> 256"
    using h canonicalAuditRecord_hash[of d p h "[]"] by (auto simp: chainHash_def stored(1) result_simps useHash_Inr)
  ultimately show ?thesis using stored app by (auto simp: linked_def)
qed

text \<open>The application appends each record on the head of the trail.\<close>

definition trail_step ::
  "(string \<Rightarrow> string) \<Rightarrow> audit_sink \<Rightarrow> append_audit_input \<times> clock \<times> date \<Rightarrow> audit_sink result" where
  "trail_step hash sink c = (case c of (input, clk, now) \<Rightarrow>
     and_then (appendAuditRecord sink hash (trail_head sink) input clk now) (\<lambda>x. Inr (fst x)))"

interpretation audit_chain: guarded_machine "trail_step hash"
  "\<lambda>sink. sink_ok sink \<and> chained hash None (sk_trail sink)" "\<lambda>_. True" for hash
proof
  fix s c s'
  assume ok: "sink_ok s \<and> chained hash None (sk_trail s)" and "trail_step hash s c = Inr s'"
  then obtain input clk now stored e where "appendAuditRecord s hash (trail_head s) input clk now = Inr (s', stored, e)"
    by (auto simp: trail_step_def result_simps split: prod.splits)
  from appendAuditRecord_links[OF this] ok show "sink_ok s' \<and> chained hash None (sk_trail s')"
    by (auto simp: chained_snoc trail_head_def dest: sink_append_ok)
qed

section \<open>Tampering\<close>

text \<open>The texts the port hashes when it verifies a trail, and what the trail attests of a record.\<close>

definition attested :: "audit_record \<Rightarrow> string result" where
  "attested r = and_then (redacted_record r) canonicalAuditRecord"

definition hashed_texts :: "audit_record list \<Rightarrow> string set" where
  "hashed_texts rs = {prev_text (au_prevRecordHash r) @ t |r t. r \<in> set rs \<and> attested r = Inr t}"

lemma linked_hash:
  assumes "linked hash before r"
  shows "\<exists>t. attested r = Inr t \<and> au_recordHash r = hash (prev_text (map_option au_recordHash before) @ t) \<and>
    au_prevRecordHash r = map_option au_recordHash before"
  using assms by (auto simp: linked_def attested_def chainHash_def result_simps useHash_Inr)

lemma chained_hash_length:
  assumes "chained hash before rs" and "\<And>x. length (hash x) = 64" and "r \<in> set rs"
  shows "length (au_recordHash r) = 64"
  using assms(1,3)
proof (induction rs arbitrary: before)
  case (Cons q rs)
  then show ?case using linked_hash[of hash before q] assms(2) by auto
qed simp

lemma chained_unique:
  assumes len: "\<And>x. length (hash x) = 64" and inj: "inj_on hash (hashed_texts rs \<union> hashed_texts rs')"
    and "chained hash None rs" "chained hash None rs'" and "length rs = length rs'" and "headHash rs = headHash rs'"
  shows "map attested rs = map attested rs' \<and> map au_recordHash rs = map au_recordHash rs'"
  using assms(2-)
proof (induction rs arbitrary: rs' rule: rev_induct)
  case (snoc r rs)
  from snoc.prems(4) obtain ys q where rs': "rs' = ys @ [q]" "length rs = length ys" by (cases rs' rule: rev_cases) auto
  let ?b = "if rs = [] then None else Some (last rs)" and ?c = "if ys = [] then None else Some (last ys)"
  from snoc.prems(2,3) rs' have ch: "chained hash None rs" "linked hash ?b r" "chained hash None ys" "linked hash ?c q"
    by (simp_all add: chained_snoc)
  from linked_hash[OF ch(2)] obtain t where t: "attested r = Inr t" "au_prevRecordHash r = map_option au_recordHash ?b"
    "au_recordHash r = hash (prev_text (map_option au_recordHash ?b) @ t)" by blast
  from linked_hash[OF ch(4)] obtain u where u: "attested q = Inr u" "au_prevRecordHash q = map_option au_recordHash ?c"
    "au_recordHash q = hash (prev_text (map_option au_recordHash ?c) @ u)" by blast
  have head: "au_recordHash r = au_recordHash q" using snoc.prems(5) rs' by (simp add: headHash_def)
  have "prev_text (au_prevRecordHash r) @ t \<in> hashed_texts (rs @ [r])" "prev_text (au_prevRecordHash q) @ u \<in> hashed_texts rs'"
    using t(1) u(1) rs' unfolding hashed_texts_def by auto
  with snoc.prems(1) head t u have eq: "prev_text (map_option au_recordHash ?b) @ t = prev_text (map_option au_recordHash ?c) @ u"
    by (auto simp del: map_option_eq_Some dest: inj_onD)
  have "length (prev_text (map_option au_recordHash ?b)) = 64" "length (prev_text (map_option au_recordHash ?c)) = 64"
    using chained_hash_length[OF ch(1) len] chained_hash_length[OF ch(3) len] by (simp_all add: prev_text_def GENESIS_PREV_HASH_def)
  with eq have same: "t = u" "prev_text (map_option au_recordHash ?b) = prev_text (map_option au_recordHash ?c)" by simp_all
  have "headHash rs = headHash ys" using same(2) rs'(2) by (auto simp: headHash_def prev_text_def split: if_splits)
  moreover have "inj_on hash (hashed_texts rs \<union> hashed_texts ys)"
    by (rule inj_on_subset[OF snoc.prems(1)]) (auto simp: hashed_texts_def rs')
  ultimately show ?case using snoc.IH[OF _ ch(1,3) rs'(2)] t u same head rs' by simp
qed simp

section \<open>Properties of the audit trail\<close>

text \<open>
  C34. The chain always closes: whatever is appended through the append path, accepted or refused,
  and whatever the hash port returns, the stored trail verifies from its genesis to its head.
\<close>

theorem audit_trail_verifies:
  "verifyChain (sk_trail (drive (trail_step hash) createInMemoryAuditSink cmds)) hash \<lparr>ce_length = None, ce_headHash = None\<rparr> =
     Inr (Chain_Ok (length (sk_trail (drive (trail_step hash) createInMemoryAuditSink cmds)))
       (headHash (sk_trail (drive (trail_step hash) createInMemoryAuditSink cmds))))"
proof -
  have "sink_ok createInMemoryAuditSink \<and> chained hash None (sk_trail createInMemoryAuditSink)"
    by (simp add: sink_ok_def createInMemoryAuditSink_def)
  from audit_chain.drive_inv[OF this, of cmds] show ?thesis by (simp add: verifyChain_ok)
qed

text \<open>
  C10. Tampering is evident: against the length and the head hash anchored from a verified trail,
  no other trail verifies unless it attests the same canonical text and the same hash at every
  position. The port returns hashes of the length of the genesis anchor, as SHA-256 in
  hexadecimal does, and does not collide on the texts of the two trails.
\<close>

theorem audit_tamper_evident:
  assumes "\<And>x. length (hash x) = 64" and "inj_on hash (hashed_texts rs \<union> hashed_texts rs')"
    and "verifyChain rs hash \<lparr>ce_length = None, ce_headHash = None\<rparr> = Inr (Chain_Ok n (Some h))"
    and "verifyChain rs' hash \<lparr>ce_length = Some (Fin (of_nat n)), ce_headHash = Some h\<rparr> = Inr (Chain_Ok m h')"
  shows "map attested rs' = map attested rs \<and> map au_recordHash rs' = map au_recordHash rs"
proof -
  from assms(3,4) have "chained hash None rs" "chained hash None rs'" "length rs = length rs'" "headHash rs = headHash rs'"
    unfolding verifyChain_ok by (simp_all, metis)
  from chained_unique[OF assms(1,2) this] show ?thesis by simp
qed

definition sample_hash :: "string \<Rightarrow> string" where
  "sample_hash x = replicate 64 (CHR ''a'')"

definition sample_audit :: audit_record where
  "sample_audit = \<lparr>au_auditId = ''a1'', au_orgId = ''org'', au_actor = \<lparr>ac_kind = ''user'', ac_id = ''u'', ac_orgId = Some ''org''\<rparr>,
     au_action = ''refund'', au_entityType = ''payment'', au_entityId = ''p'', au_occurredAt = ''2024-05-01T00:00:00Z'',
     au_requestId = ''q'', au_correlationId = None, au_ip = None, au_userAgent = None, au_previousState = None,
     au_newState = None, au_reason = Some ''goodwill'', au_approval = None, au_aiContext = None,
     au_prevRecordHash = None, au_recordHash = replicate 64 (CHR ''a'')\<rparr>"

lemma sample_audit_canonical: "\<exists>t. canonicalAuditRecord sample_audit = Inr t"
proof -
  have "isl (canonicalAuditRecord sample_audit) = False" by code_simp
  then show ?thesis by (cases "canonicalAuditRecord sample_audit") auto
qed

lemma sample_audit_chained: "chained sample_hash None [sample_audit]"
proof -
  have "redacted_record sample_audit = Inr sample_audit"
    by (simp add: redacted_record_def when_given_Inr result_simps) (simp add: sample_audit_def when_given.simps)
  moreover obtain t where "canonicalAuditRecord sample_audit = Inr t" using sample_audit_canonical ..
  ultimately show ?thesis
    by (simp add: linked_def chainHash_def useHash_def sample_hash_def) (simp add: sample_audit_def)
qed

theorem audit_tamper_evident_witness:
  "\<exists>n h. verifyChain [sample_audit] sample_hash \<lparr>ce_length = None, ce_headHash = None\<rparr> = Inr (Chain_Ok n (Some h)) \<and>
     verifyChain [sample_audit] sample_hash \<lparr>ce_length = Some (Fin (of_nat n)), ce_headHash = Some h\<rparr> = Inr (Chain_Ok n (Some h)) \<and>
     map attested [sample_audit] = map attested [sample_audit]"
proof -
  have ok: "verifyChain [sample_audit] sample_hash \<lparr>ce_length = None, ce_headHash = None\<rparr> = Inr (Chain_Ok 1 (Some (au_recordHash sample_audit)))"
    "verifyChain [sample_audit] sample_hash \<lparr>ce_length = Some (Fin (of_nat 1)), ce_headHash = Some (au_recordHash sample_audit)\<rparr> =
      Inr (Chain_Ok 1 (Some (au_recordHash sample_audit)))"
    using sample_audit_chained by (simp_all add: verifyChain_ok headHash_def)
  have "inj_on sample_hash (hashed_texts [sample_audit] \<union> hashed_texts [sample_audit])"
    by (auto simp: inj_on_def hashed_texts_def)
  from audit_tamper_evident[OF _ this ok] ok show ?thesis by (auto simp: sample_hash_def)
qed

text \<open>
  C35. No secret reaches the trail: whatever records are handed to the sink, also around the
  builder, no stored snapshot has a forbidden key at any depth; audit ids are unique, and a trail
  only grows.
\<close>

theorem audit_no_secrets:
  "let sink = drive sink_step createInMemoryAuditSink cmds in
    list_all snapshots_clean (sk_trail sink) \<and> distinct (map au_auditId (sk_trail sink)) \<and>
    (\<exists>new. sk_trail (drive sink_step sink more_cmds) = sk_trail sink @ new)"
proof -
  define sink where "sink = drive sink_step createInMemoryAuditSink cmds"
  have start: "extends_trail [] sink" unfolding sink_def
    by (rule audit_store.drive_inv) (simp_all add: extends_trail_def sink_ok_def createInMemoryAuditSink_def)
  then have "extends_trail (sk_trail sink) sink" by (simp add: extends_trail_def)
  from audit_store.drive_inv[OF this, of more_cmds] start show ?thesis
    by (auto simp: extends_trail_def sink_ok_def Let_def simp flip: sink_def)
qed

text \<open>The read model returns exactly the records that pass, in the order of their instants and ids.\<close>

lemma queryAuditTrail_sound:
  assumes "queryAuditTrail records f = Inr rows"
  shows "mset rows = mset (filter (passes f) records) \<and>
    sorted (map (\<lambda>r. (date_parse (au_occurredAt r), au_auditId r)) rows)"
proof -
  from assms have "rows = sort_key (\<lambda>r. (date_parse (au_occurredAt r), au_auditId r)) (filter (passes f) records)"
    by (auto simp: queryAuditTrail_def Let_def result_simps split: if_splits)
  then show ?thesis by simp
qed

end
