(* ===== verification/Webhook_Endpoint.thy ===== *)
theory Webhook_Endpoint
  imports Outbox Js_Text Ids
begin

text \<open>
  Webhook endpoints (\<open>src/src/domain/webhooks/endpoint.ts\<close>), the grammar of their subscriptions
  (\<open>subscription.ts\<close>) and the events of the lane (\<open>events.ts\<close>). The secret generator and the
  secret hash are injected: the generated secret and the hash function are arguments.
\<close>

section \<open>Subscriptions\<close>

definition KNOWN_EVENT_PREFIXES :: "string list" where
  "KNOWN_EVENT_PREFIXES = [''adjustment'', ''adjustments'', ''agent'', ''allocation'', ''behavior'', ''case'', ''collections'',
     ''comms'', ''consent'', ''dispute'', ''dunning'', ''fx'', ''intelligence'', ''invoicing'', ''ledger'', ''memory'', ''nba'',
     ''notifications'', ''payment'', ''paymentlink'', ''payments'', ''policy'', ''projections'', ''promise'', ''receivable'',
     ''receivables'', ''reconciliation'', ''segment'']"

datatype subscription_mode = Exact | Wildcard

record event_subscription =
  es_pattern :: string
  es_mode :: subscription_mode
  es_addedAt :: date

definition PATTERN_SEGMENT :: "string \<Rightarrow> bool" where
  "PATTERN_SEGMENT s \<longleftrightarrow> (case s of [] \<Rightarrow> False | c # cs \<Rightarrow> is_lower c \<and> list_all is_name_char cs)"

text \<open>\<open>pattern.split('.')\<close>\<close>

fun split_dots :: "string \<Rightarrow> string list" where
  "split_dots [] = [[]]"
| "split_dots (c # s) = (if c = CHR ''.'' then [] # split_dots s else (c # hd (split_dots s)) # tl (split_dots s))"

definition parseSubscriptionPattern :: "string \<Rightarrow> subscription_mode result" where
  "parseSubscriptionPattern pattern =
     (if pattern = [] then throw ''WEBHOOK_SUBSCRIPTION_MALFORMED''
      else case split_dots pattern of
        [prefix, tail] \<Rightarrow>
          if \<not> PATTERN_SEGMENT prefix then throw ''WEBHOOK_SUBSCRIPTION_MALFORMED''
          else if tail = ''*'' then
            (if prefix \<notin> set KNOWN_EVENT_PREFIXES then throw ''WEBHOOK_EVENT_PREFIX_UNKNOWN'' else Inr Wildcard)
          else if \<not> PATTERN_SEGMENT tail then throw ''WEBHOOK_SUBSCRIPTION_MALFORMED''
          else if prefix \<notin> set KNOWN_EVENT_PREFIXES then throw ''WEBHOOK_EVENT_PREFIX_UNKNOWN'' else Inr Exact
      | _ \<Rightarrow> throw ''WEBHOOK_SUBSCRIPTION_MALFORMED'')"

definition matchesSubscription :: "string \<Rightarrow> string \<Rightarrow> bool" where
  "matchesSubscription pattern eventType \<longleftrightarrow> EVENT_NAME_PATTERN eventType \<and>
     (if ends_with pattern ''.*'' then take (length pattern - 2) pattern = takeWhile (\<lambda>c. c \<noteq> CHR ''.'') eventType
      else pattern = eventType)"

section \<open>Target URLs\<close>

definition is_letter :: "char \<Rightarrow> bool" where
  "is_letter c \<longleftrightarrow> is_lower (to_lower c)"

definition scheme_char :: "char \<Rightarrow> bool" where
  "scheme_char c \<longleftrightarrow> is_letter c \<or> is_digit c \<or> c \<in> set ''+.-''"

definition authority_char :: "char \<Rightarrow> bool" where
  "authority_char c \<longleftrightarrow> c \<notin> set ''/?#''"

text \<open>\<open>/^([a-z][a-z0-9+.-]*):\/\//i\<close>: the scheme and what follows.\<close>

definition url_scheme :: "string \<Rightarrow> (string \<times> string) option" where
  "url_scheme raw = (let scheme = takeWhile scheme_char raw; rest = drop (length scheme) raw in
     if scheme \<noteq> [] \<and> is_letter (hd scheme) \<and> starts_with rest ''://'' then Some (scheme, drop 3 rest) else None)"

definition PORT_PATTERN :: "string \<Rightarrow> bool" where
  "PORT_PATTERN s \<longleftrightarrow> 1 \<le> length s \<and> length s \<le> 5 \<and> list_all is_digit s"

definition isForbiddenHost :: "string \<Rightarrow> bool" where
  "isForbiddenHost host \<longleftrightarrow> host = ''localhost'' \<or> ends_with host ''.localhost'' \<or> starts_with host ''127.'' \<or>
     host = ''0.0.0.0'' \<or> starts_with host ''169.254.'' \<or> host = ''::1'' \<or> host = ''0:0:0:0:0:0:0:1''"

text \<open>The host of an authority in brackets, and of any other.\<close>

definition ipv6_host :: "string \<Rightarrow> string result" where
  "ipv6_host authority = (let bad = throw ''WEBHOOK_URL_MALFORMED'' in
     if CHR '']'' \<notin> set authority then bad
     else let host = map to_lower (tl (takeWhile (\<lambda>c. c \<noteq> CHR '']'') authority));
              after = tl (dropWhile (\<lambda>c. c \<noteq> CHR '']'') authority) in
       if after \<noteq> [] \<and> \<not> PORT_PATTERN (tl after) then bad
       else if host = [] \<or> \<not> list_all (\<lambda>c. is_digit c \<or> c \<in> set ''abcdef:'') host then bad
       else Inr host)"

definition dns_host :: "string \<Rightarrow> string result" where
  "dns_host authority = (let bad = throw ''WEBHOOK_URL_MALFORMED''; has_port = CHR '':'' \<in> set authority;
       port = rev (takeWhile (\<lambda>c. c \<noteq> CHR '':'') (rev authority));
       host = map to_lower (if has_port then take (length authority - length port - 1) authority else authority) in
     if host = [] then bad
     else if \<not> list_all (\<lambda>c. is_lower c \<or> is_digit c \<or> c \<in> set ''.-'') host then bad
     else if has_port \<and> (\<not> PORT_PATTERN port \<or> nat_of_digits port < 1 \<or> nat_of_digits port > 65535) then bad
     else Inr host)"

definition validateWebhookUrl :: "string \<Rightarrow> string result" where
  "validateWebhookUrl raw =
     (if raw = [] then throw ''WEBHOOK_URL_MALFORMED''
      else if length raw > 2048 then throw ''WEBHOOK_URL_TOO_LONG''
      else case url_scheme raw of None \<Rightarrow> throw ''WEBHOOK_URL_MALFORMED''
      | Some (scheme, rest) \<Rightarrow>
          if map to_lower scheme \<noteq> ''https'' then throw ''WEBHOOK_URL_INSECURE''
          else let authority = takeWhile authority_char rest in
            if CHR ''@'' \<in> set authority then throw ''WEBHOOK_URL_MALFORMED''
            else and_then (if starts_with authority ''['' then ipv6_host authority else dns_host authority) (\<lambda>host.
              if isForbiddenHost host then throw ''WEBHOOK_URL_FORBIDDEN_HOST'' else Inr raw))"

section \<open>The endpoint\<close>

datatype endpoint_status = E_Active | E_Paused | E_Revoked

record webhook_endpoint =
  we_endpointId :: uuid
  we_orgId :: uuid
  we_url :: string
  we_label :: string
  we_description :: "string option"
  we_status :: endpoint_status
  we_secretRef :: string
  we_subscriptions :: "event_subscription list"
  we_createdAt :: date
  we_pausedAt :: "date option"
  we_resumedAt :: "date option"
  we_revokedAt :: "date option"

record register_endpoint_command =
  re_cmdOrgId :: uuid
  re_url :: string
  re_label :: string
  re_description :: "string option"
  re_endpointId :: "uuid option"

datatype refusal_reason = ENDPOINT_PAUSED | ENDPOINT_REVOKED | NOT_SUBSCRIBED | PAYLOAD_TOO_LARGE

datatype reject_reason = Mismatch | Stale_Timestamp | Malformed

datatype webhook_payload =
    EndpointRegistered uuid uuid string string "string option" string
  | EndpointPaused uuid uuid string
  | EndpointResumed uuid uuid
  | EndpointRevoked uuid uuid string
  | SubscriptionAdded uuid uuid string subscription_mode
  | DeliveryQueued uuid uuid uuid uuid string
  | DeliverySucceeded uuid uuid uuid uuid string nat
  | DeliveryFailed uuid uuid uuid uuid nat string bool "string option"
  | DeliveryDeadLettered uuid uuid uuid uuid nat string
  | DeliveryRefused uuid uuid uuid string refusal_reason
  | SignatureRejected uuid uuid reject_reason bool

type_synonym webhook_event = "(webhook_payload, string) domain_event"

definition webhook_emit :: "string \<Rightarrow> uuid \<Rightarrow> webhook_payload \<Rightarrow> date \<Rightarrow> webhook_event" where
  "webhook_emit name aggregateId payload now =
     \<lparr>ev_name = name, ev_version = 1, ev_aggregateId = aggregateId, ev_payload = payload, ev_occurredAt = toISOString now\<rparr>"

definition assertLabel :: "string \<Rightarrow> string result" where
  "assertLabel label = (if trim label = [] then throw ''WEBHOOK_LABEL_REQUIRED''
     else if length label > 120 then throw ''WEBHOOK_LABEL_TOO_LONG'' else Inr label)"

definition assertDescription :: "string option \<Rightarrow> string option result" where
  "assertDescription description = (case description of None \<Rightarrow> Inr None
     | Some d \<Rightarrow> if length d > 500 then throw ''WEBHOOK_DESCRIPTION_TOO_LONG'' else Inr (Some d))"

definition url_safe :: "char \<Rightarrow> bool" where
  "url_safe c \<longleftrightarrow> is_letter c \<or> is_digit c \<or> c \<in> set ''_-''"

definition registerEndpoint ::
  "register_endpoint_command \<Rightarrow> string \<Rightarrow> (string \<Rightarrow> string) \<Rightarrow> clock \<Rightarrow> (webhook_endpoint \<times> string \<times> webhook_event) result" where
  "registerEndpoint cmd secret hashSecret clk =
     and_then (validateWebhookUrl (re_url cmd)) (\<lambda>url.
     and_then (assertLabel (re_label cmd)) (\<lambda>label.
     and_then (assertDescription (re_description cmd)) (\<lambda>description.
       if \<not> (32 \<le> length secret \<and> length secret \<le> 128 \<and> list_all url_safe secret) then throw ''WEBHOOK_SECRET_MALFORMED''
       else let secretRef = hashSecret secret in
         if \<not> (8 \<le> length secretRef \<and> length secretRef \<le> 128 \<and> list_all url_safe secretRef)
         then throw ''WEBHOOK_SECRET_REF_MALFORMED''
         else if secretRef = secret then throw ''WEBHOOK_HASH_NOT_IRREVERSIBLE''
         else and_then (case re_endpointId cmd of Some i \<Rightarrow> Inr i
             | None \<Rightarrow> uuidFromSeed (''webhook-endpoint:'' @ re_cmdOrgId cmd @ '':'' @ url @ '':'' @ label)) (\<lambda>endpointId.
           Inr (\<lparr>we_endpointId = endpointId, we_orgId = re_cmdOrgId cmd, we_url = url, we_label = label,
                 we_description = description, we_status = E_Active, we_secretRef = secretRef, we_subscriptions = [],
                 we_createdAt = clk 0, we_pausedAt = None, we_resumedAt = None, we_revokedAt = None\<rparr>,
               secret,
               webhook_emit ''webhook.endpointRegistered'' endpointId
                 (EndpointRegistered endpointId (re_cmdOrgId cmd) url label description secretRef) (clk 1))))))"

definition requireReason :: "string \<Rightarrow> string result" where
  "requireReason reason = (if trim reason = [] then throw ''WEBHOOK_REASON_REQUIRED'' else Inr (trim reason))"

definition pauseEndpoint :: "webhook_endpoint \<Rightarrow> string \<Rightarrow> clock \<Rightarrow> (webhook_endpoint \<times> webhook_event) result" where
  "pauseEndpoint endpoint reason clk =
     (if we_status endpoint \<noteq> E_Active then throw ''WEBHOOK_TRANSITION_INVALID''
      else and_then (requireReason reason) (\<lambda>why.
        Inr (endpoint\<lparr>we_status := E_Paused, we_pausedAt := Some (clk 0)\<rparr>,
          webhook_emit ''webhook.endpointPaused'' (we_endpointId endpoint)
            (EndpointPaused (we_endpointId endpoint) (we_orgId endpoint) why) (clk 1))))"

definition resumeEndpoint :: "webhook_endpoint \<Rightarrow> clock \<Rightarrow> (webhook_endpoint \<times> webhook_event) result" where
  "resumeEndpoint endpoint clk =
     (if we_status endpoint \<noteq> E_Paused then throw ''WEBHOOK_TRANSITION_INVALID''
      else Inr (endpoint\<lparr>we_status := E_Active, we_resumedAt := Some (clk 0)\<rparr>,
        webhook_emit ''webhook.endpointResumed'' (we_endpointId endpoint)
          (EndpointResumed (we_endpointId endpoint) (we_orgId endpoint)) (clk 1)))"

definition revokeEndpoint :: "webhook_endpoint \<Rightarrow> string \<Rightarrow> clock \<Rightarrow> (webhook_endpoint \<times> webhook_event) result" where
  "revokeEndpoint endpoint reason clk =
     (if we_status endpoint = E_Revoked then throw ''WEBHOOK_TRANSITION_INVALID''
      else and_then (requireReason reason) (\<lambda>why.
        Inr (endpoint\<lparr>we_status := E_Revoked, we_revokedAt := Some (clk 0)\<rparr>,
          webhook_emit ''webhook.endpointRevoked'' (we_endpointId endpoint)
            (EndpointRevoked (we_endpointId endpoint) (we_orgId endpoint) why) (clk 1))))"

definition addSubscription :: "webhook_endpoint \<Rightarrow> string \<Rightarrow> clock \<Rightarrow> (webhook_endpoint \<times> webhook_event option) result" where
  "addSubscription endpoint pattern clk = and_then (parseSubscriptionPattern pattern) (\<lambda>mode.
     if list_ex (\<lambda>s. es_pattern s = pattern) (we_subscriptions endpoint) then Inr (endpoint, None)
     else Inr (endpoint\<lparr>we_subscriptions := we_subscriptions endpoint @
           [\<lparr>es_pattern = pattern, es_mode = mode, es_addedAt = clk 0\<rparr>]\<rparr>,
         Some (webhook_emit ''webhook.subscriptionAdded'' (we_endpointId endpoint)
           (SubscriptionAdded (we_endpointId endpoint) (we_orgId endpoint) pattern mode) (clk 1))))"

definition endpointSubscribedTo :: "webhook_endpoint \<Rightarrow> string \<Rightarrow> bool" where
  "endpointSubscribedTo endpoint eventType \<longleftrightarrow>
     list_ex (\<lambda>s. matchesSubscription (es_pattern s) eventType) (we_subscriptions endpoint)"

section \<open>Subscriptions mean what they say\<close>

lemma split_dots_nonempty [simp]: "split_dots s \<noteq> []"
  by (cases s) auto

lemma split_dots_join: "split_dots s = xs \<Longrightarrow> join ''.'' xs = s"
proof (induction s arbitrary: xs)
  case (Cons c s)
  obtain y ys where y: "split_dots s = y # ys" by (cases "split_dots s") auto
  with Cons.IH[OF this] Cons.prems show ?case by (auto simp: join_def)
qed (auto simp: join_def)

lemma split_dots_two: "split_dots s = [p, t] \<Longrightarrow> s = p @ ''.'' @ t"
  using split_dots_join[of s "[p, t]"] by (simp add: join_def)

lemma ends_with_last: "ends_with s p \<Longrightarrow> p \<noteq> [] \<Longrightarrow> last s = last p"
  by (metis Suc_leI diff_less ends_with_def last_drop length_greater_0_conv less_le_trans)

lemma segment_last: "PATTERN_SEGMENT s \<Longrightarrow> s \<noteq> [] \<and> last s \<noteq> CHR ''*''"
proof -
  assume "PATTERN_SEGMENT s"
  then have "s \<noteq> []" "\<forall>c \<in> set s. is_name_char c"
    by (auto simp: PATTERN_SEGMENT_def is_name_char_def list_all_iff split: list.splits)
  moreover have "\<not> is_name_char (CHR ''*'')" by code_simp
  ultimately show ?thesis by (metis last_in_set)
qed

text \<open>
  An accepted wildcard matches exactly the well-formed event types of its context, an accepted
  exact pattern exactly itself.
\<close>

lemma matchesSubscription_meaning:
  assumes "parseSubscriptionPattern pattern = Inr mode"
  shows "matchesSubscription pattern eventType \<longleftrightarrow> EVENT_NAME_PATTERN eventType \<and>
    (case mode of Exact \<Rightarrow> eventType = pattern
     | Wildcard \<Rightarrow> takeWhile (\<lambda>c. c \<noteq> CHR ''.'') eventType @ ''.*'' = pattern)"
proof -
  from assms obtain p t where pt: "split_dots pattern = [p, t]"
    and p: "PATTERN_SEGMENT p" and t: "t = ''*'' \<and> mode = Wildcard \<or> t \<noteq> ''*'' \<and> PATTERN_SEGMENT t \<and> mode = Exact"
    by (auto simp: parseSubscriptionPattern_def split: if_splits list.splits)
  note pat = split_dots_two[OF pt]
  show ?thesis
  proof (cases "t = ''*''")
    case True
    with t pat show ?thesis by (auto simp: matchesSubscription_def ends_with_def)
  next
    case False
    with t have "PATTERN_SEGMENT t" "mode = Exact" by auto
    then have "\<not> ends_with pattern ''.*''"
      using segment_last[of t] ends_with_last[of pattern "''.*''"] by (auto simp: pat)
    with \<open>mode = Exact\<close> show ?thesis by (auto simp: matchesSubscription_def)
  qed
qed

section \<open>The endpoint machine\<close>

datatype endpoint_command = Pause string clock | Resume clock | Revoke string clock | Subscribe string clock

fun endpoint_step :: "webhook_endpoint \<Rightarrow> endpoint_command \<Rightarrow> webhook_endpoint result" where
  "endpoint_step e (Pause reason clk) = and_then (pauseEndpoint e reason clk) (\<lambda>x. Inr (fst x))"
| "endpoint_step e (Resume clk) = and_then (resumeEndpoint e clk) (\<lambda>x. Inr (fst x))"
| "endpoint_step e (Revoke reason clk) = and_then (revokeEndpoint e reason clk) (\<lambda>x. Inr (fst x))"
| "endpoint_step e (Subscribe pattern clk) = and_then (addSubscription e pattern clk) (\<lambda>x. Inr (fst x))"

definition subscriptions_ok :: "webhook_endpoint \<Rightarrow> bool" where
  "subscriptions_ok e \<longleftrightarrow> distinct (map es_pattern (we_subscriptions e)) \<and>
     (\<forall>s \<in> set (we_subscriptions e). parseSubscriptionPattern (es_pattern s) = Inr (es_mode s))"

definition same_endpoint :: "webhook_endpoint \<Rightarrow> webhook_endpoint \<Rightarrow> bool" where
  "same_endpoint e e' \<longleftrightarrow> subscriptions_ok e' \<and> we_endpointId e' = we_endpointId e \<and> we_orgId e' = we_orgId e \<and>
     we_url e' = we_url e \<and> we_secretRef e' = we_secretRef e \<and> (we_status e = E_Revoked \<longrightarrow> we_status e' = E_Revoked)"

interpretation endpoint_machine: guarded_machine endpoint_step "same_endpoint e" "\<lambda>_. True" for e
proof
  fix s c s'
  assume "same_endpoint e s" and "endpoint_step s c = Inr s'"
  then show "same_endpoint e s'"
    by (cases c) (auto simp: same_endpoint_def subscriptions_ok_def pauseEndpoint_def resumeEndpoint_def revokeEndpoint_def
        addSubscription_def requireReason_def result_simps list_ex_iff split: if_splits)
qed

lemma registerEndpoint_facts:
  assumes "registerEndpoint cmd secret hashSecret clk = Inr (e, s, ev)"
  shows "validateWebhookUrl (we_url e) = Inr (we_url e) \<and> we_secretRef e = hashSecret secret \<and> we_secretRef e \<noteq> secret \<and>
    we_status e = E_Active \<and> we_subscriptions e = [] \<and> s = secret \<and>
    (\<exists>i org url label d. ev_payload ev = EndpointRegistered i org url label d (hashSecret secret))"
proof -
  from assms obtain url label d i where u: "validateWebhookUrl (re_url cmd) = Inr url" and r: "hashSecret secret \<noteq> secret" "s = secret"
    and e: "e = \<lparr>we_endpointId = i, we_orgId = re_cmdOrgId cmd, we_url = url, we_label = label, we_description = d,
      we_status = E_Active, we_secretRef = hashSecret secret, we_subscriptions = [], we_createdAt = clk 0,
      we_pausedAt = None, we_resumedAt = None, we_revokedAt = None\<rparr>"
    and p: "ev_payload ev = EndpointRegistered i (re_cmdOrgId cmd) url label d (hashSecret secret)"
    unfolding registerEndpoint_def Let_def webhook_emit_def and_then_Inr_iff guard_Inr_iff by fastforce
  have "url = re_url cmd" using u
    by (auto simp: validateWebhookUrl_def result_simps Let_def split: if_splits option.splits)
  with u r p show ?thesis unfolding e by simp
qed

section \<open>Properties of endpoints\<close>

text \<open>
  An endpoint never carries its secret and keeps its target: after any administration its URL
  is the validated one it was registered with, its secret reference the hash and not the secret,
  its patterns are pairwise distinct and each one parses to its mode, and a revoked endpoint
  stays revoked.
\<close>

theorem endpoint_keeps_target:
  assumes "registerEndpoint cmd secret hashSecret clk = Inr (e, s, ev)" and "e' = drive endpoint_step e cmds"
  shows "validateWebhookUrl (we_url e') = Inr (we_url e') \<and> we_url e' = we_url e \<and> we_secretRef e' = hashSecret secret \<and>
    we_secretRef e' \<noteq> secret \<and> subscriptions_ok e' \<and>
    (we_status e' = E_Revoked \<longrightarrow> we_status (drive endpoint_step e' more_cmds) = E_Revoked)"
proof -
  note reg = registerEndpoint_facts[OF assms(1)]
  then have "same_endpoint e e" by (simp add: same_endpoint_def subscriptions_ok_def)
  from endpoint_machine.drive_inv[OF this, of cmds] have same: "same_endpoint e e'" by (simp add: assms(2))
  then have "same_endpoint e' e'" by (simp add: same_endpoint_def)
  from endpoint_machine.drive_inv[OF this, of more_cmds] same reg show ?thesis by (auto simp: same_endpoint_def)
qed

definition sample_register :: register_endpoint_command where
  "sample_register = \<lparr>re_cmdOrgId = ''org'', re_url = ''https://example.com/hook'', re_label = ''erp'', re_description = None,
     re_endpointId = Some ''e1''\<rparr>"

abbreviation sample_secret :: string where
  "sample_secret \<equiv> replicate 32 (CHR ''k'')"

lemma sample_registration:
  "\<exists>e ev. registerEndpoint sample_register sample_secret (\<lambda>_. ''reference'') clk = Inr (e, sample_secret, ev)"
proof -
  have "validateWebhookUrl (re_url sample_register) = Inr (re_url sample_register)" by code_simp
  moreover have "assertLabel (re_label sample_register) = Inr (re_label sample_register)" by code_simp
  moreover have "list_all url_safe sample_secret" "list_all url_safe ''reference''" by code_simp+
  moreover have "''reference'' \<noteq> sample_secret" by (simp add: replicate_eq_replicate numeral_eq_Suc)
  ultimately show ?thesis by (simp add: registerEndpoint_def Let_def assertDescription_def) (simp add: sample_register_def)
qed

theorem endpoint_keeps_target_witness:
  "\<exists>e s ev. registerEndpoint sample_register sample_secret (\<lambda>_. ''reference'') (\<lambda>_. 0) = Inr (e, s, ev) \<and>
     we_secretRef (drive endpoint_step e [Revoke ''left'' (\<lambda>_. 1)]) = ''reference''"
  using sample_registration[of "\<lambda>_. 0"] endpoint_keeps_target by blast

text \<open>
  The guard against local targets has gaps: the unspecified and a link-local IPv6 address,
  another spelling of the IPv6 loopback address and \<open>localhost\<close> with the root dot are accepted
  as remote hosts.
\<close>

theorem local_targets_accepted:
  "list_all (\<lambda>url. validateWebhookUrl url = Inr url)
     [''https://[::]/hook'', ''https://[fe80::1]/hook'', ''https://[0::1]/hook'', ''https://localhost./hook'']"
  by code_simp

end
