(* ===== verification/Webhook_Delivery.thy ===== *)
theory Webhook_Delivery
  imports Webhook_Endpoint
begin

text \<open>
  Delivery of webhooks (\<open>src/src/domain/webhooks/attempts.ts\<close>): planning against an endpoint,
  the idempotent queue and the attempt lifecycle with its retry ladder. The payload of an event
  belongs to the emitting lane: it is represented by its JSON text.
\<close>

section \<open>The retry ladder\<close>

definition MAX_PAYLOAD_BYTES :: int where "MAX_PAYLOAD_BYTES = 65536"

definition DEFAULT_RETRY_LADDER_MS :: "js_num list" where
  "DEFAULT_RETRY_LADDER_MS = [Fin 30000, Fin 120000, Fin 600000, Fin 1800000, Fin 7200000, Fin 21600000]"

definition assertRetryLadder :: "js_num list \<Rightarrow> int list result" where
  "assertRetryLadder ladder =
     (if ladder = [] then throw ''WEBHOOK_RETRY_LADDER_INVALID''
      else if list_ex (\<lambda>step. \<not> is_safe_integer step \<or> js_nonpos step) ladder then throw ''WEBHOOK_RETRY_LADDER_INVALID''
      else let steps = map int_of_num ladder in
        if list_ex (\<lambda>(a, b). b \<le> a) (zip steps (tl steps)) then throw ''WEBHOOK_RETRY_LADDER_INVALID'' else Inr steps)"

section \<open>Planning\<close>

record outbound_event =
  oe_eventId :: uuid
  oe_eventType :: string
  oe_payload :: "string option"

record delivery_plan =
  dp_endpointId :: uuid
  dp_orgId :: uuid
  dp_eventId :: uuid
  dp_eventType :: string
  dp_canonicalPayload :: string
  dp_plannedAt :: date

datatype plan_result = Planned delivery_plan | Plan_Refused refusal_reason webhook_event

text \<open>\<open>JSON.stringify({name, version: 1, aggregateId, orgId, occurredAt, payload})\<close>\<close>

definition canonicalEnvelope :: "outbound_event \<Rightarrow> uuid \<Rightarrow> string \<Rightarrow> string" where
  "canonicalEnvelope event orgId occurredAt = (let member = (\<lambda>key text. json_quote key @ '':'' @ text) in
     ''{'' @ join '','' ([member ''name'' (json_quote (oe_eventType event)), member ''version'' ''1'',
       member ''aggregateId'' (json_quote (oe_eventId event)), member ''orgId'' (json_quote orgId),
       member ''occurredAt'' (json_quote occurredAt)] @
       (case oe_payload event of None \<Rightarrow> [] | Some text \<Rightarrow> [member ''payload'' text])) @ ''}'')"

definition planDelivery :: "outbound_event \<Rightarrow> webhook_endpoint \<Rightarrow> clock \<Rightarrow> int option \<Rightarrow> plan_result result" where
  "planDelivery event endpoint clk maxPayloadBytes =
     (let refuse = (\<lambda>reason now. Inr (Plan_Refused reason (webhook_emit ''webhook.deliveryRefused'' (we_endpointId endpoint)
            (DeliveryRefused (we_orgId endpoint) (we_endpointId endpoint) (oe_eventId event) (oe_eventType event) reason) now))) in
      if oe_eventId event = [] \<or> oe_eventType event = [] \<or> oe_payload event = None then throw ''WEBHOOK_EVENT_MALFORMED''
      else if we_status endpoint = E_Revoked then refuse ENDPOINT_REVOKED (clk 0)
      else if we_status endpoint = E_Paused then refuse ENDPOINT_PAUSED (clk 0)
      else if \<not> endpointSubscribedTo endpoint (oe_eventType event) then refuse NOT_SUBSCRIBED (clk 0)
      else let plannedAt = clk 0; canonicalPayload = canonicalEnvelope event (we_orgId endpoint) (toISOString plannedAt);
               cap = (case maxPayloadBytes of None \<Rightarrow> MAX_PAYLOAD_BYTES | Some n \<Rightarrow> n) in
        if int (length canonicalPayload) > cap then refuse PAYLOAD_TOO_LARGE (clk 1)
        else Inr (Planned \<lparr>dp_endpointId = we_endpointId endpoint, dp_orgId = we_orgId endpoint, dp_eventId = oe_eventId event,
          dp_eventType = oe_eventType event, dp_canonicalPayload = canonicalPayload, dp_plannedAt = plannedAt\<rparr>))"

section \<open>The delivery\<close>

datatype delivery_status = D_Queued | D_Delivering | D_Delivered | D_DeadLettered

record attempt_record =
  at_attemptNo :: nat
  at_at :: date
  at_failureReason :: "string option"

record delivery =
  dv_deliveryId :: uuid
  dv_endpointId :: uuid
  dv_orgId :: uuid
  dv_eventId :: uuid
  dv_eventType :: string
  dv_status :: delivery_status
  dv_attempts :: nat
  dv_nextAttemptAt :: "date option"
  dv_deliveredAt :: "date option"
  dv_deadLetteredAt :: "date option"
  dv_lastFailureReason :: "string option"
  dv_attemptLog :: "attempt_record list"

definition isTerminalDelivery :: "delivery \<Rightarrow> bool" where
  "isTerminalDelivery d \<longleftrightarrow> dv_status d = D_Delivered \<or> dv_status d = D_DeadLettered"

definition enqueueDelivery :: "delivery list \<Rightarrow> delivery_plan \<Rightarrow> uuid \<Rightarrow> clock \<Rightarrow> (delivery \<times> webhook_event) result" where
  "enqueueDelivery existing plan deliveryId clk =
     (if list_ex (\<lambda>d. dv_deliveryId d = deliveryId) existing then throw ''WEBHOOK_DELIVERY_ID_TAKEN''
      else if list_ex (\<lambda>d. \<not> isTerminalDelivery d \<and> dv_endpointId d = dp_endpointId plan \<and> dv_eventId d = dp_eventId plan) existing
      then throw ''WEBHOOK_DELIVERY_DUPLICATE''
      else Inr (\<lparr>dv_deliveryId = deliveryId, dv_endpointId = dp_endpointId plan, dv_orgId = dp_orgId plan,
          dv_eventId = dp_eventId plan, dv_eventType = dp_eventType plan, dv_status = D_Queued, dv_attempts = 0,
          dv_nextAttemptAt = Some (clk 0), dv_deliveredAt = None, dv_deadLetteredAt = None, dv_lastFailureReason = None,
          dv_attemptLog = []\<rparr>,
        webhook_emit ''webhook.deliveryQueued'' deliveryId
          (DeliveryQueued deliveryId (dp_endpointId plan) (dp_orgId plan) (dp_eventId plan) (dp_eventType plan)) (clk 1)))"

definition isDeliveryDue :: "delivery \<Rightarrow> date \<Rightarrow> bool" where
  "isDeliveryDue d now \<longleftrightarrow> dv_status d = D_Queued \<and> (case dv_nextAttemptAt d of None \<Rightarrow> False | Some t \<Rightarrow> now \<ge> t)"

definition beginAttempt :: "delivery \<Rightarrow> delivery result" where
  "beginAttempt d = (if dv_status d \<noteq> D_Queued then throw ''WEBHOOK_DELIVERY_NOT_QUEUED'' else Inr (d\<lparr>dv_status := D_Delivering\<rparr>))"

datatype attempt_outcome = Success | Failure string

definition deliveryFailedEvent :: "delivery \<Rightarrow> nat \<Rightarrow> string \<Rightarrow> string option \<Rightarrow> date \<Rightarrow> webhook_event" where
  "deliveryFailedEvent d attemptNo reason nextAttemptAt now = webhook_emit ''webhook.deliveryFailed'' (dv_deliveryId d)
     (DeliveryFailed (dv_deliveryId d) (dv_endpointId d) (dv_orgId d) (dv_eventId d) attemptNo reason (nextAttemptAt \<noteq> None) nextAttemptAt) now"

text \<open>
  A backoff that leaves the range of \<open>Date\<close> gives an invalid date, whose \<open>toISOString\<close> raises. The
  \<open>terminal\<close> flag of the result is left out: it is set exactly on the dead-letter branch, which the
  status of the delivery shows.
\<close>

definition recordAttemptOutcome ::
  "delivery \<Rightarrow> attempt_outcome \<Rightarrow> js_num list \<Rightarrow> clock \<Rightarrow> (delivery \<times> webhook_event list) result" where
  "recordAttemptOutcome d outcome ladder clk =
     and_then (assertRetryLadder ladder) (\<lambda>steps.
       if dv_status d \<noteq> D_Delivering then throw ''WEBHOOK_DELIVERY_NOT_DELIVERING''
       else let now = clk 0; attemptNo = dv_attempts d + 1 in case outcome of
         Success \<Rightarrow> Inr (d\<lparr>dv_status := D_Delivered, dv_attempts := attemptNo, dv_nextAttemptAt := None, dv_deliveredAt := Some now,
             dv_attemptLog := dv_attemptLog d @ [\<lparr>at_attemptNo = attemptNo, at_at = now, at_failureReason = None\<rparr>]\<rparr>,
           [webhook_emit ''webhook.deliverySucceeded'' (dv_deliveryId d)
             (DeliverySucceeded (dv_deliveryId d) (dv_endpointId d) (dv_orgId d) (dv_eventId d) (dv_eventType d) attemptNo) (clk 1)])
       | Failure raw \<Rightarrow> let reason = trim raw in
           if reason = [] then throw ''WEBHOOK_FAILURE_REASON_REQUIRED''
           else let base = d\<lparr>dv_attempts := attemptNo, dv_lastFailureReason := Some reason,
               dv_attemptLog := dv_attemptLog d @ [\<lparr>at_attemptNo = attemptNo, at_at = now, at_failureReason = Some reason\<rparr>]\<rparr> in
             if attemptNo \<le> length steps then
               (case new_date (fl (of_int (now + steps ! (attemptNo - 1)))) of None \<Rightarrow> Inl RangeError
                | Some t \<Rightarrow> Inr (base\<lparr>dv_status := D_Queued, dv_nextAttemptAt := Some t\<rparr>,
                    [deliveryFailedEvent d attemptNo reason (Some (toISOString t)) (clk 1)]))
             else Inr (base\<lparr>dv_status := D_DeadLettered, dv_nextAttemptAt := None, dv_deadLetteredAt := Some now\<rparr>,
               [deliveryFailedEvent d attemptNo reason None (clk 1),
                webhook_emit ''webhook.deliveryDeadLettered'' (dv_deliveryId d)
                  (DeliveryDeadLettered (dv_deliveryId d) (dv_endpointId d) (dv_orgId d) (dv_eventId d) attemptNo reason) (clk 2)]))"

section \<open>The ladder\<close>

lemma assertRetryLadder_Inr:
  "assertRetryLadder ladder = Inr steps \<Longrightarrow> steps = map int_of_num ladder \<and> steps \<noteq> []"
  by (auto simp: assertRetryLadder_def Let_def split: if_splits)

section \<open>The attempt machine\<close>

datatype delivery_command = Begin_Attempt | Record_Outcome attempt_outcome clock

fun delivery_step :: "js_num list \<Rightarrow> delivery \<Rightarrow> delivery_command \<Rightarrow> delivery result" where
  "delivery_step ladder d Begin_Attempt = beginAttempt d"
| "delivery_step ladder d (Record_Outcome outcome clk) = and_then (recordAttemptOutcome d outcome ladder clk) (\<lambda>x. Inr (fst x))"

definition failed :: "attempt_record \<Rightarrow> bool" where
  "failed a \<longleftrightarrow> at_failureReason a \<noteq> None"

text \<open>
  The invariant of a delivery: the log numbers the attempts; while it is live every attempt so
  far has failed and the ladder is not exhausted; a delivered one has failures and then one
  success, a dead one as many failures as the ladder allows.
\<close>

definition delivery_ok :: "nat \<Rightarrow> delivery \<Rightarrow> bool" where
  "delivery_ok steps d \<longleftrightarrow> dv_attempts d = length (dv_attemptLog d) \<and>
     map at_attemptNo (dv_attemptLog d) = [1..<Suc (dv_attempts d)] \<and>
     (case dv_status d of
        D_Delivered \<Rightarrow> (\<exists>fs s. dv_attemptLog d = fs @ [s] \<and> list_all failed fs \<and> \<not> failed s \<and> length fs \<le> steps)
      | D_DeadLettered \<Rightarrow> list_all failed (dv_attemptLog d) \<and> dv_attempts d = steps + 1
      | _ \<Rightarrow> list_all failed (dv_attemptLog d) \<and> dv_attempts d \<le> steps)"

lemma delivery_step_ok:
  assumes "delivery_ok (length ladder) d" and "delivery_step ladder d c = Inr d'"
  shows "delivery_ok (length ladder) d'"
proof (cases c)
  case Begin_Attempt
  with assms show ?thesis by (auto simp: beginAttempt_def delivery_ok_def split: if_splits)
next
  case (Record_Outcome outcome clk)
  with assms(2) obtain steps evs where run: "recordAttemptOutcome d outcome ladder clk = Inr (d', evs)"
    and steps: "assertRetryLadder ladder = Inr steps" by (auto simp: recordAttemptOutcome_def result_simps)
  from assertRetryLadder_Inr[OF steps] have len: "length steps = length ladder" by simp
  have st: "dv_status d = D_Delivering" using run steps by (auto simp: recordAttemptOutcome_def split: if_splits)
  with assms(1) run steps len show ?thesis
    by (cases outcome) (auto simp: recordAttemptOutcome_def delivery_ok_def failed_def Let_def Suc_le_eq split: if_splits option.splits)
qed

interpretation delivery_machine: guarded_machine "delivery_step ladder" "delivery_ok (length ladder)" "\<lambda>_. True" for ladder
  by unfold_locales (rule delivery_step_ok)

interpretation delivery_final: absorbing_machine "delivery_step ladder" isTerminalDelivery for ladder
proof
  fix d c d'
  assume "isTerminalDelivery d" and "delivery_step ladder d c = Inr d'"
  then show "d' = d"
    by (cases c) (auto simp: isTerminalDelivery_def beginAttempt_def recordAttemptOutcome_def result_simps split: if_splits)
qed

section \<open>Every delivery ends\<close>

fun attempt_round :: "attempt_outcome \<times> clock \<Rightarrow> delivery_command list" where
  "attempt_round (outcome, clk) = [Begin_Attempt, Record_Outcome outcome clk]"

text \<open>An outcome the lane records: a failure has a reason, and its retry lies in the range of \<open>Date\<close>.\<close>

fun outcome_ok :: "int list \<Rightarrow> attempt_outcome \<times> clock \<Rightarrow> bool" where
  "outcome_ok steps (Success, clk) = True"
| "outcome_ok steps (Failure reason, clk) = (trim reason \<noteq> [] \<and> (\<forall>s \<in> set steps. valid_time (clk 0 + s)))"

lemma new_date_shifted: "valid_time t \<Longrightarrow> new_date (fl (of_int t)) = Some t"
proof -
  assume t: "valid_time t"
  then have "\<bar>t\<bar> \<le> 2 ^ 53" by (simp add: valid_time_def max_time_def)
  then have "fl (of_int t) = of_int t" by (rule fl_int)
  with new_date_of_int[OF t] show ?thesis by simp
qed

lemma record_failure:
  assumes "assertRetryLadder ladder = Inr steps" and "dv_status d = D_Delivering" and "trim reason \<noteq> []"
    and "\<forall>s \<in> set steps. valid_time (clk 0 + s)"
  shows "\<exists>d' evs. recordAttemptOutcome d (Failure reason) ladder clk = Inr (d', evs) \<and> dv_attempts d' = dv_attempts d + 1 \<and>
    dv_status d' = (if dv_attempts d < length ladder then D_Queued else D_DeadLettered)"
proof -
  have len: "length steps = length ladder" using assertRetryLadder_Inr[OF assms(1)] by simp
  show ?thesis
  proof (cases "dv_attempts d < length ladder")
    case True
    with len assms(4) have "new_date (fl (of_int (clk 0 + steps ! dv_attempts d))) = Some (clk 0 + steps ! dv_attempts d)"
      by (intro new_date_shifted) simp
    with True assms(1-3) len show ?thesis by (simp add: recordAttemptOutcome_def Let_def del: of_int_add)
  next
    case False
    with assms(1-3) len show ?thesis by (simp add: recordAttemptOutcome_def Let_def)
  qed
qed

lemma attempt_round_step:
  assumes ladder: "assertRetryLadder ladder = Inr steps" and "dv_status d = D_Queued" and "outcome_ok steps oc"
  defines "d' \<equiv> drive (delivery_step ladder) d (attempt_round oc)"
  shows "isTerminalDelivery d' \<and> (dv_status d' = D_DeadLettered \<longleftrightarrow> fst oc \<noteq> Success) \<and>
       (fst oc \<noteq> Success \<longrightarrow> length ladder \<le> dv_attempts d) \<or>
     dv_status d' = D_Queued \<and> fst oc \<noteq> Success \<and> dv_attempts d' = dv_attempts d + 1 \<and> dv_attempts d < length ladder"
proof -
  obtain outcome clk where oc: "oc = (outcome, clk)" by (cases oc)
  have begin_ok: "beginAttempt d = Inr (d\<lparr>dv_status := D_Delivering\<rparr>)" using assms(2) by (simp add: beginAttempt_def)
  show ?thesis
  proof (cases outcome)
    case Success
    with ladder oc begin_ok show ?thesis
      by (simp add: d'_def recordAttemptOutcome_def Let_def isTerminalDelivery_def)
  next
    case (Failure reason)
    with assms(3) oc have "trim reason \<noteq> []" "\<forall>s \<in> set steps. valid_time (clk 0 + s)" by simp_all
    with record_failure[OF ladder, of "d\<lparr>dv_status := D_Delivering\<rparr>" reason clk] obtain d1 evs where
      "recordAttemptOutcome (d\<lparr>dv_status := D_Delivering\<rparr>) (Failure reason) ladder clk = Inr (d1, evs)"
      "dv_attempts d1 = dv_attempts d + 1" "dv_status d1 = (if dv_attempts d < length ladder then D_Queued else D_DeadLettered)"
      by auto
    with Failure oc begin_ok show ?thesis by (simp add: d'_def isTerminalDelivery_def not_less)
  qed
qed

lemma attempts_end:
  assumes "assertRetryLadder ladder = Inr steps" and "dv_status d = D_Queued" and "\<forall>oc \<in> set ocs. outcome_ok steps oc"
    and "length ladder + 1 = dv_attempts d + length ocs" and "dv_attempts d \<le> length ladder"
  shows "isTerminalDelivery (drive (delivery_step ladder) d (concat (map attempt_round ocs))) \<and>
    (dv_status (drive (delivery_step ladder) d (concat (map attempt_round ocs))) = D_DeadLettered \<longleftrightarrow>
       (\<forall>oc \<in> set ocs. fst oc \<noteq> Success))"
  using assms(2-)
proof (induction ocs arbitrary: d)
  case (Cons oc ocs)
  define d' where "d' = drive (delivery_step ladder) d (attempt_round oc)"
  from Cons.prems(2) have "outcome_ok steps oc" by simp
  with attempt_round_step[OF assms(1) Cons.prems(1)] consider
    (ended) "isTerminalDelivery d'" "dv_status d' = D_DeadLettered \<longleftrightarrow> fst oc \<noteq> Success"
      "fst oc \<noteq> Success \<longrightarrow> length ladder \<le> dv_attempts d"
    | (retried) "dv_status d' = D_Queued" "fst oc \<noteq> Success" "dv_attempts d' = dv_attempts d + 1" "dv_attempts d < length ladder"
    unfolding d'_def by blast
  moreover have split: "drive (delivery_step ladder) d (concat (map attempt_round (oc # ocs))) =
      drive (delivery_step ladder) d' (concat (map attempt_round ocs))" by (simp add: drive_append d'_def)
  ultimately show ?case
  proof cases
    case ended
    from delivery_final.drive_terminal[OF ended(1)] ended Cons.prems(3,4) show ?thesis unfolding split by auto
  next
    case retried
    with Cons.IH[of d'] Cons.prems show ?thesis unfolding split by simp
  qed
qed simp

section \<open>The queue\<close>

text \<open>The adapter's store: deliveries in the order they were queued; a move replaces its delivery.\<close>

datatype queue_command = Enqueue delivery_plan uuid clock | On_Delivery uuid delivery_command

fun queue_step :: "js_num list \<Rightarrow> delivery list \<Rightarrow> queue_command \<Rightarrow> delivery list result" where
  "queue_step ladder store (Enqueue plan i clk) = and_then (enqueueDelivery store plan i clk) (\<lambda>x. Inr (store @ [fst x]))"
| "queue_step ladder store (On_Delivery i c) = (case find (\<lambda>d. dv_deliveryId d = i) store of
     None \<Rightarrow> Inl PlainError
   | Some d \<Rightarrow> and_then (delivery_step ladder d c) (\<lambda>d'. Inr (map (\<lambda>e. if dv_deliveryId e = i then d' else e) store)))"

definition same_target :: "delivery \<Rightarrow> delivery \<Rightarrow> bool" where
  "same_target d e \<longleftrightarrow> dv_endpointId d = dv_endpointId e \<and> dv_eventId d = dv_eventId e"

definition queue_ok :: "nat \<Rightarrow> delivery list \<Rightarrow> bool" where
  "queue_ok steps store \<longleftrightarrow> distinct (map dv_deliveryId store) \<and> (\<forall>d \<in> set store. delivery_ok steps d) \<and>
     (\<forall>d \<in> set store. \<forall>e \<in> set store. same_target d e \<and> \<not> isTerminalDelivery d \<and> \<not> isTerminalDelivery e \<longrightarrow> d = e)"

lemma delivery_step_keeps:
  assumes "delivery_step ladder d c = Inr d'"
  shows "dv_deliveryId d' = dv_deliveryId d \<and> same_target d' d \<and> (isTerminalDelivery d \<longrightarrow> isTerminalDelivery d')"
proof (cases c)
  case Begin_Attempt
  with assms show ?thesis by (auto simp: beginAttempt_def same_target_def isTerminalDelivery_def split: if_splits)
next
  case (Record_Outcome outcome clk)
  with assms obtain steps evs where run: "recordAttemptOutcome d outcome ladder clk = Inr (d', evs)"
    and steps: "assertRetryLadder ladder = Inr steps" by (auto simp: recordAttemptOutcome_def result_simps)
  then have "dv_status d = D_Delivering" by (auto simp: recordAttemptOutcome_def split: if_splits)
  with run steps show ?thesis
    by (cases outcome) (auto simp: recordAttemptOutcome_def same_target_def isTerminalDelivery_def Let_def split: if_splits option.splits)
qed

lemma enqueueDelivery_Inr:
  assumes "enqueueDelivery store plan i clk = Inr (d, e)"
  shows "dv_deliveryId d = i \<and> i \<notin> dv_deliveryId ` set store \<and> delivery_ok steps d \<and> dv_status d = D_Queued \<and> dv_attempts d = 0 \<and>
    (\<forall>x \<in> set store. same_target x d \<longrightarrow> isTerminalDelivery x)"
  using assms by (auto simp: enqueueDelivery_def list_ex_iff delivery_ok_def same_target_def split: if_splits)

lemma queue_step_ok:
  assumes "queue_ok (length ladder) store" and "queue_step ladder store c = Inr store'"
  shows "queue_ok (length ladder) store'"
proof (cases c)
  case (Enqueue plan i clk)
  with assms(2) obtain d e where d: "enqueueDelivery store plan i clk = Inr (d, e)" "store' = store @ [d]" by (auto simp: result_simps)
  from enqueueDelivery_Inr[OF d(1), of "length ladder"] assms(1) show ?thesis
    unfolding d(2) queue_ok_def by (auto simp: same_target_def)
next
  case (On_Delivery i c)
  with assms(2) obtain d d' where d: "find (\<lambda>d. dv_deliveryId d = i) store = Some d" "delivery_step ladder d c = Inr d'"
    and store': "store' = map (\<lambda>e. if dv_deliveryId e = i then d' else e) store" by (auto simp: result_simps split: option.splits)
  note k = delivery_step_keeps[OF d(2)]
  from find_SomeD[OF d(1)] have m: "d \<in> set store" "dv_deliveryId d = i" by simp_all
  with assms(1) have only: "e \<in> set store \<Longrightarrow> dv_deliveryId e = i \<Longrightarrow> e = d" for e
    by (auto simp: queue_ok_def distinct_map inj_on_def)
  have "map dv_deliveryId store' = map dv_deliveryId store" using k m by (auto simp: store')
  then have "distinct (map dv_deliveryId store')" using assms(1) by (simp add: queue_ok_def)
  moreover have "delivery_ok (length ladder) d'" using assms(1) m d(2) by (auto simp: queue_ok_def intro: delivery_step_ok)
  then have "\<forall>x \<in> set store'. delivery_ok (length ladder) x" using assms(1) by (auto simp: queue_ok_def store')
  moreover have "x = y" if "x \<in> set store'" "y \<in> set store'" "same_target x y" "\<not> isTerminalDelivery x" "\<not> isTerminalDelivery y" for x y
  proof -
    note pair = that
    have origin: "\<exists>z0 \<in> set store. z = (if dv_deliveryId z0 = i then d' else z0) \<and> same_target z z0 \<and>
        (isTerminalDelivery z0 \<longrightarrow> isTerminalDelivery z)" if "z \<in> set store'" for z
      using that k only by (auto simp: store' same_target_def)
    from origin[OF pair(1)] origin[OF pair(2)] obtain x0 y0 where xy: "x0 \<in> set store" "y0 \<in> set store"
      "x = (if dv_deliveryId x0 = i then d' else x0)" "y = (if dv_deliveryId y0 = i then d' else y0)"
      "same_target x0 y0" "\<not> isTerminalDelivery x0" "\<not> isTerminalDelivery y0"
      using pair(3-5) by (auto simp: same_target_def)
    with assms(1) have "x0 = y0" unfolding queue_ok_def by blast
    with xy(3,4) show ?thesis by simp
  qed
  ultimately show ?thesis unfolding queue_ok_def by blast
qed

interpretation delivery_queue: guarded_machine "queue_step ladder" "queue_ok (length ladder)" "\<lambda>_. True" for ladder
  by unfold_locales (rule queue_step_ok)

section \<open>Properties of deliveries\<close>

text \<open>
  C19. Delivery terminates: with a valid ladder of n steps, a queued delivery has ended after n + 1
  attempts whatever their outcomes are, and it is dead-lettered exactly when every one of them
  failed.
\<close>

theorem delivery_terminates:
  assumes "enqueueDelivery existing plan i clk = Inr (d, e)" and "assertRetryLadder ladder = Inr steps"
    and "length ocs = length ladder + 1" and "\<forall>oc \<in> set ocs. outcome_ok steps oc"
  shows "isTerminalDelivery (drive (delivery_step ladder) d (concat (map attempt_round ocs))) \<and>
    (dv_status (drive (delivery_step ladder) d (concat (map attempt_round ocs))) = D_DeadLettered \<longleftrightarrow>
       (\<forall>oc \<in> set ocs. fst oc \<noteq> Success))"
  using enqueueDelivery_Inr[OF assms(1)] assms(2-4) by (intro attempts_end) simp_all

definition sample_plan :: delivery_plan where
  "sample_plan = \<lparr>dp_endpointId = ''e1'', dp_orgId = ''org'', dp_eventId = ''v'', dp_eventType = ''payment.confirmed'',
     dp_canonicalPayload = ''{}'', dp_plannedAt = 0\<rparr>"

lemma sample_ladder: "assertRetryLadder [Fin 30000] = Inr [30000]"
  by code_simp

theorem delivery_terminates_witness:
  "\<exists>d e. enqueueDelivery [] sample_plan ''d1'' (\<lambda>_. 0) = Inr (d, e) \<and> assertRetryLadder [Fin 30000] = Inr [30000] \<and>
    isTerminalDelivery (drive (delivery_step [Fin 30000]) d
      (concat (map attempt_round [(Failure ''timeout'', \<lambda>_. 1), (Success, \<lambda>_. 40000)])))"
proof -
  obtain d e where d: "enqueueDelivery [] sample_plan ''d1'' (\<lambda>_. 0) = Inr (d, e)" by (simp add: enqueueDelivery_def)
  have "trim ''timeout'' \<noteq> []" by code_simp
  then have "\<forall>oc \<in> set [(Failure ''timeout'', \<lambda>_. 1), (Success, \<lambda>_. 40000)]. outcome_ok [30000] oc"
    by (simp add: valid_time_def max_time_def)
  from delivery_terminates[OF d sample_ladder _ this] d sample_ladder show ?thesis by (simp del: list.map concat.simps drive.simps)
qed

text \<open>
  C11. The queue never double-sends: whatever is queued and attempted, in any order, delivery ids
  are unique, at most one delivery of an event to an endpoint is live, no delivery is attempted
  more often than the ladder allows, and its log numbers the attempts without a gap.
\<close>

theorem queue_never_double_sends:
  "let store = drive (queue_step ladder) [] cmds in distinct (map dv_deliveryId store) \<and>
    (\<forall>d \<in> set store. \<forall>e \<in> set store. dv_endpointId d = dv_endpointId e \<and> dv_eventId d = dv_eventId e \<and>
       \<not> isTerminalDelivery d \<and> \<not> isTerminalDelivery e \<longrightarrow> d = e) \<and>
    (\<forall>d \<in> set store. dv_attempts d \<le> length ladder + 1 \<and> map at_attemptNo (dv_attemptLog d) = [1..<Suc (dv_attempts d)])"
proof -
  have "queue_ok (length ladder) []" by (simp add: queue_ok_def)
  from delivery_queue.drive_inv[OF this, of cmds] have ok: "queue_ok (length ladder) (drive (queue_step ladder) [] cmds)" by simp
  have "dv_attempts d \<le> length ladder + 1 \<and> map at_attemptNo (dv_attemptLog d) = [1..<Suc (dv_attempts d)]"
    if "delivery_ok (length ladder) d" for d
    using that by (cases "dv_status d") (auto simp: delivery_ok_def)
  with ok show ?thesis unfolding queue_ok_def same_target_def Let_def by blast
qed

theorem queue_never_double_sends_witness:
  "let store = drive (queue_step [Fin 30000]) [] [Enqueue sample_plan ''d1'' (\<lambda>_. 0), Enqueue sample_plan ''d2'' (\<lambda>_. 1)] in
    distinct (map dv_deliveryId store)"
  using queue_never_double_sends[of "[Fin 30000]" "[Enqueue sample_plan ''d1'' (\<lambda>_. 0), Enqueue sample_plan ''d2'' (\<lambda>_. 1)]"]
  unfolding Let_def by blast

text \<open>
  Nothing leaves for an endpoint that does not want it: a delivery is planned exactly when the
  endpoint is active, one of its patterns matches the type of the event and the envelope fits the
  cap; in every other case the refusal is an event.
\<close>

theorem planDelivery_exact:
  assumes "planDelivery event endpoint clk cap = Inr res"
  shows "((\<exists>plan. res = Planned plan) \<longleftrightarrow> we_status endpoint = E_Active \<and> endpointSubscribedTo endpoint (oe_eventType event) \<and>
      int (length (canonicalEnvelope event (we_orgId endpoint) (toISOString (clk 0)))) \<le> (case cap of None \<Rightarrow> MAX_PAYLOAD_BYTES | Some n \<Rightarrow> n)) \<and>
    (\<forall>reason ev. res = Plan_Refused reason ev \<longrightarrow> ev_name ev = ''webhook.deliveryRefused'' \<and> ev_aggregateId ev = we_endpointId endpoint)"
  using assms
  by (cases "we_status endpoint") (auto simp: planDelivery_def Let_def webhook_emit_def not_less split: if_splits)

definition sample_revoked :: webhook_endpoint where
  "sample_revoked = \<lparr>we_endpointId = ''e1'', we_orgId = ''org'', we_url = ''https://example.com/hook'', we_label = ''erp'',
     we_description = None, we_status = E_Revoked, we_secretRef = ''reference'', we_subscriptions = [], we_createdAt = 0,
     we_pausedAt = None, we_resumedAt = None, we_revokedAt = Some 1\<rparr>"

theorem planDelivery_exact_witness:
  "\<exists>res. planDelivery \<lparr>oe_eventId = ''v'', oe_eventType = ''payment.confirmed'', oe_payload = Some ''{}''\<rparr> sample_revoked
      (\<lambda>_. 2) None = Inr res \<and> \<not> (\<exists>plan. res = Planned plan)"
proof -
  let ?event = "\<lparr>oe_eventId = ''v'', oe_eventType = ''payment.confirmed'', oe_payload = Some ''{}''\<rparr>"
  have "\<exists>res. planDelivery ?event sample_revoked (\<lambda>_. 2) None = Inr res" by (simp add: planDelivery_def sample_revoked_def)
  then obtain res where "planDelivery ?event sample_revoked (\<lambda>_. 2) None = Inr res" ..
  with planDelivery_exact[OF this] show ?thesis by (simp add: sample_revoked_def)
qed

end
