(* ===== verification/Webhook_Signing.thy ===== *)
theory Webhook_Signing
  imports Webhook_Endpoint
begin

text \<open>
  Signatures of webhooks (\<open>src/src/domain/webhooks/signing.ts\<close>): the canonical string, the wire
  header, the decision of a verification and the ledger of decisions per delivery. The digest is
  the injected port: a parameter.
\<close>

section \<open>Signing\<close>

record webhook_signature =
  ws_timestampMs :: int
  ws_signature :: string

definition canonicalString :: "int \<Rightarrow> string \<Rightarrow> string" where
  "canonicalString timestampMs payload = int_to_string timestampMs @ ''.'' @ payload"

definition sign :: "string \<Rightarrow> string \<Rightarrow> js_num \<Rightarrow> (string \<Rightarrow> string \<Rightarrow> string) \<Rightarrow> webhook_signature result" where
  "sign payload secret timestampMs digest =
     (if \<not> is_safe_integer timestampMs \<or> js_neg timestampMs then throw ''WEBHOOK_TIMESTAMP_INVALID''
      else if payload = [] then throw ''WEBHOOK_PAYLOAD_REQUIRED''
      else if secret = [] then throw ''WEBHOOK_SECRET_REQUIRED''
      else let t = int_of_num timestampMs in
        Inr \<lparr>ws_timestampMs = t, ws_signature = digest (canonicalString t payload) secret\<rparr>)"

definition formatSignatureHeader :: "webhook_signature \<Rightarrow> string" where
  "formatSignatureHeader sig = ''t='' @ int_to_string (ws_timestampMs sig) @ '',v1='' @ ws_signature sig"

definition is_lower_hex :: "char \<Rightarrow> bool" where
  "is_lower_hex c \<longleftrightarrow> is_digit c \<or> c \<in> set ''abcdef''"

text \<open>\<open>^t=(\d{1,19}),v1=([0-9a-f]{16,256})$\<close>; \<open>Number\<close> of the digits is rounded.\<close>

definition parseSignatureHeader :: "string \<Rightarrow> webhook_signature option" where
  "parseSignatureHeader header = (let digits = takeWhile is_digit (drop 2 header); rest = drop (2 + length digits) header;
       text = drop 4 rest; timestampMs = Fin (fl (of_nat (nat_of_digits digits))) in
     if starts_with header ''t='' \<and> 1 \<le> length digits \<and> length digits \<le> 19 \<and> starts_with rest '',v1='' \<and>
        16 \<le> length text \<and> length text \<le> 256 \<and> list_all is_lower_hex text \<and> is_safe_integer timestampMs
     then Some \<lparr>ws_timestampMs = int_of_num timestampMs, ws_signature = text\<rparr> else None)"

datatype signature_decision = Verified | Rejected_For reject_reason

definition DEFAULT_MAX_SKEW_MS :: js_num where "DEFAULT_MAX_SKEW_MS = Fin 300000"

definition verifySignature ::
  "string \<Rightarrow> string \<Rightarrow> string \<Rightarrow> date \<Rightarrow> (string \<Rightarrow> string \<Rightarrow> string) \<Rightarrow> js_num option \<Rightarrow> signature_decision result" where
  "verifySignature header payload secret now digest maxSkewMs =
     (let skew = (case maxSkewMs of None \<Rightarrow> DEFAULT_MAX_SKEW_MS | Some s \<Rightarrow> s) in
      if \<not> is_safe_integer skew \<or> js_neg skew then throw ''WEBHOOK_SKEW_INVALID''
      else case parseSignatureHeader header of None \<Rightarrow> Inr (Rejected_For Malformed)
        | Some sig \<Rightarrow>
            if \<bar>int_plus now (- ws_timestampMs sig)\<bar> > int_of_num skew then Inr (Rejected_For Stale_Timestamp)
            else if digest (canonicalString (ws_timestampMs sig) payload) secret \<noteq> ws_signature sig then Inr (Rejected_For Mismatch)
            else Inr Verified)"

section \<open>The ledger of decisions\<close>

definition verificationKey :: "uuid \<Rightarrow> uuid \<Rightarrow> string" where
  "verificationKey endpointId deliveryId = endpointId @ '':'' @ deliveryId"

record verify_delivery_args =
  vd_endpointId :: uuid
  vd_deliveryId :: uuid
  vd_header :: string
  vd_payload :: string
  vd_secret :: string
  vd_maxSkewMs :: "js_num option"

fun rejection_events :: "verify_delivery_args \<Rightarrow> signature_decision \<Rightarrow> bool \<Rightarrow> date \<Rightarrow> webhook_event list" where
  "rejection_events args Verified again now = []"
| "rejection_events args (Rejected_For reason) again now = [webhook_emit ''webhook.signatureRejected'' (vd_deliveryId args)
     (SignatureRejected (vd_endpointId args) (vd_deliveryId args) reason again) now]"

definition verifyDeliverySignature ::
  "(string \<Rightarrow> signature_decision option) \<Rightarrow> verify_delivery_args \<Rightarrow> (string \<Rightarrow> string \<Rightarrow> string) \<Rightarrow> clock \<Rightarrow>
     (signature_decision \<times> bool \<times> (string \<Rightarrow> signature_decision option) \<times> webhook_event list) result" where
  "verifyDeliverySignature ledger args digest clk =
     (let key = verificationKey (vd_endpointId args) (vd_deliveryId args) in case ledger key of
        Some previous \<Rightarrow> Inr (previous, True, ledger, rejection_events args previous True (clk 0))
      | None \<Rightarrow> and_then (verifySignature (vd_header args) (vd_payload args) (vd_secret args) (clk 0) digest (vd_maxSkewMs args)) (\<lambda>decision.
          Inr (decision, False, ledger(key \<mapsto> decision), rejection_events args decision False (clk 1))))"

section \<open>The header is read back\<close>

lemma takeWhile_digits: "\<forall>c \<in> set ds. P c \<Longrightarrow> \<not> P x \<Longrightarrow> takeWhile P (ds @ x # rest) = ds"
  by (induction ds) auto

lemma parse_format:
  assumes "0 \<le> ws_timestampMs sig" and "ws_timestampMs sig \<le> max_safe_integer"
    and "16 \<le> length (ws_signature sig)" and "length (ws_signature sig) \<le> 256" and "list_all is_lower_hex (ws_signature sig)"
  shows "parseSignatureHeader (formatSignatureHeader sig) = Some sig"
proof -
  define n where "n = nat (ws_timestampMs sig)"
  have n: "ws_timestampMs sig = int n" "int n \<le> max_safe_integer" using assms(1,2) by (simp_all add: n_def)
  have printed: "int_to_string (int n) = nat_to_string n" by (simp add: int_to_string_def)
  let ?rest = "'',v1='' @ ws_signature sig"
  have header: "formatSignatureHeader sig = CHR ''t'' # CHR ''='' # nat_to_string n @ ?rest"
    by (simp add: formatSignatureHeader_def n printed)
  have "\<not> is_digit (CHR '','')" by code_simp
  then have digits: "takeWhile is_digit (nat_to_string n @ ?rest) = nat_to_string n"
    using nat_to_string_digits[of n] by (simp add: takeWhile_digits)
  have "n < 10 ^ 19" using n(2) by (simp add: max_safe_integer_def)
  from nat_to_string_length[OF _ this] have len: "length (nat_to_string n) \<le> 19" by simp
  have "\<bar>int n\<bar> \<le> 2 ^ 53" using n(2) by (simp add: max_safe_integer_def)
  from fl_int[OF this] have rounded: "fl (of_nat n) = of_nat n" by simp
  have safe: "is_safe_integer (Fin (of_nat n))" using is_safe_integer_int[of "int n"] n(2) by simp
  have parts: "drop 2 (formatSignatureHeader sig) = nat_to_string n @ ?rest" "drop (2 + length (nat_to_string n)) (formatSignatureHeader sig) = ?rest"
    "drop 4 ?rest = ws_signature sig" "starts_with (formatSignatureHeader sig) ''t=''" "starts_with ?rest '',v1=''"
    by (simp_all add: header starts_with_def)
  have "1 \<le> length (nat_to_string n)" by (simp add: Suc_le_eq)
  with len assms(3-5) safe parts(4,5) show ?thesis
    unfolding parseSignatureHeader_def parts digits Let_def nat_of_digits_to_string rounded by (simp add: n)
qed

section \<open>Properties of signatures\<close>

text \<open>
  Signing and verifying agree: a payload signed at a time within the skew window of the
  receiver, sent with the formatted header, verifies with the same secret; and a verification
  that succeeds means that the digest of the timestamp and the payload as received is the
  signature of the header. The digest port returns 16 to 256 lower-case hexadecimal digits.
\<close>

theorem signature_round_trip:
  assumes "\<And>x k. 16 \<le> length (digest x k) \<and> length (digest x k) \<le> 256 \<and> list_all is_lower_hex (digest x k)"
    and "sign payload secret t digest = Inr sig"
    and "valid_time now" and "\<bar>now - int_of_num t\<bar> \<le> 300000"
  shows "verifySignature (formatSignatureHeader sig) payload secret now digest None = Inr Verified \<and>
    (\<forall>header body key instant cap. verifySignature header body key instant digest cap = Inr Verified \<longrightarrow>
      (\<exists>s. parseSignatureHeader header = Some s \<and> digest (canonicalString (ws_timestampMs s) body) key = ws_signature s))"
proof -
  from assms(2) have t: "is_safe_integer t" "\<not> js_neg t"
    and sig: "sig = \<lparr>ws_timestampMs = int_of_num t, ws_signature = digest (canonicalString (int_of_num t) payload) secret\<rparr>"
    by (auto simp: sign_def Let_def split: if_splits)
  have range: "0 \<le> int_of_num t" "int_of_num t \<le> max_safe_integer" using t by (cases t; simp)+
  with assms(1) have "parseSignatureHeader (formatSignatureHeader sig) = Some sig" by (intro parse_format) (simp_all add: sig)
  moreover have "int_plus now (- int_of_num t) = now - int_of_num t"
    using assms(4) by (subst int_plus_safe) (simp_all add: max_safe_integer_def)
  moreover have "is_safe_integer DEFAULT_MAX_SKEW_MS" "\<not> js_neg DEFAULT_MAX_SKEW_MS" "int_of_num DEFAULT_MAX_SKEW_MS = 300000"
    by (simp_all add: DEFAULT_MAX_SKEW_MS_def max_safe_integer_def)
  ultimately have "verifySignature (formatSignatureHeader sig) payload secret now digest None = Inr Verified"
    using assms(4) by (simp add: verifySignature_def Let_def sig)
  then show ?thesis by (auto simp: verifySignature_def Let_def split: if_splits option.splits)
qed

definition sample_digest :: "string \<Rightarrow> string \<Rightarrow> string" where
  "sample_digest x k = replicate 16 (CHR ''a'')"

theorem signature_round_trip_witness:
  "\<exists>sig. sign ''{}'' ''key'' (Fin 1000) sample_digest = Inr sig \<and>
     verifySignature (formatSignatureHeader sig) ''{}'' ''key'' 2000 sample_digest None = Inr Verified"
proof -
  have "16 \<le> length (sample_digest x k) \<and> length (sample_digest x k) \<le> 256 \<and> list_all is_lower_hex (sample_digest x k)" for x k
    by (simp add: sample_digest_def list_all_iff is_lower_hex_def)
  note rt = signature_round_trip[OF this, of "''{}''" "''key''" "Fin 1000"]
  have "\<exists>sig. sign ''{}'' ''key'' (Fin 1000) sample_digest = Inr sig" by (simp add: sign_def max_safe_integer_def Let_def)
  then obtain sig where s: "sign ''{}'' ''key'' (Fin 1000) sample_digest = Inr sig" ..
  from rt[OF s, of 2000] s show ?thesis by (simp add: valid_time_def max_time_def)
qed

text \<open>
  A decision sticks to the delivery id and not to what was delivered: once a delivery has been
  verified, any other header and payload under its id are taken as verified without a check of
  the digest.
\<close>

theorem forged_replay_verified:
  assumes "verifyDeliverySignature ledger args digest clk = Inr (Verified, False, ledger', evs)"
  shows "verifyDeliverySignature ledger' (args\<lparr>vd_header := header, vd_payload := payload\<rparr>) digest clk' = Inr (Verified, True, ledger', [])"
  using assms by (auto simp: verifyDeliverySignature_def Let_def result_simps split: option.splits)

definition sample_delivery_args :: verify_delivery_args where
  "sample_delivery_args = \<lparr>vd_endpointId = ''e1'', vd_deliveryId = ''d1'',
     vd_header = formatSignatureHeader \<lparr>ws_timestampMs = 1000, ws_signature = replicate 16 (CHR ''a'')\<rparr>, vd_payload = ''{}'',
     vd_secret = ''key'', vd_maxSkewMs = Some (Fin 5000)\<rparr>"

lemma sample_verified:
  "\<exists>ledger' evs. verifyDeliverySignature Map.empty sample_delivery_args sample_digest (\<lambda>_. 2000) = Inr (Verified, False, ledger', evs)"
proof -
  let ?sig = "\<lparr>ws_timestampMs = 1000, ws_signature = replicate 16 (CHR ''a'')\<rparr>"
  have "parseSignatureHeader (formatSignatureHeader ?sig) = Some ?sig"
    by (rule parse_format) (simp_all add: max_safe_integer_def list_all_iff is_lower_hex_def)
  moreover have "int_plus 2000 (- 1000) = 1000" by (subst int_plus_safe) (simp_all add: max_safe_integer_def)
  ultimately show ?thesis
    by (simp add: verifyDeliverySignature_def verifySignature_def sample_delivery_args_def sample_digest_def max_safe_integer_def Let_def)
qed

theorem forged_replay_verified_witness:
  "\<exists>ledger' evs. verifyDeliverySignature Map.empty sample_delivery_args sample_digest (\<lambda>_. 2000) = Inr (Verified, False, ledger', evs) \<and>
     verifyDeliverySignature ledger' (sample_delivery_args\<lparr>vd_header := ''forged'', vd_payload := ''pay me''\<rparr>) sample_digest (\<lambda>_. 2001) =
       Inr (Verified, True, ledger', [])"
  using sample_verified forged_replay_verified by blast

end
