(* ===== verification/Collections_Case.thy ===== *)
theory Collections_Case
  imports Dispute Js_Integer
begin

text \<open>
  Collection cases (\<open>src/src/domain/collections/\<close>): the case over one or more receivables and its
  lifecycle (\<open>case.ts\<close>), the log of actions with the consent gate (\<open>actions.ts\<close>), the derived
  status (\<open>derive.ts\<close>) and the events of the lane (\<open>events.ts\<close>).
\<close>

section \<open>Data\<close>

definition CASE_PRIORITIES :: "string list" where
  "CASE_PRIORITIES = [''low'', ''normal'', ''high'', ''urgent'']"

fun CASE_PRIORITY_RANK :: "string \<Rightarrow> nat" where
  "CASE_PRIORITY_RANK p = (if p = ''low'' then 0 else if p = ''normal'' then 1 else if p = ''high'' then 2 else 3)"

definition assertPriority :: "string \<Rightarrow> string result" where
  "assertPriority priority = (if priority \<notin> set CASE_PRIORITIES then throw ''CASE_PRIORITY_INVALID'' else Inr priority)"

datatype case_status = CS_Open | CS_In_Progress | CS_Resolved | CS_Closed_Inactive

definition CASE_STATUSES :: "(string \<times> case_status) list" where
  "CASE_STATUSES = [(''open'', CS_Open), (''in_progress'', CS_In_Progress), (''resolved'', CS_Resolved),
     (''closed_inactive'', CS_Closed_Inactive)]"

definition OPEN_CASE_STATUSES :: "case_status list" where
  "OPEN_CASE_STATUSES = [CS_Open, CS_In_Progress]"

definition isCaseOpen :: "case_status \<Rightarrow> bool" where
  "isCaseOpen status \<longleftrightarrow> status \<in> set OPEN_CASE_STATUSES"

fun CASE_TRANSITIONS :: "case_status \<Rightarrow> case_status list" where
  "CASE_TRANSITIONS CS_Open = [CS_In_Progress]"
| "CASE_TRANSITIONS CS_In_Progress = [CS_Resolved, CS_Closed_Inactive]"
| "CASE_TRANSITIONS CS_Resolved = []"
| "CASE_TRANSITIONS CS_Closed_Inactive = []"

record case_transition =
  cx_from :: case_status
  cx_to :: case_status
  cx_reason :: string
  cx_actorId :: string
  cx_at :: date

record case_priority_change =
  cp_from :: string
  cp_to :: string
  cp_reason :: string
  cp_actorId :: string
  cp_at :: date

definition CASE_ACTION_TYPES :: "string list" where
  "CASE_ACTION_TYPES = [''call'', ''sms'', ''whatsapp'', ''letter'', ''fieldVisit'', ''escalation'']"

definition OUTBOUND_ACTION_TYPES :: "string list" where
  "OUTBOUND_ACTION_TYPES = [''sms'', ''whatsapp'']"

definition ACTION_SOURCES :: "string list" where
  "ACTION_SOURCES = [''automated'', ''manual'']"

record case_action =
  ca_id :: string
  ca_type :: string
  ca_scheduledFor :: date
  ca_outcome :: "string option"
  ca_completedAt :: "date option"
  ca_completedBy :: "string option"
  ca_consentRef :: "string option"
  ca_source :: string
  ca_actorId :: string
  ca_recordedAt :: date

record collections_case =
  cc_id :: uuid
  cc_caseNumber :: string
  cc_sequence :: int
  cc_orgId :: uuid
  cc_receivableIds :: "uuid list"
  cc_collectorId :: uuid
  cc_priority :: string
  cc_status :: case_status
  cc_openedAt :: date
  cc_openedBy :: string
  cc_closedAt :: "date option"
  cc_closedBy :: "string option"
  cc_actions :: "case_action list"
  cc_history :: "case_transition list"
  cc_priorityChanges :: "case_priority_change list"

section \<open>Events\<close>

datatype case_payload =
    CaseOpened uuid string uuid "uuid list" uuid string string string
  | CaseActionRecorded uuid string uuid string string string "string option" "string option" "string option" string string
  | CaseEscalated uuid string uuid string string string string string
  | CaseResolved uuid string uuid "uuid list" string string string
  | CaseClosed uuid string uuid "uuid list" string string string
  | DunningBlockedNoConsent uuid string uuid "uuid list" string string string string

type_synonym case_event = "(case_payload, string) domain_event"

definition case_domainEvent :: "string \<Rightarrow> uuid \<Rightarrow> case_payload \<Rightarrow> date \<Rightarrow> case_event" where
  "case_domainEvent name aggregateId payload now =
     \<lparr>ev_name = name, ev_version = 1, ev_aggregateId = aggregateId, ev_payload = payload, ev_occurredAt = toISOString now\<rparr>"

section \<open>Opening\<close>

definition case_assertNonBlank :: "string \<Rightarrow> string \<Rightarrow> string result" where
  "case_assertNonBlank raw code = (let value = trim raw in if value = [] then throw code else Inr value)"

record open_case_coverage =
  cv_receivableId :: uuid
  cv_caseId :: uuid

definition openCaseCoverageOf :: "collections_case list \<Rightarrow> open_case_coverage list" where
  "openCaseCoverageOf cases = concat (map (\<lambda>c. map (\<lambda>r. \<lparr>cv_receivableId = r, cv_caseId = cc_id c\<rparr>) (cc_receivableIds c))
     (filter (\<lambda>c. isCaseOpen (cc_status c)) cases))"

definition formatCaseNumber :: "int \<Rightarrow> string" where
  "formatCaseNumber sequenceNo = ''CASE-'' @ pad_num 6 sequenceNo"

record open_case_args =
  oc_id :: uuid
  oc_orgId :: uuid
  oc_receivableIds :: "uuid list"
  oc_collectorId :: uuid
  oc_priority :: "string option"
  oc_openedBy :: string
  oc_sequenceNo :: js_num
  oc_formatNumber :: "(int \<Rightarrow> string) option"

definition openCase ::
  "open_case_args \<Rightarrow> open_case_coverage list \<Rightarrow> clock \<Rightarrow> (collections_case \<times> case_event) result" where
  "openCase args coverage clk = (let openedAt = clk 0; receivableIds = oc_receivableIds args in
     and_then (case_assertNonBlank (oc_openedBy args) ''CASE_ACTOR_REQUIRED'') (\<lambda>openedBy.
     and_then (case_assertNonBlank (oc_collectorId args) ''CASE_COLLECTOR_REQUIRED'') (\<lambda>collectorId.
       if receivableIds = [] then throw ''CASE_RECEIVABLES_REQUIRED''
       else if list_ex (\<lambda>r. trim r = []) receivableIds then throw ''CASE_RECEIVABLE_INVALID''
       else if \<not> distinct receivableIds then throw ''CASE_RECEIVABLE_DUPLICATE''
       else and_then (case oc_priority args of None \<Rightarrow> Inr ''normal'' | Some p \<Rightarrow> assertPriority p) (\<lambda>priority.
         if \<not> is_safe_integer (oc_sequenceNo args) \<or> js_less (oc_sequenceNo args) 1 then throw ''CASE_SEQUENCE_INVALID''
         else let sequenceNo = int_of_num (oc_sequenceNo args);
                  format = (case oc_formatNumber args of None \<Rightarrow> formatCaseNumber | Some f \<Rightarrow> f) in
         and_then (case_assertNonBlank (format sequenceNo) ''CASE_NUMBER_INVALID'') (\<lambda>caseNumber.
           if list_ex (\<lambda>r. find (\<lambda>entry. cv_receivableId entry = r) coverage \<noteq> None) receivableIds then throw ''CASE_ALREADY_OPEN''
           else let c = \<lparr>cc_id = oc_id args, cc_caseNumber = caseNumber, cc_sequence = sequenceNo, cc_orgId = oc_orgId args,
               cc_receivableIds = receivableIds, cc_collectorId = collectorId, cc_priority = priority, cc_status = CS_Open,
               cc_openedAt = openedAt, cc_openedBy = openedBy, cc_closedAt = None, cc_closedBy = None, cc_actions = [],
               cc_history = [], cc_priorityChanges = []\<rparr>
           in Inr (c, case_domainEvent ''case.opened'' (cc_id c)
             (CaseOpened (cc_id c) caseNumber (cc_orgId c) receivableIds collectorId priority openedBy (toISOString openedAt))
             (clk 1)))))))"

section \<open>Moving and escalating\<close>

definition transitionCase ::
  "collections_case \<Rightarrow> string \<Rightarrow> string \<Rightarrow> string \<Rightarrow> clock \<Rightarrow> (collections_case \<times> case_event list) result" where
  "transitionCase c target reason0 actorId0 clk = (case map_of CASE_STATUSES target of
      None \<Rightarrow> throw ''CASE_STATUS_INVALID''
    | Some dest \<Rightarrow>
        if dest \<notin> set (CASE_TRANSITIONS (cc_status c)) then throw ''CASE_TRANSITION_INVALID''
        else and_then (case_assertNonBlank reason0 ''CASE_REASON_REQUIRED'') (\<lambda>reason.
          and_then (case_assertNonBlank actorId0 ''CASE_ACTOR_REQUIRED'') (\<lambda>actorId.
          let now = clk 0; terminal = (CASE_TRANSITIONS dest = []) in
          Inr (c\<lparr>cc_status := dest,
                 cc_closedAt := (if terminal then Some now else cc_closedAt c),
                 cc_closedBy := (if terminal then Some actorId else cc_closedBy c),
                 cc_history := cc_history c @ [\<lparr>cx_from = cc_status c, cx_to = dest, cx_reason = reason, cx_actorId = actorId, cx_at = now\<rparr>]\<rparr>,
               if dest = CS_Resolved then [case_domainEvent ''case.resolved'' (cc_id c)
                 (CaseResolved (cc_id c) (cc_caseNumber c) (cc_orgId c) (cc_receivableIds c) reason actorId (toISOString now)) (clk 1)]
               else if dest = CS_Closed_Inactive then [case_domainEvent ''case.closed'' (cc_id c)
                 (CaseClosed (cc_id c) (cc_caseNumber c) (cc_orgId c) (cc_receivableIds c) reason actorId (toISOString now)) (clk 1)]
               else []))))"

definition escalateCase ::
  "collections_case \<Rightarrow> string \<Rightarrow> string \<Rightarrow> string \<Rightarrow> clock \<Rightarrow> (collections_case \<times> case_event) result" where
  "escalateCase c target reason0 actorId0 clk =
     (if \<not> isCaseOpen (cc_status c) then throw ''CASE_CLOSED''
      else and_then (assertPriority target) (\<lambda>dest.
        if CASE_PRIORITY_RANK dest \<le> CASE_PRIORITY_RANK (cc_priority c) then throw ''CASE_ESCALATION_INVALID''
        else and_then (case_assertNonBlank reason0 ''CASE_REASON_REQUIRED'') (\<lambda>reason.
          and_then (case_assertNonBlank actorId0 ''CASE_ACTOR_REQUIRED'') (\<lambda>actorId.
          let now = clk 0 in
          Inr (c\<lparr>cc_priority := dest, cc_priorityChanges := cc_priorityChanges c @
                  [\<lparr>cp_from = cc_priority c, cp_to = dest, cp_reason = reason, cp_actorId = actorId, cp_at = now\<rparr>]\<rparr>,
               case_domainEvent ''case.escalated'' (cc_id c)
                 (CaseEscalated (cc_id c) (cc_caseNumber c) (cc_orgId c) (cc_priority c) dest reason actorId (toISOString now)) (clk 1))))))"

section \<open>The action log\<close>

definition assertActionType :: "string \<Rightarrow> string result" where
  "assertActionType type = (if type \<notin> set CASE_ACTION_TYPES then throw ''CASE_ACTION_TYPE_INVALID'' else Inr type)"

definition assertSource :: "string \<Rightarrow> string result" where
  "assertSource source = (if source \<notin> set ACTION_SOURCES then throw ''CASE_ACTION_SOURCE_INVALID'' else Inr source)"

record record_action_args =
  ra_id :: "string option"
  ra_type :: string
  ra_scheduledFor :: date
  ra_outcome :: "string option"
  ra_actorId :: string
  ra_source :: "string option"
  ra_consentRef :: "string option"

text \<open>\<open>x === undefined ? null : assertNonBlank(x, ...)\<close>\<close>

definition optional_nonBlank :: "string option \<Rightarrow> string \<Rightarrow> string option result" where
  "optional_nonBlank raw code = (case raw of None \<Rightarrow> Inr None
     | Some s \<Rightarrow> and_then (case_assertNonBlank s code) (\<lambda>v. Inr (Some v)))"

text \<open>Outbound sends count as automated unless the caller says otherwise.\<close>

definition action_source :: "record_action_args \<Rightarrow> string result" where
  "action_source args = (case ra_source args of
      None \<Rightarrow> Inr (if ra_type args \<in> set OUTBOUND_ACTION_TYPES then ''automated'' else ''manual'')
    | Some s \<Rightarrow> assertSource s)"

definition recordAction :: "collections_case \<Rightarrow> record_action_args \<Rightarrow> clock \<Rightarrow> (collections_case \<times> case_event) result" where
  "recordAction c args clk =
     (if \<not> isCaseOpen (cc_status c) then throw ''CASE_CLOSED''
      else and_then (assertActionType (ra_type args)) (\<lambda>type.
        and_then (action_source args) (\<lambda>source.
        let recordedAt = clk 0 in
        and_then (case_assertNonBlank (ra_actorId args) ''CASE_ACTOR_REQUIRED'') (\<lambda>actorId.
        and_then (optional_nonBlank (ra_consentRef args) ''CASE_CONSENT_REF_INVALID'') (\<lambda>consentRef.
        if type \<in> set OUTBOUND_ACTION_TYPES \<and> source = ''automated'' \<and> consentRef = None then throw ''DUNNING_CONSENT_REQUIRED''
        else and_then (optional_nonBlank (ra_outcome args) ''CASE_OUTCOME_REQUIRED'') (\<lambda>outcome.
        let completedAt = (if outcome = None then None else Some recordedAt) in
        and_then (case ra_id args of None \<Rightarrow> Inr (cc_id c @ ''/actions/'' @ nat_to_string (length (cc_actions c) + 1))
            | Some i \<Rightarrow> case_assertNonBlank i ''CASE_ACTION_ID_REQUIRED'') (\<lambda>actionId.
          Inr (c\<lparr>cc_actions := cc_actions c @ [\<lparr>ca_id = actionId, ca_type = type, ca_scheduledFor = ra_scheduledFor args,
                 ca_outcome = outcome, ca_completedAt = completedAt, ca_completedBy = (if outcome = None then None else Some actorId),
                 ca_consentRef = consentRef, ca_source = source, ca_actorId = actorId, ca_recordedAt = recordedAt\<rparr>]\<rparr>,
               case_domainEvent ''case.actionRecorded'' (cc_id c)
                 (CaseActionRecorded (cc_id c) (cc_caseNumber c) (cc_orgId c) actionId type (toISOString (ra_scheduledFor args))
                   outcome (map_option toISOString completedAt) consentRef actorId (toISOString recordedAt)) (clk 1)))))))))"

definition completeAction ::
  "collections_case \<Rightarrow> string \<Rightarrow> string \<Rightarrow> string option \<Rightarrow> clock \<Rightarrow> collections_case result" where
  "completeAction c actionId outcome0 actorId clk =
     (if \<not> isCaseOpen (cc_status c) then throw ''CASE_CLOSED''
      else case find (\<lambda>a. ca_id a = actionId) (cc_actions c) of None \<Rightarrow> throw ''CASE_ACTION_NOT_FOUND''
      | Some target \<Rightarrow>
          if ca_completedAt target \<noteq> None then throw ''CASE_ACTION_ALREADY_COMPLETED''
          else and_then (case_assertNonBlank outcome0 ''CASE_OUTCOME_REQUIRED'') (\<lambda>outcome.
            let completedAt = clk 0 in
            and_then (case actorId of None \<Rightarrow> Inr (ca_actorId target)
                | Some a \<Rightarrow> case_assertNonBlank a ''CASE_ACTOR_REQUIRED'') (\<lambda>completedBy.
              Inr (c\<lparr>cc_actions := map (\<lambda>a. if ca_id a = actionId
                then a\<lparr>ca_outcome := Some outcome, ca_completedAt := Some completedAt, ca_completedBy := Some completedBy\<rparr>
                else a) (cc_actions c)\<rparr>))))"

datatype record_action_result = Recorded collections_case case_event | Blocked case_event

definition dunningBlockedNoConsentEvent ::
  "collections_case \<Rightarrow> string \<Rightarrow> date \<Rightarrow> string \<Rightarrow> clock \<Rightarrow> case_event result" where
  "dunningBlockedNoConsentEvent c type scheduledFor actorId clk = (let blockedAt = clk 0 in
     and_then (assertActionType type) (\<lambda>actionType.
       Inr (case_domainEvent ''collections.dunningBlockedNoConsent'' (cc_id c)
         (DunningBlockedNoConsent (cc_id c) (cc_caseNumber c) (cc_orgId c) (cc_receivableIds c) actionType
           (toISOString scheduledFor) actorId (toISOString blockedAt)) (clk 1))))"

text \<open>The clock of the refusal was read once by \<open>recordAction\<close>.\<close>

definition tryRecordAction :: "collections_case \<Rightarrow> record_action_args \<Rightarrow> clock \<Rightarrow> record_action_result result" where
  "tryRecordAction c args clk = (case recordAction c args clk of
      Inr (c', e) \<Rightarrow> Inr (Recorded c' e)
    | Inl err \<Rightarrow> if err = DomainError ''DUNNING_CONSENT_REQUIRED''
        then and_then (dunningBlockedNoConsentEvent c (ra_type args) (ra_scheduledFor args) (ra_actorId args) (clock_after 1 clk))
          (\<lambda>e. Inr (Blocked e))
        else Inl err)"

section \<open>Derived status\<close>

definition PROMISE_FACT_STATUSES :: "string list" where
  "PROMISE_FACT_STATUSES = [''pending'', ''fulfilled'', ''broken'']"

record promise_fact =
  pf_receivableId :: uuid
  pf_status :: string

record dispute_fact =
  df_receivableId :: uuid
  df_open :: bool

datatype derived_case_status = Stored case_status | Waiting | Promised | Disputed

definition assertPromiseFacts :: "promise_fact list \<Rightarrow> promise_fact list result" where
  "assertPromiseFacts = traverse (\<lambda>f. if pf_status f \<notin> set PROMISE_FACT_STATUSES then throw ''CASE_PROMISE_STATUS_INVALID'' else Inr f)"

definition deriveCaseStatus ::
  "collections_case \<Rightarrow> promise_fact list \<Rightarrow> dispute_fact list \<Rightarrow> derived_case_status result" where
  "deriveCaseStatus c promiseFacts0 disputeFacts =
     (if cc_status c = CS_Resolved \<or> cc_status c = CS_Closed_Inactive then Inr (Stored (cc_status c))
      else and_then (assertPromiseFacts promiseFacts0) (\<lambda>promiseFacts.
        if list_ex (\<lambda>f. df_open f \<and> df_receivableId f \<in> set (cc_receivableIds c)) disputeFacts then Inr Disputed
        else if list_ex (\<lambda>f. pf_status f = ''pending'' \<and> pf_receivableId f \<in> set (cc_receivableIds c)) promiseFacts then Inr Promised
        else Inr Waiting))"

section \<open>The machines\<close>

datatype case_command =
    Move_Case string string string clock
  | Escalate string string string clock
  | Record_Action record_action_args clock
  | Complete_Action string string "string option" clock

fun case_step :: "collections_case \<Rightarrow> case_command \<Rightarrow> collections_case result" where
  "case_step c (Move_Case target reason actorId clk) = and_then (transitionCase c target reason actorId clk) (\<lambda>x. Inr (fst x))"
| "case_step c (Escalate target reason actorId clk) = and_then (escalateCase c target reason actorId clk) (\<lambda>x. Inr (fst x))"
| "case_step c (Record_Action args clk) = and_then (recordAction c args clk) (\<lambda>x. Inr (fst x))"
| "case_step c (Complete_Action i outcome actorId clk) = completeAction c i outcome actorId clk"

text \<open>The desk of the adapter: it opens cases against the coverage of the ones it holds.\<close>

datatype desk_command = Open_Case open_case_args clock | On_Case nat case_command

fun desk_step :: "collections_case list \<Rightarrow> desk_command \<Rightarrow> collections_case list result" where
  "desk_step cs (Open_Case args clk) = and_then (openCase args (openCaseCoverageOf cs) clk) (\<lambda>x. Inr (cs @ [fst x]))"
| "desk_step cs (On_Case i c) = (if i < length cs then and_then (case_step (cs ! i) c) (\<lambda>c'. Inr (cs[i := c'])) else Inl PlainError)"

section \<open>What the operations do\<close>

lemma isCaseOpen_iff: "isCaseOpen s \<longleftrightarrow> CASE_TRANSITIONS s \<noteq> []"
  by (cases s) (simp_all add: isCaseOpen_def OPEN_CASE_STATUSES_def)

lemma case_assertNonBlank_Inr: "case_assertNonBlank raw code = Inr v \<longleftrightarrow> v = trim raw \<and> v \<noteq> []"
  by (auto simp: case_assertNonBlank_def Let_def)

lemma openCase_Inr:
  assumes "openCase args coverage clk = Inr (c, e)"
  shows "cc_receivableIds c = oc_receivableIds args \<and> distinct (cc_receivableIds c) \<and> cc_status c = CS_Open \<and>
    set (cc_receivableIds c) \<inter> set (map cv_receivableId coverage) = {} \<and> cc_actions c = [] \<and> cc_history c = [] \<and>
    cc_priorityChanges c = [] \<and> cc_closedAt c = None \<and> cc_closedBy c = None"
  using assms unfolding openCase_def Let_def
  by (auto simp: result_simps list_ex_iff find_None_iff split: if_splits option.splits)

lemma transitionCase_Inr:
  assumes "transitionCase c target reason actorId clk = Inr (c', es)"
  obtains dest where "dest \<in> set (CASE_TRANSITIONS (cc_status c))"
    and "c' = c\<lparr>cc_status := dest, cc_closedAt := (if isCaseOpen dest then cc_closedAt c else Some (clk 0)),
      cc_closedBy := (if isCaseOpen dest then cc_closedBy c else Some (trim actorId)),
      cc_history := cc_history c @ [\<lparr>cx_from = cc_status c, cx_to = dest, cx_reason = trim reason, cx_actorId = trim actorId, cx_at = clk 0\<rparr>]\<rparr>"
  using assms unfolding transitionCase_def Let_def
  by (auto simp: result_simps isCaseOpen_iff case_assertNonBlank_Inr split: option.splits if_splits)

lemma escalateCase_Inr:
  assumes "escalateCase c target reason actorId clk = Inr (c', e)"
  shows "isCaseOpen (cc_status c) \<and> target \<in> set CASE_PRIORITIES \<and> CASE_PRIORITY_RANK (cc_priority c) < CASE_PRIORITY_RANK target \<and>
    c' = c\<lparr>cc_priority := target, cc_priorityChanges := cc_priorityChanges c @
      [\<lparr>cp_from = cc_priority c, cp_to = target, cp_reason = trim reason, cp_actorId = trim actorId, cp_at = clk 0\<rparr>]\<rparr>"
  using assms unfolding escalateCase_def Let_def
  by (auto simp: result_simps assertPriority_def case_assertNonBlank_Inr simp del: CASE_PRIORITY_RANK.simps split: if_splits)

text \<open>An automated outbound send that carries no consent.\<close>

definition unconsented :: "case_action \<Rightarrow> bool" where
  "unconsented a \<longleftrightarrow> ca_type a \<in> set OUTBOUND_ACTION_TYPES \<and> ca_source a = ''automated'' \<and> ca_consentRef a = None"

lemma recordAction_Inr:
  assumes "recordAction c args clk = Inr (c', e)"
  shows "isCaseOpen (cc_status c) \<and> (\<exists>a. c' = c\<lparr>cc_actions := cc_actions c @ [a]\<rparr> \<and> \<not> unconsented a)"
  using assms unfolding recordAction_def Let_def
  by (auto simp: result_simps unconsented_def assertActionType_def split: if_splits)

lemma completeAction_Inr:
  assumes "completeAction c i outcome actorId clk = Inr c'"
  shows "isCaseOpen (cc_status c) \<and> (\<exists>o' by'. c' = c\<lparr>cc_actions := map (\<lambda>a. if ca_id a = i
    then a\<lparr>ca_outcome := Some o', ca_completedAt := Some (clk 0), ca_completedBy := Some by'\<rparr> else a) (cc_actions c)\<rparr>)"
  using assms unfolding completeAction_def Let_def
  by (auto simp: result_simps split: if_splits option.splits)

section \<open>One case: its logs\<close>

fun case_trail :: "case_status \<Rightarrow> case_transition list \<Rightarrow> case_status \<Rightarrow> bool" where
  "case_trail s [] t = (s = t)"
| "case_trail s (h # hs) t = (cx_from h = s \<and> cx_to h \<in> set (CASE_TRANSITIONS s) \<and> case_trail (cx_to h) hs t)"

lemma case_trail_snoc:
  "case_trail s (hs @ [h]) t \<longleftrightarrow> case_trail s hs (cx_from h) \<and> cx_to h \<in> set (CASE_TRANSITIONS (cx_from h)) \<and> cx_to h = t"
  by (induction hs arbitrary: s) auto

fun climbs :: "string \<Rightarrow> case_priority_change list \<Rightarrow> string \<Rightarrow> bool" where
  "climbs p [] q = (p = q)"
| "climbs p (h # hs) q = (cp_from h = p \<and> CASE_PRIORITY_RANK p < CASE_PRIORITY_RANK (cp_to h) \<and> climbs (cp_to h) hs q)"

lemma climbs_snoc:
  "climbs p (hs @ [h]) q \<longleftrightarrow>
     climbs p hs (cp_from h) \<and> CASE_PRIORITY_RANK (cp_from h) < CASE_PRIORITY_RANK (cp_to h) \<and> cp_to h = q"
  by (induction hs arbitrary: p) (auto simp del: CASE_PRIORITY_RANK.simps)

definition case_ok :: "string \<Rightarrow> collections_case \<Rightarrow> bool" where
  "case_ok p c \<longleftrightarrow> case_trail CS_Open (cc_history c) (cc_status c) \<and> climbs p (cc_priorityChanges c) (cc_priority c) \<and>
     (isCaseOpen (cc_status c) \<longleftrightarrow> cc_closedAt c = None) \<and> (\<forall>a \<in> set (cc_actions c). \<not> unconsented a)"

lemma case_step_ok:
  assumes "case_ok p c" and "case_step c cmd = Inr c'"
  shows "case_ok p c'"
proof (cases cmd)
  case (Move_Case target reason actorId clk)
  with assms(2) obtain es where "transitionCase c target reason actorId clk = Inr (c', es)" by (auto simp: result_simps)
  then show ?thesis
  proof (rule transitionCase_Inr)
    fix dest
    assume "dest \<in> set (CASE_TRANSITIONS (cc_status c))" and c': "c' = c\<lparr>cc_status := dest,
      cc_closedAt := (if isCaseOpen dest then cc_closedAt c else Some (clk 0)),
      cc_closedBy := (if isCaseOpen dest then cc_closedBy c else Some (trim actorId)),
      cc_history := cc_history c @ [\<lparr>cx_from = cc_status c, cx_to = dest, cx_reason = trim reason, cx_actorId = trim actorId, cx_at = clk 0\<rparr>]\<rparr>"
    then show ?thesis using assms(1) by (auto simp: case_ok_def case_trail_snoc isCaseOpen_iff)
  qed
next
  case (Escalate target reason actorId clk)
  with assms(2) obtain e where "escalateCase c target reason actorId clk = Inr (c', e)" by (auto simp: result_simps)
  from escalateCase_Inr[OF this] assms(1) show ?thesis by (auto simp: case_ok_def climbs_snoc simp del: CASE_PRIORITY_RANK.simps)
next
  case (Record_Action args clk)
  with assms(2) obtain e where "recordAction c args clk = Inr (c', e)" by (auto simp: result_simps)
  from recordAction_Inr[OF this] assms(1) show ?thesis by (auto simp: case_ok_def)
next
  case (Complete_Action i outcome actorId clk)
  with assms(2) have "completeAction c i outcome actorId clk = Inr c'" by simp
  from completeAction_Inr[OF this] assms(1) show ?thesis by (auto simp: case_ok_def unconsented_def)
qed

interpretation case_machine: guarded_machine case_step "case_ok p" "\<lambda>_. True" for p
  by unfold_locales (rule case_step_ok)

lemma case_step_keeps:
  "case_step c cmd = Inr c' \<Longrightarrow> isCaseOpen (cc_status c) \<and> cc_receivableIds c' = cc_receivableIds c \<and> cc_id c' = cc_id c"
  by (cases cmd) (auto simp: result_simps isCaseOpen_iff elim: transitionCase_Inr
      dest!: escalateCase_Inr recordAction_Inr completeAction_Inr)

interpretation case_final: absorbing_machine case_step "\<lambda>c. \<not> isCaseOpen (cc_status c)"
  by unfold_locales (use case_step_keeps in blast)

section \<open>The desk\<close>

abbreviation covered :: "collections_case list \<Rightarrow> uuid list" where
  "covered cs \<equiv> map cv_receivableId (openCaseCoverageOf cs)"

lemma covered_simps [simp]:
  "covered [] = []" "covered (c # cs) = (if isCaseOpen (cc_status c) then cc_receivableIds c else []) @ covered cs"
  "covered (cs @ ds) = covered cs @ covered ds"
  by (simp_all add: openCaseCoverageOf_def comp_def)

lemma covered_member: "d \<in> set cs \<Longrightarrow> isCaseOpen (cc_status d) \<Longrightarrow> set (cc_receivableIds d) \<subseteq> set (covered cs)"
  by (induction cs) auto

lemma desk_step_ok:
  assumes "distinct (covered cs)" and "desk_step cs cmd = Inr cs'"
  shows "distinct (covered cs')"
proof (cases cmd)
  case (Open_Case args clk)
  with assms(2) obtain c e where "openCase args (openCaseCoverageOf cs) clk = Inr (c, e)" "cs' = cs @ [c]"
    by (auto simp: result_simps)
  with openCase_Inr[of args "openCaseCoverageOf cs" clk c e] assms(1) show ?thesis by auto
next
  case (On_Case i c)
  with assms(2) obtain c' where c': "i < length cs" "case_step (cs ! i) c = Inr c'" "cs' = cs[i := c']"
    by (auto simp: result_simps split: if_splits)
  have "distinct (covered (take i cs @ (cs ! i) # drop (Suc i) cs))" using assms(1) c'(1) by (simp add: id_take_nth_drop[symmetric])
  with case_step_keeps[OF c'(2)] c'(1,3) show ?thesis by (auto simp: upd_conv_take_nth_drop)
qed

interpretation desk: guarded_machine desk_step "\<lambda>cs. distinct (covered cs)" "\<lambda>_. True"
  by unfold_locales (rule desk_step_ok)

section \<open>Properties of collection cases\<close>

text \<open>
  C17. One case per receivable (R8): whatever cases are opened, moved, escalated and worked on, in
  any order, no receivable is covered by two open cases, so the coverage the lane projects for the
  next opening names each receivable once; and a case that covers one of them is refused.
\<close>

theorem case_exclusive:
  "let desk = drive desk_step [] cmds in distinct (map cv_receivableId (openCaseCoverageOf desk)) \<and>
    (\<forall>args clk c e. openCase args (openCaseCoverageOf desk) clk = Inr (c, e) \<longrightarrow>
      (\<forall>d \<in> set desk. isCaseOpen (cc_status d) \<longrightarrow> set (cc_receivableIds c) \<inter> set (cc_receivableIds d) = {}))"
proof -
  define cs where "cs = drive desk_step [] cmds"
  have "distinct (covered cs)" unfolding cs_def by (rule desk.drive_inv) simp_all
  moreover have "set (cc_receivableIds c) \<inter> set (cc_receivableIds d) = {}"
    if "openCase args (openCaseCoverageOf cs) clk = Inr (c, e)" "d \<in> set cs" "isCaseOpen (cc_status d)" for args clk c e d
  proof -
    have "set (cc_receivableIds d) \<subseteq> set (covered cs)" using that(2,3) by (rule covered_member)
    with openCase_Inr[OF that(1)] show ?thesis by blast
  qed
  ultimately show ?thesis unfolding cs_def Let_def by blast
qed

definition sample_case_args :: open_case_args where
  "sample_case_args = \<lparr>oc_id = ''k1'', oc_orgId = ''org'', oc_receivableIds = [''r1'', ''r2''], oc_collectorId = ''u1'',
     oc_priority = None, oc_openedBy = ''u2'', oc_sequenceNo = Fin 7, oc_formatNumber = None\<rparr>"

definition sample_case :: collections_case where
  "sample_case = \<lparr>cc_id = ''k1'', cc_caseNumber = ''CASE-000007'', cc_sequence = 7, cc_orgId = ''org'',
     cc_receivableIds = [''r1'', ''r2''], cc_collectorId = ''u1'', cc_priority = ''normal'', cc_status = CS_Open, cc_openedAt = 0,
     cc_openedBy = ''u2'', cc_closedAt = None, cc_closedBy = None, cc_actions = [], cc_history = [], cc_priorityChanges = []\<rparr>"

lemma sample_case_opens: "\<exists>e. openCase sample_case_args [] (\<lambda>_. 0) = Inr (sample_case, e)"
proof -
  have "trim ''u1'' = ''u1''" "trim ''u2'' = ''u2''" "trim ''r1'' \<noteq> []" "trim ''r2'' \<noteq> []"
    "trim (formatCaseNumber 7) = ''CASE-000007''" by code_simp+
  then show ?thesis by (simp add: openCase_def case_assertNonBlank_def sample_case_args_def sample_case_def max_safe_integer_def Let_def)
qed

theorem case_exclusive_witness:
  "\<exists>e. openCase sample_case_args (openCaseCoverageOf (drive desk_step [] [])) (\<lambda>_. 0) = Inr (sample_case, e) \<and>
     distinct (map cv_receivableId (openCaseCoverageOf (drive desk_step [] [Open_Case sample_case_args (\<lambda>_. 0)])))"
  using sample_case_opens case_exclusive[of "[Open_Case sample_case_args (\<lambda>_. 0)]"]
  by (auto simp: Let_def openCaseCoverageOf_def)

text \<open>
  C39. The record of a case is honest: whatever is done with it, its history is a path of the
  transition table to its status, its priority only climbed, by the changes it logs, it is closed
  exactly when its closing instant is set, no automated text message is in its log without a
  consent reference (K2), and once closed it never changes.
\<close>

theorem case_record_honest:
  assumes "openCase args coverage clk = Inr (c0, e)"
  shows "let c = drive case_step c0 cmds in
    case_trail CS_Open (cc_history c) (cc_status c) \<and> climbs (cc_priority c0) (cc_priorityChanges c) (cc_priority c) \<and>
    (isCaseOpen (cc_status c) \<longleftrightarrow> cc_closedAt c = None) \<and> (\<forall>a \<in> set (cc_actions c). \<not> unconsented a) \<and>
    (\<not> isCaseOpen (cc_status c) \<longrightarrow> drive case_step c more_cmds = c)"
proof -
  have "case_ok (cc_priority c0) c0" using openCase_Inr[OF assms] by (simp add: case_ok_def isCaseOpen_iff)
  from case_machine.drive_inv[OF this, of cmds] case_final.drive_terminal show ?thesis by (simp add: case_ok_def Let_def)
qed

theorem case_record_honest_witness:
  "climbs ''normal'' (cc_priorityChanges (drive case_step sample_case [Escalate ''urgent'' ''broken promise'' ''u1'' (\<lambda>_. 3)])) ''urgent''"
proof -
  have "trim ''broken promise'' = ''broken promise''" "trim ''u1'' = ''u1''" by code_simp+
  then have run: "cc_priority (drive case_step sample_case [Escalate ''urgent'' ''broken promise'' ''u1'' (\<lambda>_. 3)]) = ''urgent''"
    by (simp add: escalateCase_def sample_case_def isCaseOpen_def OPEN_CASE_STATUSES_def assertPriority_def CASE_PRIORITIES_def
        case_assertNonBlank_def)
  obtain e where "openCase sample_case_args [] (\<lambda>_. 0) = Inr (sample_case, e)" using sample_case_opens by blast
  from case_record_honest[OF this, of "[Escalate ''urgent'' ''broken promise'' ''u1'' (\<lambda>_. 3)]"] run
  show ?thesis unfolding Let_def by (simp add: sample_case_def del: climbs.simps case_step.simps drive.simps)
qed

text \<open>
  A case is shown as disputed exactly when the pause policy of the disputes lane holds one of
  its receivables: the derived status of a live case and the gate for automated collection agree
  on the same stored disputes.
\<close>

theorem disputed_iff_paused:
  assumes "isCaseOpen (cc_status c)" and "deriveCaseStatus c promises
      (map (\<lambda>d. \<lparr>df_receivableId = di_receivableId d, df_open = isDisputeOpen (di_status d)\<rparr>) ds) = Inr s"
  shows "s = Disputed \<longleftrightarrow> (\<exists>r \<in> set (cc_receivableIds c).
    \<not> automatedCollectionAllowed (map toDisputeFacts (filter (\<lambda>d. di_receivableId d = r) ds)))"
  using assms
  by (auto simp: deriveCaseStatus_def isCaseOpen_def OPEN_CASE_STATUSES_def automatedCollectionAllowed_def toDisputeFacts_def
      list_ex_iff result_simps split: if_splits)

theorem disputed_iff_paused_witness:
  "deriveCaseStatus sample_case [] (map (\<lambda>d. \<lparr>df_receivableId = di_receivableId d, df_open = isDisputeOpen (di_status d)\<rparr>) []) = Inr Waiting \<and>
   (\<forall>r \<in> set (cc_receivableIds sample_case). automatedCollectionAllowed (map toDisputeFacts (filter (\<lambda>d. di_receivableId d = r) [])))"
proof -
  have run: "deriveCaseStatus sample_case [] (map (\<lambda>d. \<lparr>df_receivableId = di_receivableId d, df_open = isDisputeOpen (di_status d)\<rparr>) []) = Inr Waiting"
    by (simp add: deriveCaseStatus_def sample_case_def assertPromiseFacts_def)
  have "isCaseOpen (cc_status sample_case)" by (simp add: sample_case_def isCaseOpen_def OPEN_CASE_STATUSES_def)
  from disputed_iff_paused[OF this run] run show ?thesis by blast
qed

definition sample_action :: "string option \<Rightarrow> record_action_args" where
  "sample_action outcome = \<lparr>ra_id = Some ''a1'', ra_type = ''call'', ra_scheduledFor = 0, ra_outcome = outcome, ra_actorId = ''u1'',
     ra_source = None, ra_consentRef = None\<rparr>"

text \<open>
  A completed entry can be rewritten: ids of actions are not checked for uniqueness, and
  completing by id stamps every entry with it. After a call logged as open and a second entry
  with the same id logged with its outcome, completing the first replaces the outcome of the
  second.
\<close>

theorem completed_entry_rewritten:
  "map ca_outcome (cc_actions (drive case_step sample_case
      [Record_Action (sample_action None) (\<lambda>_. 1), Record_Action (sample_action (Some ''paid'')) (\<lambda>_. 2)])) = [None, Some ''paid''] \<and>
   map ca_outcome (cc_actions (drive case_step sample_case
      [Record_Action (sample_action None) (\<lambda>_. 1), Record_Action (sample_action (Some ''paid'')) (\<lambda>_. 2),
       Complete_Action ''a1'' ''no answer'' None (\<lambda>_. 3)])) = [Some ''no answer'', Some ''no answer'']"
proof -
  have "trim ''a1'' = ''a1''" "trim ''u1'' = ''u1''" "trim ''paid'' = ''paid''" "trim ''no answer'' = ''no answer''" by code_simp+
  then show ?thesis
    by (simp add: recordAction_def completeAction_def sample_case_def sample_action_def isCaseOpen_def OPEN_CASE_STATUSES_def
        assertActionType_def CASE_ACTION_TYPES_def action_source_def OUTBOUND_ACTION_TYPES_def optional_nonBlank_def case_assertNonBlank_def)
qed

end
