(* ===== verification/Consent.thy ===== *)
theory Consent
  imports Js_Date Contracts
begin

text \<open>
  The consent register of the Data Protection Act (\<open>src/src/domain/consent/\<close>): grants per
  customer, channel and purpose (\<open>consent-grant.ts\<close>), the guard in front of every contact
  (\<open>guard.ts\<close>) and the export for a data subject (\<open>dsar.ts\<close>).
\<close>

section \<open>Grants\<close>

definition CONSENT_CHANNELS :: "string list" where
  "CONSENT_CHANNELS = [''whatsapp'', ''sms'', ''email'']"

definition CONSENT_PURPOSES :: "string list" where
  "CONSENT_PURPOSES = [''dunning'', ''marketing'']"

record consent_grant =
  cg_id :: uuid
  cg_customerId :: uuid
  cg_channel :: string
  cg_purpose :: string
  cg_grantedAt :: date
  cg_revokedAt :: "date option"

definition assertChannel :: "string \<Rightarrow> string result" where
  "assertChannel channel = (if channel \<notin> set CONSENT_CHANNELS then throw ''CONSENT_CHANNEL_INVALID'' else Inr channel)"

definition assertPurpose :: "string \<Rightarrow> string result" where
  "assertPurpose purpose = (if purpose \<notin> set CONSENT_PURPOSES then throw ''CONSENT_PURPOSE_INVALID'' else Inr purpose)"

definition isActiveAt :: "consent_grant \<Rightarrow> date \<Rightarrow> bool" where
  "isActiveAt grant instant \<longleftrightarrow> cg_grantedAt grant \<le> instant \<and> (case cg_revokedAt grant of None \<Rightarrow> True | Some t \<Rightarrow> t > instant)"

record grant_consent_args =
  gc_id :: uuid
  gc_customerId :: uuid
  gc_channel :: string
  gc_purpose :: string

definition grantConsent :: "grant_consent_args \<Rightarrow> consent_grant list \<Rightarrow> clock \<Rightarrow> consent_grant result" where
  "grantConsent args existing clk =
     and_then (assertChannel (gc_channel args)) (\<lambda>channel.
     and_then (assertPurpose (gc_purpose args)) (\<lambda>purpose.
       let grantedAt = clk 0 in
       if list_ex (\<lambda>g. cg_id g = gc_id args) existing then throw ''CONSENT_GRANT_ID_TAKEN''
       else if list_ex (\<lambda>g. cg_customerId g = gc_customerId args \<and> cg_channel g = channel \<and> cg_purpose g = purpose \<and>
           isActiveAt g grantedAt) existing then throw ''CONSENT_ALREADY_ACTIVE''
       else Inr \<lparr>cg_id = gc_id args, cg_customerId = gc_customerId args, cg_channel = channel, cg_purpose = purpose,
         cg_grantedAt = grantedAt, cg_revokedAt = None\<rparr>))"

definition revokeConsent :: "consent_grant \<Rightarrow> clock \<Rightarrow> consent_grant result" where
  "revokeConsent grant clk = (if cg_revokedAt grant \<noteq> None then throw ''CONSENT_ALREADY_REVOKED''
     else Inr (grant\<lparr>cg_revokedAt := Some (clk 0)\<rparr>))"

section \<open>The contact guard\<close>

datatype refusal_cause = NO_GRANT | REVOKED | WRONG_PURPOSE | WRONG_CHANNEL

datatype contact_decision = Contact_Allowed consent_grant | Contact_Refused refusal_cause

record contact_request =
  cq_customerId :: uuid
  cq_channel :: string
  cq_purpose :: string

text \<open>The reducer that keeps the grant given last.\<close>

definition latest_grant :: "consent_grant option \<Rightarrow> consent_grant \<Rightarrow> consent_grant option" where
  "latest_grant best g = (case best of None \<Rightarrow> Some g
     | Some b \<Rightarrow> if cg_grantedAt g \<ge> cg_grantedAt b then Some g else Some b)"

definition assertCanContact :: "consent_grant list \<Rightarrow> contact_request \<Rightarrow> clock \<Rightarrow> contact_decision result" where
  "assertCanContact grants request clk =
     and_then (assertChannel (cq_channel request)) (\<lambda>channel.
     and_then (assertPurpose (cq_purpose request)) (\<lambda>purpose.
       let now = clk 0;
           mine = filter (\<lambda>g. cg_customerId g = cq_customerId request) grants;
           exact = filter (\<lambda>g. cg_channel g = channel \<and> cg_purpose g = purpose) mine in
       case foldl latest_grant None (filter (\<lambda>g. isActiveAt g now) exact) of
         Some active \<Rightarrow> Inr (Contact_Allowed active)
       | None \<Rightarrow>
           if list_ex (\<lambda>g. cg_revokedAt g \<noteq> None) exact then Inr (Contact_Refused REVOKED)
           else if list_ex (\<lambda>g. cg_purpose g = purpose \<and> cg_channel g \<noteq> channel \<and> isActiveAt g now) mine
           then Inr (Contact_Refused WRONG_CHANNEL)
           else if list_ex (\<lambda>g. cg_channel g = channel \<and> cg_purpose g \<noteq> purpose \<and> isActiveAt g now) mine
           then Inr (Contact_Refused WRONG_PURPOSE)
           else Inr (Contact_Refused NO_GRANT)))"

definition assertWhatsAppDunningAllowed :: "consent_grant list \<Rightarrow> uuid \<Rightarrow> clock \<Rightarrow> contact_decision result" where
  "assertWhatsAppDunningAllowed grants customerId clk =
     assertCanContact grants \<lparr>cq_customerId = customerId, cq_channel = ''whatsapp'', cq_purpose = ''dunning''\<rparr> clk"

section \<open>The export for a data subject\<close>

record consent_granted_entry =
  ge_grantId :: uuid
  ge_channel :: string
  ge_purpose :: string
  ge_grantedAt :: date

record consent_revoked_entry =
  rv_grantId :: uuid
  rv_channel :: string
  rv_purpose :: string
  rv_revokedAt :: date

record consent_trail =
  ct_customerId :: uuid
  ct_granted :: "consent_granted_entry list"
  ct_revoked :: "consent_revoked_entry list"
  ct_active :: "consent_grant list"

definition by_granted :: "consent_grant list \<Rightarrow> consent_grant list" where
  "by_granted = sort_key (\<lambda>g. (cg_grantedAt g, cg_id g))"

definition consentTrail :: "consent_grant list \<Rightarrow> uuid \<Rightarrow> consent_trail" where
  "consentTrail grants customerId =
     (let mine = filter (\<lambda>g. cg_customerId g = customerId) grants in
      \<lparr>ct_customerId = customerId,
       ct_granted = map (\<lambda>g. \<lparr>ge_grantId = cg_id g, ge_channel = cg_channel g, ge_purpose = cg_purpose g,
         ge_grantedAt = cg_grantedAt g\<rparr>) (by_granted mine),
       ct_revoked = map (\<lambda>g. \<lparr>rv_grantId = cg_id g, rv_channel = cg_channel g, rv_purpose = cg_purpose g,
         rv_revokedAt = the (cg_revokedAt g)\<rparr>)
         (sort_key (\<lambda>g. (the (cg_revokedAt g), cg_id g)) (filter (\<lambda>g. cg_revokedAt g \<noteq> None) mine)),
       ct_active = by_granted (filter (\<lambda>g. cg_revokedAt g = None) mine)\<rparr>)"

section \<open>What the guard decides\<close>

abbreviation covers :: "contact_request \<Rightarrow> consent_grant \<Rightarrow> bool" where
  "covers q g \<equiv> cg_customerId g = cq_customerId q \<and> cg_channel g = cq_channel q \<and> cg_purpose g = cq_purpose q"

lemma latest_grant_Some:
  "\<exists>g. foldl latest_grant (Some b) gs = Some g \<and> (g = b \<or> g \<in> set gs) \<and> cg_grantedAt b \<le> cg_grantedAt g \<and>
     (\<forall>h \<in> set gs. cg_grantedAt h \<le> cg_grantedAt g)"
proof (induction gs arbitrary: b)
  case (Cons x xs)
  show ?case
  proof (cases "cg_grantedAt x \<ge> cg_grantedAt b")
    case True
    with Cons[of x] show ?thesis by (auto simp: latest_grant_def)
  next
    case False
    with Cons[of b] show ?thesis by (auto simp: latest_grant_def)
  qed
qed simp

lemma latest_grant_None: "foldl latest_grant None gs = None \<longleftrightarrow> gs = []"
proof (cases gs)
  case (Cons x xs)
  with latest_grant_Some[of x xs] show ?thesis by (auto simp: latest_grant_def)
qed simp

lemma latest_grant_facts:
  assumes "foldl latest_grant None gs = Some g"
  shows "g \<in> set gs \<and> (\<forall>h \<in> set gs. cg_grantedAt h \<le> cg_grantedAt g)"
proof (cases gs)
  case (Cons x xs)
  with latest_grant_Some[of x xs] assms show ?thesis by (auto simp: latest_grant_def)
qed (use assms in simp)

lemma assertCanContact_allowed:
  assumes "assertCanContact gs q clk = Inr (Contact_Allowed g)"
  shows "g \<in> set gs \<and> covers q g \<and> isActiveAt g (clk 0) \<and>
    (\<forall>h \<in> set gs. covers q h \<and> isActiveAt h (clk 0) \<longrightarrow> cg_grantedAt h \<le> cg_grantedAt g)"
proof -
  let ?live = "filter (\<lambda>g. isActiveAt g (clk 0)) (filter (\<lambda>g. cg_channel g = cq_channel q \<and> cg_purpose g = cq_purpose q)
    (filter (\<lambda>g. cg_customerId g = cq_customerId q) gs))"
  have "foldl latest_grant None ?live = Some g" using assms
    by (auto simp: assertCanContact_def assertChannel_def assertPurpose_def result_simps Let_def split: option.splits if_splits)
  from latest_grant_facts[OF this] show ?thesis by auto
qed

lemma assertCanContact_refused:
  assumes "assertCanContact gs q clk = Inr (Contact_Refused c)"
  shows "(\<forall>g \<in> set gs. covers q g \<longrightarrow> \<not> isActiveAt g (clk 0)) \<and>
    (c = REVOKED \<longleftrightarrow> (\<exists>g \<in> set gs. covers q g \<and> cg_revokedAt g \<noteq> None))"
  using assms
  by (auto simp: assertCanContact_def assertChannel_def assertPurpose_def result_simps Let_def latest_grant_None
      filter_empty_conv list_ex_iff split: option.splits if_splits)

lemma assertCanContact_total:
  assumes "cq_channel q \<in> set CONSENT_CHANNELS" and "cq_purpose q \<in> set CONSENT_PURPOSES"
  shows "\<exists>d. assertCanContact gs q clk = Inr d"
  using assms unfolding assertCanContact_def assertChannel_def assertPurpose_def Let_def
  by (simp split: option.split)

section \<open>The register over time\<close>

text \<open>
  The store of the caller, with the instant of the last change: a grant is added, and a
  revocation replaces the row it revokes. Time does not run backwards.
\<close>

datatype register_command = Grant grant_consent_args nat | Withdraw uuid nat

fun register_step :: "date \<times> consent_grant list \<Rightarrow> register_command \<Rightarrow> (date \<times> consent_grant list) result" where
  "register_step (t, gs) (Grant args dt) =
     and_then (grantConsent args gs (\<lambda>_. t + int dt)) (\<lambda>g. Inr (t + int dt, gs @ [g]))"
| "register_step (t, gs) (Withdraw i dt) = (case find (\<lambda>g. cg_id g = i) gs of None \<Rightarrow> throw ''NOT_FOUND''
     | Some g \<Rightarrow> and_then (revokeConsent g (\<lambda>_. t + int dt)) (\<lambda>g'. Inr (t + int dt, filter (\<lambda>h. cg_id h \<noteq> i) gs @ [g'])))"

abbreviation same_triple :: "consent_grant \<Rightarrow> consent_grant \<Rightarrow> bool" where
  "same_triple g h \<equiv> cg_customerId g = cg_customerId h \<and> cg_channel g = cg_channel h \<and> cg_purpose g = cg_purpose h"

definition register_ok :: "date \<times> consent_grant list \<Rightarrow> bool" where
  "register_ok = (\<lambda>(t, gs). distinct (map cg_id gs) \<and>
     (\<forall>g \<in> set gs. cg_grantedAt g \<le> t \<and> (\<forall>r. cg_revokedAt g = Some r \<longrightarrow> r \<le> t)) \<and>
     (\<forall>g \<in> set gs. \<forall>h \<in> set gs. same_triple g h \<and> cg_revokedAt g = None \<and> cg_revokedAt h = None \<longrightarrow> g = h))"

lemma grantConsent_Inr:
  assumes "grantConsent args gs clk = Inr g"
  shows "g = \<lparr>cg_id = gc_id args, cg_customerId = gc_customerId args, cg_channel = gc_channel args, cg_purpose = gc_purpose args,
      cg_grantedAt = clk 0, cg_revokedAt = None\<rparr> \<and> cg_id g \<notin> cg_id ` set gs \<and>
    (\<forall>h \<in> set gs. same_triple g h \<longrightarrow> \<not> isActiveAt h (clk 0))"
  using assms by (auto simp: grantConsent_def assertChannel_def assertPurpose_def result_simps Let_def list_ex_iff split: if_splits)

lemma register_grant_ok:
  assumes "register_ok (t, gs)" and "grantConsent args gs (\<lambda>_. t + int dt) = Inr g"
  shows "register_ok (t + int dt, gs @ [g])"
proof -
  have ok: "\<forall>h \<in> set gs. cg_grantedAt h \<le> t \<and> (\<forall>r. cg_revokedAt h = Some r \<longrightarrow> r \<le> t)"
    using assms(1) by (simp add: register_ok_def)
  note g = grantConsent_Inr[OF assms(2)]
  have "cg_revokedAt h \<noteq> None" if "h \<in> set gs" "same_triple g h" for h
    using g ok that by (fastforce simp: isActiveAt_def)
  moreover have "cg_grantedAt g = t + int dt" "cg_revokedAt g = None" using g by simp_all
  ultimately show ?thesis using assms(1) g ok by (fastforce simp: register_ok_def)
qed

lemma register_withdraw_ok:
  assumes "register_ok (t, gs)" and "find (\<lambda>g. cg_id g = i) gs = Some g" and "revokeConsent g (\<lambda>_. t + int dt) = Inr g'"
  shows "register_ok (t + int dt, filter (\<lambda>h. cg_id h \<noteq> i) gs @ [g'])"
proof -
  have g: "g \<in> set gs" "cg_id g = i" using assms(2) by (auto simp: find_Some_iff)
  have g': "g' = g\<lparr>cg_revokedAt := Some (t + int dt)\<rparr>" using assms(3) by (auto simp: revokeConsent_def split: if_splits)
  let ?gs = "filter (\<lambda>h. cg_id h \<noteq> i) gs"
  have old: "distinct (map cg_id gs)" "\<forall>h \<in> set gs. cg_grantedAt h \<le> t \<and> (\<forall>r. cg_revokedAt h = Some r \<longrightarrow> r \<le> t)"
    "\<forall>h \<in> set gs. \<forall>k \<in> set gs. same_triple h k \<and> cg_revokedAt h = None \<and> cg_revokedAt k = None \<longrightarrow> h = k"
    using assms(1) by (simp_all add: register_ok_def)
  have "distinct (map cg_id (?gs @ [g']))" using old(1) g(2) by (auto simp: g' distinct_map_filter)
  moreover have "cg_grantedAt h \<le> t + int dt \<and> (\<forall>r. cg_revokedAt h = Some r \<longrightarrow> r \<le> t + int dt)" if "h \<in> set (?gs @ [g'])" for h
  proof (cases "h = g'")
    case True
    with old(2) g(1) show ?thesis by (simp add: g' order_trans[of _ t])
  next
    case False
    with that have "h \<in> set gs" by simp
    with old(2) show ?thesis by (meson add_increasing2 of_nat_0_le_iff)
  qed
  moreover have "x \<in> set gs" if "x \<in> set (?gs @ [g'])" "cg_revokedAt x = None" for x
    using that by (cases "x = g'") (simp_all add: g')
  then have "\<forall>h \<in> set (?gs @ [g']). \<forall>k \<in> set (?gs @ [g']). same_triple h k \<and> cg_revokedAt h = None \<and> cg_revokedAt k = None \<longrightarrow> h = k"
    using old(3) by meson
  ultimately show ?thesis unfolding register_ok_def prod.case by blast
qed

interpretation consent_register: guarded_machine register_step register_ok "\<lambda>_. True"
proof
  fix s c s'
  assume "register_ok s" and "register_step s c = Inr s'"
  then show "register_ok s'"
    by (cases s; cases c)
      (auto simp: result_simps intro: register_grant_ok register_withdraw_ok split: option.splits)
qed

lemma register_ok_active:
  assumes "register_ok (t, gs)" and "g \<in> set gs" and "t \<le> now"
  shows "isActiveAt g now \<longleftrightarrow> cg_revokedAt g = None"
  using assms by (fastforce simp: register_ok_def isActiveAt_def split: option.splits)

section \<open>Properties of consent\<close>

text \<open>
  C18. No contact without consent (K2): over any sequence of grants and withdrawals in the order of
  time, ids stay distinct, a customer has at most one live grant per channel and purpose, and
  from then on the guard allows a contact exactly when that live grant exists, names it, and
  otherwise refuses, with the reason REVOKED exactly when consent was given and withdrawn.
\<close>

theorem contact_needs_live_grant:
  assumes "(t, gs) = drive register_step (t0, []) cmds" and "t \<le> clk 0"
    and "cq_channel q \<in> set CONSENT_CHANNELS" and "cq_purpose q \<in> set CONSENT_PURPOSES"
  shows "distinct (map cg_id gs) \<and>
    (\<forall>g. assertCanContact gs q clk = Inr (Contact_Allowed g) \<longleftrightarrow> g \<in> set gs \<and> covers q g \<and> cg_revokedAt g = None) \<and>
    (assertCanContact gs q clk = Inr (Contact_Refused REVOKED) \<longleftrightarrow>
      (\<exists>g \<in> set gs. covers q g) \<and> (\<forall>g \<in> set gs. covers q g \<longrightarrow> cg_revokedAt g \<noteq> None))"
proof -
  have "register_ok (t0, [])" by (simp add: register_ok_def)
  from consent_register.drive_inv[OF this, of cmds] assms(1) have ok: "register_ok (t, gs)" by simp
  then have unique: "g = h" if "g \<in> set gs" "h \<in> set gs" "covers q g" "covers q h" "cg_revokedAt g = None" "cg_revokedAt h = None" for g h
    using that by (auto simp: register_ok_def)
  note active = register_ok_active[OF ok _ assms(2)]
  have "distinct (map cg_id gs)" using ok by (simp add: register_ok_def)
  moreover obtain d where d: "assertCanContact gs q clk = Inr d" using assertCanContact_total[OF assms(3,4)] by blast
  have "(\<forall>g. assertCanContact gs q clk = Inr (Contact_Allowed g) \<longleftrightarrow> g \<in> set gs \<and> covers q g \<and> cg_revokedAt g = None) \<and>
    (assertCanContact gs q clk = Inr (Contact_Refused REVOKED) \<longleftrightarrow>
      (\<exists>g \<in> set gs. covers q g) \<and> (\<forall>g \<in> set gs. covers q g \<longrightarrow> cg_revokedAt g \<noteq> None))"
  proof (cases d)
    case (Contact_Allowed g)
    with assertCanContact_allowed[of gs q clk g] d active unique show ?thesis by auto
  next
    case (Contact_Refused c)
    with assertCanContact_refused[of gs q clk c] d active show ?thesis by auto
  qed
  ultimately show ?thesis by simp
qed

definition sample_grant_args :: grant_consent_args where
  "sample_grant_args = \<lparr>gc_id = ''g1'', gc_customerId = ''c1'', gc_channel = ''sms'', gc_purpose = ''dunning''\<rparr>"

lemma sample_register:
  "drive register_step (0, []) [Grant sample_grant_args 5, Withdraw ''g1'' 7] =
     (12, [\<lparr>cg_id = ''g1'', cg_customerId = ''c1'', cg_channel = ''sms'', cg_purpose = ''dunning'', cg_grantedAt = 5, cg_revokedAt = Some 12\<rparr>])"
  by (simp add: grantConsent_def assertChannel_def assertPurpose_def CONSENT_CHANNELS_def CONSENT_PURPOSES_def sample_grant_args_def
      revokeConsent_def)

theorem contact_needs_live_grant_witness:
  "assertCanContact (snd (drive register_step (0, []) [Grant sample_grant_args 5, Withdraw ''g1'' 7]))
     \<lparr>cq_customerId = ''c1'', cq_channel = ''sms'', cq_purpose = ''dunning''\<rparr> (\<lambda>_. 20) = Inr (Contact_Refused REVOKED)"
  unfolding sample_register
  using contact_needs_live_grant[OF sample_register[symmetric], of "\<lambda>_. 20" "\<lparr>cq_customerId = ''c1'', cq_channel = ''sms'', cq_purpose = ''dunning''\<rparr>"]
  by (simp add: CONSENT_CHANNELS_def CONSENT_PURPOSES_def)

text \<open>
  C40. A revocation kept beside the row it revokes has no effect: the register described with
  \<open>revokeConsent\<close> keeps the original row alongside the returned one, and the guard then goes on
  allowing the contact at every later instant.
\<close>

theorem revocation_alongside_ignored:
  assumes "revokeConsent g rclk = Inr g'" and "g \<in> set gs" and "g' \<in> set gs" and "cg_grantedAt g \<le> clk 0"
    and "cg_channel g \<in> set CONSENT_CHANNELS" and "cg_purpose g \<in> set CONSENT_PURPOSES"
  shows "\<exists>h. assertCanContact gs \<lparr>cq_customerId = cg_customerId g, cq_channel = cg_channel g, cq_purpose = cg_purpose g\<rparr> clk =
    Inr (Contact_Allowed h)"
proof -
  let ?q = "\<lparr>cq_customerId = cg_customerId g, cq_channel = cg_channel g, cq_purpose = cg_purpose g\<rparr>"
  have "isActiveAt g (clk 0)" using assms(1,4) by (auto simp: revokeConsent_def isActiveAt_def split: if_splits)
  moreover obtain d where d: "assertCanContact gs ?q clk = Inr d" using assertCanContact_total[of ?q gs clk] assms(5,6) by auto
  ultimately show ?thesis using assertCanContact_refused[of gs ?q clk] assms(2) by (cases d) auto
qed

theorem revocation_alongside_ignored_witness:
  "let g = \<lparr>cg_id = ''g1'', cg_customerId = ''c1'', cg_channel = ''sms'', cg_purpose = ''dunning'', cg_grantedAt = 5, cg_revokedAt = None\<rparr> in
   \<exists>h. assertCanContact [g, g\<lparr>cg_revokedAt := Some 12\<rparr>] \<lparr>cq_customerId = ''c1'', cq_channel = ''sms'', cq_purpose = ''dunning''\<rparr> (\<lambda>_. 20) =
     Inr (Contact_Allowed h)"
  using revocation_alongside_ignored[of "\<lparr>cg_id = ''g1'', cg_customerId = ''c1'', cg_channel = ''sms'', cg_purpose = ''dunning'',
      cg_grantedAt = 5, cg_revokedAt = None\<rparr>" "\<lambda>_. 12" _ _ "\<lambda>_. 20"]
  by (simp add: revokeConsent_def CONSENT_CHANNELS_def CONSENT_PURPOSES_def)

text \<open>The export lists every grant and every revocation of the customer in order, and what is live.\<close>

lemma consentTrail_complete:
  "ct_active (consentTrail gs c) = by_granted (filter (\<lambda>g. cg_customerId g = c \<and> cg_revokedAt g = None) gs)"
  "sorted (map (\<lambda>e. (ge_grantedAt e, ge_grantId e)) (ct_granted (consentTrail gs c)))"
  "sorted (map (\<lambda>e. (rv_revokedAt e, rv_grantId e)) (ct_revoked (consentTrail gs c)))"
  "mset (map ge_grantId (ct_granted (consentTrail gs c))) =
     mset (map rv_grantId (ct_revoked (consentTrail gs c))) + mset (map cg_id (ct_active (consentTrail gs c)))"
proof -
  let ?mine = "filter (\<lambda>g. cg_customerId g = c) gs"
  show "ct_active (consentTrail gs c) = by_granted (filter (\<lambda>g. cg_customerId g = c \<and> cg_revokedAt g = None) gs)"
    by (simp add: consentTrail_def Let_def conj_commute)
  show "sorted (map (\<lambda>e. (ge_grantedAt e, ge_grantId e)) (ct_granted (consentTrail gs c)))"
    "sorted (map (\<lambda>e. (rv_revokedAt e, rv_grantId e)) (ct_revoked (consentTrail gs c)))"
    by (simp_all add: consentTrail_def Let_def by_granted_def comp_def)
  have "mset (filter (\<lambda>g. cg_revokedAt g \<noteq> None) ?mine) + mset (filter (\<lambda>g. \<not> cg_revokedAt g \<noteq> None) ?mine) = mset ?mine"
    by (simp only: mset_filter multiset_partition[symmetric])
  then show "mset (map ge_grantId (ct_granted (consentTrail gs c))) =
     mset (map rv_grantId (ct_revoked (consentTrail gs c))) + mset (map cg_id (ct_active (consentTrail gs c)))"
    unfolding consentTrail_def Let_def by_granted_def by (simp add: comp_def image_mset_union[symmetric] del: image_mset_union)
qed

end
