(* ===== verification/Etims.thy ===== *)
theory Etims
  imports Js_Number Js_Date
begin

text \<open>
  Invoice numbers for the tax authority (\<open>src/src/domain/consent/etims.ts\<close>): a country prefix, the
  year of issue, an eight-digit sequence from an injected source and a check character.
\<close>

section \<open>The check character\<close>

definition CHECK_ALPHABET :: string where
  "CHECK_ALPHABET = ''0123456789ABCDEFGHIJKLMNOPQRSTUVWXYZ''"

text \<open>\<open>text.indexOf(char)\<close>; \<open>None\<close> is the result \<open>-1\<close>.\<close>

fun index_of :: "char \<Rightarrow> string \<Rightarrow> nat option" where
  "index_of c [] = None"
| "index_of c (d # ds) = (if d = c then Some 0 else map_option Suc (index_of c ds))"

definition charValue :: "char \<Rightarrow> nat result" where
  "charValue c = (case index_of c CHECK_ALPHABET of None \<Rightarrow> throw ''ETIMS_PAYLOAD_NOT_ALPHANUMERIC'' | Some v \<Rightarrow> Inr v)"

definition mod97Residue :: "string \<Rightarrow> nat result" where
  "mod97Residue payload = reduce (\<lambda>residue c. and_then (charValue c) (\<lambda>v. Inr ((residue * 36 + v) mod 97))) 0 payload"

definition checkCharacter :: "string \<Rightarrow> char result" where
  "checkCharacter payload = and_then (mod97Residue payload) (\<lambda>r. Inr (CHECK_ALPHABET ! (r mod 36)))"

section \<open>Issuing\<close>

definition MAX_SEQUENCE :: int where "MAX_SEQUENCE = 99999999"

definition sequence_valid :: "js_num \<Rightarrow> bool" where
  "sequence_valid x \<longleftrightarrow> is_integer_num x \<and> 1 \<le> int_of_num x \<and> int_of_num x \<le> MAX_SEQUENCE"

definition formatInvoiceNumber :: "js_num \<Rightarrow> js_num \<Rightarrow> string result" where
  "formatInvoiceNumber seqNo issuedYear =
     (if \<not> sequence_valid seqNo then throw ''ETIMS_SEQUENCE_INVALID''
      else if \<not> is_integer_num issuedYear \<or> int_of_num issuedYear < 1000 \<or> int_of_num issuedYear > 9999
      then throw ''ETIMS_CLOCK_INVALID''
      else let payload = ''KE'' @ int_to_string (int_of_num issuedYear) @ pad_num 8 (int_of_num seqNo) in
        and_then (checkCharacter payload) (\<lambda>c. Inr (payload @ [c])))"

text \<open>The loop over the sequences the source returned, with the \<open>Set\<close> it fills.\<close>

definition reserve_step :: "js_num set \<Rightarrow> js_num \<Rightarrow> js_num set result" where
  "reserve_step seen x = (if \<not> sequence_valid x then throw ''ETIMS_SEQUENCE_INVALID''
     else if x \<in> seen then throw ''ETIMS_SEQUENCE_DUPLICATE'' else Inr (insert x seen))"

definition reserveInvoiceNumbers :: "(int \<Rightarrow> js_num list) \<Rightarrow> clock \<Rightarrow> js_num \<Rightarrow> string list result" where
  "reserveInvoiceNumbers sequenceSource clk n =
     (if \<not> is_integer_num n \<or> int_of_num n < 1 then throw ''ETIMS_COUNT_INVALID''
      else let year = getUTCFullYear (clk 0); sequences = sequenceSource (int_of_num n) in
        if int (length sequences) \<noteq> int_of_num n then throw ''ETIMS_SEQUENCE_SOURCE_MISMATCH''
        else and_then (reduce reserve_step {} sequences) (\<lambda>_.
          traverse (\<lambda>x. formatInvoiceNumber x (Fin (of_int year))) sequences))"

section \<open>Checking\<close>

datatype invoice_number_parse = Number_Valid nat nat char | MALFORMED | CHECKSUM_MISMATCH

definition ETIMS_SHAPE :: "string \<Rightarrow> (string \<times> string \<times> char) option" where
  "ETIMS_SHAPE raw = (let year = take 4 (drop 2 raw); seqNo = take 8 (drop 6 raw) in
     if length raw = 15 \<and> take 2 raw = ''KE'' \<and> list_all is_digit year \<and> list_all is_digit seqNo \<and> raw ! 14 \<in> set CHECK_ALPHABET
     then Some (year, seqNo, raw ! 14) else None)"

definition validateInvoiceNumber :: "string \<Rightarrow> invoice_number_parse result" where
  "validateInvoiceNumber raw = (case ETIMS_SHAPE raw of None \<Rightarrow> Inr MALFORMED
     | Some (year, seqNo, checkChar) \<Rightarrow> and_then (checkCharacter (''KE'' @ year @ seqNo)) (\<lambda>expected.
         if checkChar \<noteq> expected then Inr CHECKSUM_MISMATCH
         else Inr (Number_Valid (nat_of_digits year) (nat_of_digits seqNo) checkChar)))"

section \<open>The check character is computed\<close>

lemma index_of_member: "c \<in> set s \<Longrightarrow> \<exists>i. index_of c s = Some i"
  by (induction s) auto

lemma charValue_Inr: "c \<in> set CHECK_ALPHABET \<Longrightarrow> \<exists>v. charValue c = Inr v"
  using index_of_member by (fastforce simp: charValue_def)

lemma mod97_reduce:
  "set s \<subseteq> set CHECK_ALPHABET \<Longrightarrow> r < 97 \<Longrightarrow>
    \<exists>r'. reduce (\<lambda>residue c. and_then (charValue c) (\<lambda>v. Inr ((residue * 36 + v) mod 97))) r s = Inr r' \<and> r' < 97"
proof (induction s arbitrary: r)
  case (Cons c s)
  then obtain v where "charValue c = Inr v" using charValue_Inr by fastforce
  with Cons show ?case by simp
qed simp

lemma checkCharacter_Inr:
  assumes "set s \<subseteq> set CHECK_ALPHABET"
  shows "\<exists>c. checkCharacter s = Inr c \<and> c \<in> set CHECK_ALPHABET"
proof -
  obtain r where "mod97Residue s = Inr r" using mod97_reduce[OF assms, of 0] by (auto simp: mod97Residue_def)
  moreover have "CHECK_ALPHABET ! (r mod 36) \<in> set CHECK_ALPHABET" by (rule nth_mem) (simp add: CHECK_ALPHABET_def)
  ultimately show ?thesis by (simp add: checkCharacter_def)
qed

lemma digit_alphabet: "is_digit c \<Longrightarrow> c \<in> set CHECK_ALPHABET"
proof -
  assume "is_digit c"
  then have "(of_char c :: nat) \<in> set [48..<58]" unfolding is_digit_def Let_def set_upt atLeastLessThan_iff by simp
  moreover have "list_all (\<lambda>n::nat. char_of n \<in> set CHECK_ALPHABET) [48..<58]" by code_simp
  ultimately have "char_of (of_char c :: nat) \<in> set CHECK_ALPHABET" by (simp only: list_all_iff)
  then show ?thesis by simp
qed

lemma nat_of_digits_less: "list_all is_digit s \<Longrightarrow> nat_of_digits s < 10 ^ length s"
proof (induction s rule: rev_induct)
  case (snoc c s)
  then have "nat_of_digits s + 1 \<le> 10 ^ length s" by simp
  moreover have "digit_val c < 10" using snoc.prems by (auto simp: is_digit_def digit_val_def Let_def)
  ultimately show ?case unfolding nat_of_digits_append_digit by simp
qed (simp add: nat_of_digits_def)

lemma four_digit_text:
  assumes "1000 \<le> y" and "y \<le> 9999"
  shows "length (int_to_string y) = 4 \<and> list_all is_digit (int_to_string y) \<and> nat_of_digits (int_to_string y) = nat y"
proof -
  have as_nat: "int_to_string y = nat_to_string (nat y)" using assms by (simp add: int_to_string_def)
  have digits: "list_all is_digit (nat_to_string (nat y))" using nat_to_string_digits by (simp add: list_all_iff)
  have "(10::nat) ^ 3 \<le> nat y" using assms by simp
  also have "nat y < 10 ^ length (nat_to_string (nat y))" using nat_of_digits_less[OF digits] by (simp only: nat_of_digits_to_string)
  finally have "(10::nat) ^ 3 < 10 ^ length (nat_to_string (nat y))" .
  then have "3 < length (nat_to_string (nat y))" by (rule power_less_imp_less_exp[rotated]) simp
  moreover have "length (nat_to_string (nat y)) \<le> 4" using assms by (intro nat_to_string_length) simp_all
  ultimately show ?thesis using digits by (simp add: as_nat)
qed

lemma formatInvoiceNumber_Inr:
  assumes "formatInvoiceNumber seqNo year = Inr s"
  shows "\<exists>c. sequence_valid seqNo \<and> s = ''KE'' @ int_to_string (int_of_num year) @ pad_num 8 (int_of_num seqNo) @ [c] \<and>
    checkCharacter (''KE'' @ int_to_string (int_of_num year) @ pad_num 8 (int_of_num seqNo)) = Inr c \<and>
    1000 \<le> int_of_num year \<and> int_of_num year \<le> 9999"
  using assms by (auto simp: formatInvoiceNumber_def result_simps Let_def split: if_splits)

lemma ETIMS_SHAPE_parts:
  assumes "length ys = 4" "length qs = 8" "list_all is_digit ys" "list_all is_digit qs" "c \<in> set CHECK_ALPHABET"
  shows "ETIMS_SHAPE (''KE'' @ ys @ qs @ [c]) = Some (ys, qs, c)"
proof -
  have "(''KE'' @ ys @ qs @ [c]) ! 14 = c" using assms(1,2) by (simp add: nth_append)
  then show ?thesis using assms by (simp add: ETIMS_SHAPE_def Let_def)
qed

lemma format_validates:
  assumes "formatInvoiceNumber seqNo year = Inr s"
  shows "validateInvoiceNumber s = Inr (Number_Valid (nat (int_of_num year)) (nat (int_of_num seqNo)) (last s))"
proof -
  let ?ys = "int_to_string (int_of_num year)" and ?qs = "pad_num 8 (int_of_num seqNo)"
  from formatInvoiceNumber_Inr[OF assms] obtain c where c: "sequence_valid seqNo" "s = ''KE'' @ ?ys @ ?qs @ [c]"
    "checkCharacter (''KE'' @ ?ys @ ?qs) = Inr c" "1000 \<le> int_of_num year" "int_of_num year \<le> 9999" by blast
  have ys: "length ?ys = 4" "list_all is_digit ?ys" "nat_of_digits ?ys = nat (int_of_num year)"
    using four_digit_text[OF c(4,5)] by simp_all
  have qs: "length ?qs = 8" "list_all is_digit ?qs" "nat_of_digits ?qs = nat (int_of_num seqNo)"
    using pad_num_digits[of 8 "int_of_num seqNo"] c(1) by (simp_all add: sequence_valid_def MAX_SEQUENCE_def)
  have "set ''KE'' \<subseteq> set CHECK_ALPHABET" by code_simp
  moreover have "set (?ys @ ?qs) \<subseteq> set CHECK_ALPHABET" using ys(2) qs(2) digit_alphabet unfolding list_all_iff set_append by blast
  ultimately have "set (''KE'' @ ?ys @ ?qs) \<subseteq> set CHECK_ALPHABET" by (simp only: set_append Un_subset_iff)
  from checkCharacter_Inr[OF this] c(3) have "c \<in> set CHECK_ALPHABET" by simp
  from ETIMS_SHAPE_parts[OF ys(1) qs(1) ys(2) qs(2) this] show ?thesis
    by (simp add: validateInvoiceNumber_def c(2,3)[simplified] ys(3) qs(3))
qed

lemma reserve_step_Inr: "reserve_step seen x = Inr seen' \<longleftrightarrow> sequence_valid x \<and> x \<notin> seen \<and> seen' = insert x seen"
  by (auto simp: reserve_step_def)

lemma reserve_steps_Inr:
  "reduce reserve_step seen xs = Inr seen' \<Longrightarrow> distinct xs \<and> set xs \<inter> seen = {} \<and> list_all sequence_valid xs"
proof (induction xs arbitrary: seen)
  case (Cons x xs)
  then have "sequence_valid x" "x \<notin> seen" "reduce reserve_step (insert x seen) xs = Inr seen'"
    by (auto simp: reserve_step_Inr and_then_Inr_iff)
  with Cons.IH[of "insert x seen"] show ?case by auto
qed simp

lemma sequence_valid_inj:
  assumes "sequence_valid x" and "sequence_valid y" and "int_of_num x = int_of_num y"
  shows "x = y"
proof -
  obtain p where "x = Fin p" "of_int \<lfloor>p\<rfloor> = p" using assms(1) by (cases x) (auto simp: sequence_valid_def)
  moreover obtain r where "y = Fin r" "of_int \<lfloor>r\<rfloor> = r" using assms(2) by (cases y) (auto simp: sequence_valid_def)
  ultimately show ?thesis using assms(3) by (metis int_of_num.simps(1))
qed

section \<open>Properties of invoice numbers\<close>

text \<open>
  Reserved numbers are valid and distinct: a reservation that returns has as many numbers as
  were asked for, no two equal, and each of them checks and gives back the year of the clock and
  the sequence it was made from.
\<close>

theorem reserved_numbers_valid:
  assumes "reserveInvoiceNumbers source clk n = Inr numbers"
  shows "int (length numbers) = int_of_num n \<and> distinct numbers \<and>
    (\<forall>i < length numbers. validateInvoiceNumber (numbers ! i) =
      Inr (Number_Valid (nat (getUTCFullYear (clk 0))) (nat (int_of_num (source (int_of_num n) ! i))) (last (numbers ! i))))"
proof -
  let ?xs = "source (int_of_num n)"
  obtain seen where r: "int (length ?xs) = int_of_num n" "reduce reserve_step {} ?xs = Inr seen"
    "traverse (\<lambda>x. formatInvoiceNumber x (Fin (of_int (getUTCFullYear (clk 0))))) ?xs = Inr numbers"
    using assms by (auto simp: reserveInvoiceNumbers_def result_simps Let_def split: if_splits)
  from reserve_steps_Inr[OF r(2)] have xs: "distinct ?xs" "list_all sequence_valid ?xs" by simp_all
  have len: "length numbers = length ?xs" using traverse_length[OF r(3)] .
  have valid: "validateInvoiceNumber (numbers ! i) = Inr (Number_Valid (nat (getUTCFullYear (clk 0)))
      (nat (int_of_num (?xs ! i))) (last (numbers ! i)))" if "i < length numbers" for i
    using format_validates[OF traverse_nth[OF r(3)]] that len by simp
  have "i = j" if "i < length numbers" "j < length numbers" "numbers ! i = numbers ! j" for i j
  proof -
    have v: "sequence_valid (?xs ! i)" "sequence_valid (?xs ! j)" using xs(2) that(1,2) len by (simp_all add: list_all_length)
    have "nat (int_of_num (?xs ! i)) = nat (int_of_num (?xs ! j))"
      using valid[OF that(1)] valid[OF that(2)] unfolding that(3) by simp
    with v have "?xs ! i = ?xs ! j" by (intro sequence_valid_inj) (simp_all add: sequence_valid_def eq_nat_nat_iff)
    with xs(1) that(1,2) len show ?thesis by (simp add: nth_eq_iff_index_eq)
  qed
  then have "distinct numbers" by (auto simp: distinct_conv_nth)
  with r(1) len valid show ?thesis by simp
qed

text \<open>Evaluation goes to the left of \<open>and_then\<close> first.\<close>

lemma and_then_weak_cong: "m = m' \<Longrightarrow> and_then m k = and_then m' k"
  by simp

lemmas check_eval = checkCharacter_def mod97Residue_def charValue_def CHECK_ALPHABET_def

lemma sample_numbers:
  "formatInvoiceNumber (Fin 7) (Fin 2026) = Inr ''KE2026000000076''" "formatInvoiceNumber (Fin 42) (Fin 2026) = Inr ''KE202600000042C''"
proof -
  have "int_to_string 2026 = ''2026''" "pad_num 8 7 = ''00000007''" "pad_num 8 42 = ''00000042''" by code_simp+
  then show "formatInvoiceNumber (Fin 7) (Fin 2026) = Inr ''KE2026000000076''" "formatInvoiceNumber (Fin 42) (Fin 2026) = Inr ''KE202600000042C''"
    by (simp_all add: formatInvoiceNumber_def sequence_valid_def MAX_SEQUENCE_def check_eval cong: and_then_weak_cong)
qed

theorem reserved_numbers_valid_witness:
  "\<exists>numbers. reserveInvoiceNumbers (\<lambda>_. [Fin 7, Fin 42]) (\<lambda>_. 1767225600000) (Fin 2) = Inr numbers \<and> distinct numbers"
proof -
  have "getUTCFullYear 1767225600000 = 2026" by code_simp
  then have "reserveInvoiceNumbers (\<lambda>_. [Fin 7, Fin 42]) (\<lambda>_. 1767225600000) (Fin 2) = Inr [''KE2026000000076'', ''KE202600000042C'']"
    by (simp add: reserveInvoiceNumbers_def reserve_step_def sequence_valid_def MAX_SEQUENCE_def sample_numbers cong: and_then_weak_cong)
  with reserved_numbers_valid[OF this] show ?thesis by blast
qed

text \<open>
  The check character misses digits that shift the residue: it is the residue modulo 97 taken
  modulo 36, so replacing the tens digit of a sequence can leave it as it was. The first two
  numbers below check although they differ in one digit, and their residues differ; the number
  given as an example in the source does not check.
\<close>

theorem substitution_undetected:
  "validateInvoiceNumber ''KE202600000042C'' = Inr (Number_Valid 2026 42 (CHR ''C'')) \<and>
   validateInvoiceNumber ''KE202600000052C'' = Inr (Number_Valid 2026 52 (CHR ''C'')) \<and>
   mod97Residue ''KE202600000042'' \<noteq> mod97Residue ''KE202600000052'' \<and>
   validateInvoiceNumber ''KE2026000000427'' = Inr CHECKSUM_MISMATCH"
proof -
  have shape: "ETIMS_SHAPE ''KE202600000042C'' = Some (''2026'', ''00000042'', CHR ''C'')"
    "ETIMS_SHAPE ''KE202600000052C'' = Some (''2026'', ''00000052'', CHR ''C'')"
    "ETIMS_SHAPE ''KE2026000000427'' = Some (''2026'', ''00000042'', CHR ''7'')"
    "nat_of_digits ''2026'' = 2026" "nat_of_digits ''00000042'' = 42" "nat_of_digits ''00000052'' = 52" by code_simp+
  then show ?thesis by (simp add: validateInvoiceNumber_def check_eval cong: and_then_weak_cong)
qed

end
