(* ===== verification/Spec2Isabelle.thy ===== *)
theory Spec2Isabelle
  imports Settlement Intake Matching Late_Fee Payment_Plan Fx Credit_Note Refund Reconciliation
    Dunning Dispute Payment_Link Approval_Request Audit_Trail Webhook_Delivery Webhook_Signing Collections_Case Consent Etims
begin

text \<open>
  \<^bold>\<open>Fuatilia: the receivables and collections domain.\<close> The program keeps what customers owe
  and what they pay. Its domain is a set of lanes under \<open>src/src/domain/\<close>, pure functions over
  immutable records: an operation takes an aggregate and an injected clock and returns the next
  aggregate with the events it emits, or throws a \<open>DomainError\<close> with a stable code. Lanes do not
  import each other; callers hand plain values from one to the next. The development models the
  lanes that own money and the lanes that govern, announce and attest what happens to it.

  \<^bold>\<open>Conventions.\<close> A class or interface is a record whose fields carry a prefix, a union a
  datatype. Operations keep their names, with the name of the lane first where two lanes share
  one. A throw is \<open>Inl\<close> of a \<^typ>\<open>js_error\<close>; the codes are the source's, the messages are left
  out. A \<open>Date\<close> is its time value, an integer; the clock is a function from the number of the
  call of \<open>now()\<close> to a date, so that a second reading may differ from the first. \<open>bigint\<close> is
  \<^typ>\<open>int\<close>, \<open>number\<close> is binary64 as an exact rational or a special value, and 32-bit hashing
  runs on words. Guards that only re-check a TypeScript type are covered by the types of the model.

  \<^bold>\<open>Library.\<close>
  \<^item> \<open>Prelude\<close>: results that may throw and their inversion rules (\<open>result_simps\<close>), traversal and
    reduction with early exit, strings, the clock and the event envelope of the lanes.
  \<^item> \<open>Js_Number\<close>, \<open>Js_Integer\<close>, \<open>Js_Date\<close>, \<open>Js_Text\<close>, \<open>Formats\<close>: what the lanes use of the
    language: rounding to binary64, safe integers, the UTC calendar and \<open>toISOString\<close>,
    \<open>String(number)\<close>, JSON text, UUIDs and ISO instants.
  \<^item> \<open>Contracts\<close>: a sequence of commands run against a machine (\<open>drive\<close>, \<open>accepted\<close>) and the
    contracts lanes share, as locales: \<open>guarded_machine\<close> (operations keep an invariant),
    \<open>absorbing_machine\<close> (final states), \<open>funds_pool\<close> (draws never exceed the pool and account for
    it) and \<open>idempotent_log\<close> (a logical command is logged once). Each state machine below
    interprets the ones it promises on its own operations; \<open>Strategies\<close> adds the contract of an
    allocation strategy, interpreted for all three.

  \<^bold>\<open>Money and its movements.\<close>
  \<^item> \<open>Money\<close> (\<open>shared/money.ts\<close>): the money class. Allocation by weights loses nothing although
    weights are scaled in binary64, printing and parsing are inverse; weights below the scale
    are shown to lose money.
  \<^item> \<open>Ids\<close> (\<open>shared/ids.ts\<close>, \<open>allocation/ids.ts\<close>): ids derived from a seed by FNV-1a.
  \<^item> \<open>Allocation\<close>, \<open>Strategies\<close>, \<open>Engine\<close> (\<open>allocation/\<close>): allocation rows, the FIFO, explicit and
    pro rata plans against reference definitions, execution and reversal with conservation.
  \<^item> \<open>Payments\<close>, \<open>Intake\<close>, \<open>Matching\<close> (\<open>payments/\<close>): the payment machine never commits more than
    was confirmed, callbacks create a payment once, and the matcher is complete.
  \<^item> \<open>Invoice\<close>, \<open>Receivable\<close>, \<open>Late_Fee\<close>, \<open>Payment_Plan\<close> (\<open>receivables/\<close>): frozen documents, the
    debt machine and its ageing buckets, fees accrued once per period, schedules to the cent.
  \<^item> \<open>Credit_Balance\<close>, \<open>Credit_Note\<close>, \<open>Refund\<close> (\<open>adjustments/\<close>): no credit goes below zero, no
    note is used beyond its total, a refund pays out once.
  \<^item> \<open>Fx\<close> (\<open>shared/fx.ts\<close>): conversion rounds once, halves to even; realized gain and loss.
  \<^item> \<open>Ledger\<close>, \<open>Reconciliation\<close> (\<open>ledger/\<close>): balanced entries, one per source event, reversals
    that cancel, and the daily comparison with the receivables.
  \<^item> \<open>Payment_Link\<close> (\<open>paymentlinks/\<close>): links collect within their bounds, once per key.
  \<^item> \<open>Settlement\<close>: the lanes together. What the engine plans out of the unapplied funds of a
    payment is exactly what the payment reserves and the receivables book.

  \<^bold>\<open>Collection and governance.\<close>
  \<^item> \<open>Promise_To_Pay\<close>, \<open>Dunning\<close> (\<open>promises/\<close>): the promise machine against its transition table,
    and the reminder ladder, which sends a step once and catches up after missed runs.
  \<^item> \<open>Dispute\<close> (\<open>disputes/\<close>): one open dispute per receivable, and the pause of collection as a
    consumer of events sees it.
  \<^item> \<open>Approval_Policy\<close>, \<open>Approval_Request\<close> (\<open>approvals/\<close>): which operations need a second person,
    and the maker-checker machine: no approval without its quorum, and no quorum without
    approval.
  \<^item> \<open>Collections_Case\<close> (\<open>collections/\<close> without the mobile-money push): one open case per receivable,
    the action log behind the consent gate, and the derived status, which agrees with the pause
    policy of the disputes.
  \<^item> \<open>Consent\<close>, \<open>Etims\<close> (\<open>consent/\<close>): the register and the guard in front of a contact, which needs
    a live grant; tax invoice numbers, valid and distinct. The sequence source is a parameter.

  \<^bold>\<open>Events, audit and delivery.\<close>
  \<^item> \<open>Outbox\<close> (\<open>events/\<close>): the catalog, envelopes, and the outbox with its checkpoints.
  \<^item> \<open>Audit_Trail\<close> (\<open>audit/\<close>): redaction, the append-only sink and the hash chain, which always
    verifies after appends and shows tampering. The hash function is a parameter.
  \<^item> \<open>Webhook_Endpoint\<close>, \<open>Webhook_Delivery\<close>, \<open>Webhook_Signing\<close> (\<open>webhooks/\<close>): subscriptions and
    targets, the delivery queue with its retry ladder, signatures. The digest and the
    generation and hashing of secrets are parameters.

  \<^bold>\<open>Bounds.\<close> No model uses fuel: loops are structural recursions or folds over lists, and
  time-outs are comparisons of dates. Where a result rests on a range it is a hypothesis: sums
  kept as \<open>number\<close> within the safe integers, dates within the range of \<open>Date\<close>, and a hash that
  does not collide on the texts at hand.

  \<^bold>\<open>Not modelled.\<close> The mobile-money push of collections (\<open>collections/stk/\<close>), the collection policy
  rules, communications, authentication, cross-border intents and USSD sessions are lanes of
  their own that the ones above only meet through values (dunning takes the consent reference as
  an argument). The lanes \<open>behavior\<close>, \<open>intelligence\<close>, \<open>memory\<close>, \<open>nba\<close>,
  \<open>projections\<close> and \<open>agent\<close> read projected facts and own no funds. The adapters, the Go backend,
  the front end, the database and the scripts are I/O around the domain. Of the modelled lanes,
  error messages and freezing of objects are left out: neither is observable in a result.
\<close>

end
